(* ===== verification/Prelude.thy ===== *)
theory Prelude
  imports Complex_Main "HOL-Library.AList" "HOL-Library.Char_ord" "HOL-Library.List_Lexorder"
begin

text \<open>
  Shared material of the development: the types every component uses (names, times,
  durations), Python dictionaries and SQLite tables as insertion-ordered association
  lists with an interface locale for them, the Python string primitives the code
  formats its messages with, and a locale for step functions that keep an invariant.

  Strings are Isabelle strings: a character stands for a code point below 256, and the
  string functions below agree with Python's on those. A time is the number of
  microseconds since the epoch in UTC, the resolution and the order of an aware
  \<open>datetime\<close>. A duration in seconds is a Python float; every float is a rational and the
  only arithmetic the code does with durations is multiplication by powers of two,
  comparison and conversion to microseconds, so it is kept as an exact rational.
\<close>

section \<open>Types\<close>

type_synonym name = string
type_synonym time = int
type_synonym seconds = rat
type_synonym ('k, 'v) dict = "('k \<times> 'v) list"

named_theorems dict_simps \<open>reading and updating dictionaries\<close>

section \<open>Dictionaries\<close>

text \<open>
  A Python dict keeps its keys in the order of their first insertion, overwriting in place;
  a SQLite table scanned in rowid order does the same under an upsert on its key. Both are
  association lists with distinct keys under the library's update and delete.
\<close>

abbreviation dict_get :: "('k, 'v) dict \<Rightarrow> 'k \<Rightarrow> 'v option" where
  "dict_get d k \<equiv> map_of d k"

abbreviation dict_put :: "('k, 'v) dict \<Rightarrow> 'k \<Rightarrow> 'v \<Rightarrow> ('k, 'v) dict" where
  "dict_put d k v \<equiv> AList.update k v d"

abbreviation dict_del :: "('k, 'v) dict \<Rightarrow> 'k \<Rightarrow> ('k, 'v) dict" where
  "dict_del d k \<equiv> AList.delete k d"

abbreviation dict_keys :: "('k, 'v) dict \<Rightarrow> 'k list" where
  "dict_keys d \<equiv> map fst d"

abbreviation dict_ok :: "('k, 'v) dict \<Rightarrow> bool" where
  "dict_ok d \<equiv> distinct (dict_keys d)"

text \<open>\<open>d.setdefault(k, []).append(x)\<close>\<close>

definition dict_append :: "('k, 'v list) dict \<Rightarrow> 'k \<Rightarrow> 'v \<Rightarrow> ('k, 'v list) dict" where
  "dict_append d k x = dict_put d k ((case dict_get d k of None \<Rightarrow> [] | Some xs \<Rightarrow> xs) @ [x])"

declare map_of_eq_Some_iff [simp del]

lemma dict_get_put [simp, dict_simps]:
  "dict_get (dict_put d k v) k' = (if k' = k then Some v else dict_get d k')"
  by (simp add: update_conv')

lemma dict_get_del [simp, dict_simps]:
  "dict_get (dict_del d k) k' = (if k' = k then None else dict_get d k')"
  by (simp add: delete_conv')

lemma dict_ok_put [simp, dict_simps]: "dict_ok d \<Longrightarrow> dict_ok (dict_put d k v)"
  by (rule distinct_update)

lemma dict_ok_del [simp, dict_simps]: "dict_ok d \<Longrightarrow> dict_ok (dict_del d k)"
  by (rule distinct_delete)

lemma dict_get_append [simp, dict_simps]:
  "dict_get (dict_append d k x) k' =
     (if k' = k then Some ((case dict_get d k of None \<Rightarrow> [] | Some xs \<Rightarrow> xs) @ [x])
      else dict_get d k')"
  by (simp add: dict_append_def)

lemma set_dict_keys: "set (dict_keys d) = dom (dict_get d)"
  by (rule dom_map_of_conv_image_fst [symmetric, simplified set_map [symmetric]])

lemma dict_keys_put: "set (dict_keys (dict_put d k v)) = insert k (set (dict_keys d))"
  by (simp add: set_dict_keys update_conv' flip: set_map) (auto split: if_splits)

lemma dict_keys_del: "set (dict_keys (dict_del d k)) = set (dict_keys d) - {k}"
  by (simp add: set_dict_keys delete_conv' flip: set_map) (auto split: if_splits)

lemma dict_put_same: "dict_get d k = Some v \<Longrightarrow> dict_put d k v = d"
  by (induction d) (auto split: if_splits)

lemma keyed_put:
  "\<forall>q \<in> set d. f (snd q) = fst q \<Longrightarrow> f v = k \<Longrightarrow> q \<in> set (dict_put d k v) \<Longrightarrow> f (snd q) = fst q"
  by (induction d) (auto split: if_splits)

lemma dict_get_mem: "dict_ok d \<Longrightarrow> (k, v) \<in> set d \<longleftrightarrow> dict_get d k = Some v"
  by (simp add: map_of_eq_Some_iff)

lemma map_of_filter_key: "map_of (filter (\<lambda>p. P (fst p)) d) k = (if P k then map_of d k else None)"
  by (induction d) auto

lemma map_of_map_key_val:
  "map_of (map (\<lambda>p. (fst p, f (fst p) (snd p))) d) k = map_option (f k) (map_of d k)"
  by (induction d) auto

lemma distinct_map_sort_key: "distinct (map f (sort_key g xs)) = distinct (map f xs)"
  by (simp add: distinct_map)

section \<open>The dictionary interface\<close>

text \<open>
  What every client of a dictionary or of a keyed table relies on. The laws are those of a
  lookup after an update; the lemmas below are proved from them alone and reused for each
  table of the database and for the in-memory caches.
\<close>

locale dictionary =
  fixes get :: "'d \<Rightarrow> 'k \<Rightarrow> 'v option"
    and put :: "'d \<Rightarrow> 'k \<Rightarrow> 'v \<Rightarrow> 'd"
    and del :: "'d \<Rightarrow> 'k \<Rightarrow> 'd"
    and ok :: "'d \<Rightarrow> bool"
  assumes get_put: "get (put d k v) k' = (if k' = k then Some v else get d k')"
    and get_del: "get (del d k) k' = (if k' = k then None else get d k')"
    and ok_put: "ok d \<Longrightarrow> ok (put d k v)"
    and ok_del: "ok d \<Longrightarrow> ok (del d k)"
begin

lemma put_supersedes: "get (put (put d k v) k w) = get (put d k w)"
  by (rule ext) (simp add: get_put)

lemma put_commutes: "k \<noteq> l \<Longrightarrow> get (put (put d k v) l w) = get (put (put d l w) k v)"
  by (rule ext) (simp add: get_put)

lemma del_after_put: "get (del (put d k v) k) = get (del d k)"
  by (rule ext) (simp add: get_put get_del)

lemma get_put_fold_other:
  "k \<notin> f ` set xs \<Longrightarrow> get (fold (\<lambda>x d. put d (f x) (g x d)) xs d) k = get d k"
  by (induction xs arbitrary: d) (auto simp: get_put)

lemma get_del_fold:
  "get (fold (\<lambda>x d. del d x) xs d) k = (if k \<in> set xs then None else get d k)"
  by (induction xs arbitrary: d) (auto simp: get_del)

lemma ok_del_fold: "ok d \<Longrightarrow> ok (fold (\<lambda>x d. del d x) xs d)"
  by (induction xs arbitrary: d) (auto simp: ok_del)

end

interpretation alist: dictionary map_of "\<lambda>d k v. AList.update k v d" "\<lambda>d k. AList.delete k d"
  "\<lambda>d. distinct (map fst d)"
  by unfold_locales (simp_all add: distinct_update distinct_delete)

section \<open>Step functions that may raise\<close>

text \<open>
  A handler either raises, with what it leaves behind on disk, or returns the new state.
  Running a list of inputs stops at the first exception, as an uncaught exception does.
\<close>

fun run_steps :: "('e \<Rightarrow> 's \<Rightarrow> 'x + 's) \<Rightarrow> 'e list \<Rightarrow> 's \<Rightarrow> 'x + 's" where
  "run_steps f [] s = Inr s"
| "run_steps f (e # es) s = (case f e s of Inl x \<Rightarrow> Inl x | Inr s' \<Rightarrow> run_steps f es s')"

lemma run_steps_append:
  "run_steps f (xs @ ys) s = (case run_steps f xs s of Inl x \<Rightarrow> Inl x | Inr t \<Rightarrow> run_steps f ys t)"
  by (induction xs arbitrary: s) (auto split: sum.split)

lemma run_steps_map: "run_steps f (map h xs) s = run_steps (\<lambda>x. f (h x)) xs s"
  by (induction xs arbitrary: s) (auto split: sum.split)

lemma run_steps_cong:
  "(\<And>x s. x \<in> set xs \<Longrightarrow> f x s = g x s) \<Longrightarrow> run_steps f xs s = run_steps g xs s"
  by (induction xs arbitrary: s) (auto split: sum.split)

lemma run_steps_rel:
  assumes "\<And>e s t. e \<in> set es \<Longrightarrow> I s \<Longrightarrow> f e s = Inr t \<Longrightarrow> R s t"
    and "\<And>e s t. e \<in> set es \<Longrightarrow> I s \<Longrightarrow> f e s = Inr t \<Longrightarrow> I t"
    and "\<And>s. R s s" and "\<And>s t u. R s t \<Longrightarrow> R t u \<Longrightarrow> R s u"
  shows "I s \<Longrightarrow> run_steps f es s = Inr t \<Longrightarrow> R s t"
  using assms(1,2)
proof (induction es arbitrary: s)
  case Nil
  then show ?case using assms(3) by simp
next
  case (Cons e es)
  from Cons.prems(2) obtain u where u: "f e s = Inr u" and rest: "run_steps f es u = Inr t"
    by (auto split: sum.splits)
  have "I u" using Cons.prems(4) [OF _ Cons.prems(1) u] by simp
  moreover have "R u t" by (rule Cons.IH [OF \<open>I u\<close> rest]) (auto intro: Cons.prems(3,4))
  moreover have "R s u" using Cons.prems(3) [OF _ Cons.prems(1) u] by simp
  ultimately show ?case using assms(4) by blast
qed

locale step_system =
  fixes stp :: "'e \<Rightarrow> 's \<Rightarrow> 'x + 's"
    and admissible :: "'e \<Rightarrow> 's \<Rightarrow> bool"
    and inv :: "'s \<Rightarrow> bool"
  assumes inv_step: "inv s \<Longrightarrow> admissible e s \<Longrightarrow> stp e s = Inr t \<Longrightarrow> inv t"
    and admissible_step: "inv s \<Longrightarrow> admissible e s \<Longrightarrow> admissible e' s \<Longrightarrow> stp e s = Inr t \<Longrightarrow> admissible e' t"
begin

lemma inv_run:
  "inv s \<Longrightarrow> \<forall>e \<in> set es. admissible e s \<Longrightarrow> run_steps stp es s = Inr t \<Longrightarrow> inv t"
proof (induction es arbitrary: s)
  case Nil
  then show ?case by simp
next
  case (Cons e es)
  from Cons.prems(3) obtain u where u: "stp e s = Inr u" and rest: "run_steps stp es u = Inr t"
    by (auto split: sum.splits)
  have "inv u" using inv_step Cons.prems(1,2) u by auto
  moreover have "\<forall>e' \<in> set es. admissible e' u"
    using admissible_step Cons.prems(1,2) u by (meson list.set_intros)
  ultimately show ?case using rest by (rule Cons.IH)
qed

end

section \<open>Python strings\<close>

text \<open>\<open>str.strip()\<close>: the code points below 256 that Python counts as whitespace.\<close>

definition is_space :: "char \<Rightarrow> bool" where
  "is_space c = (let n = (of_char c :: nat) in
     (9 \<le> n \<and> n \<le> 13) \<or> (28 \<le> n \<and> n \<le> 32) \<or> n = 133 \<or> n = 160)"

definition py_strip :: "string \<Rightarrow> string" where
  "py_strip s = rev (dropWhile is_space (rev (dropWhile is_space s)))"

lemma dropWhile_idem: "dropWhile P (dropWhile P xs) = dropWhile P xs"
  by (induction xs) auto

lemma dropWhile_butlast_head:
  "xs \<noteq> [] \<Longrightarrow> \<not> P (hd xs) \<Longrightarrow> dropWhile P xs = xs"
  by (cases xs) auto

lemma py_strip_ends:
  "py_strip s \<noteq> [] \<Longrightarrow> \<not> is_space (hd (py_strip s)) \<and> \<not> is_space (last (py_strip s))"
proof -
  let ?a = "dropWhile is_space s"
  let ?b = "dropWhile is_space (rev ?a)"
  assume ne: "py_strip s \<noteq> []"
  then have b: "?b \<noteq> []" by (simp add: py_strip_def)
  then have lst: "\<not> is_space (last (py_strip s))"
    using hd_dropWhile [of is_space "rev ?a"] by (simp add: py_strip_def last_rev)
  obtain p where "rev ?a = p @ ?b" by (metis takeWhile_dropWhile_id)
  then have split: "?a = rev ?b @ rev p" by (metis rev_append rev_rev_ident)
  have nb: "rev ?b \<noteq> []" using b by (simp only: rev_is_Nil_conv not_False_eq_True)
  then have "?a \<noteq> []" by (subst split) (simp only: append_is_Nil_conv simp_thms)
  then have "\<not> is_space (hd ?a)" by (rule hd_dropWhile)
  moreover have "hd ?a = hd (rev ?b)" by (subst split) (rule hd_append2 [OF nb])
  ultimately have "\<not> is_space (hd (py_strip s))" by (simp only: py_strip_def simp_thms)
  with lst show ?thesis by simp
qed

lemma py_strip_idem [simp]: "py_strip (py_strip s) = py_strip s"
proof (cases "py_strip s = []")
  case True
  then show ?thesis by (simp only: True) (simp add: py_strip_def)
next
  case False
  let ?t = "py_strip s"
  have h: "\<not> is_space (hd ?t)" and l: "\<not> is_space (last ?t)" using py_strip_ends [OF False] by auto
  have "dropWhile is_space ?t = ?t" using False h by (rule dropWhile_butlast_head)
  moreover have "dropWhile is_space (rev ?t) = rev ?t"
    by (rule dropWhile_butlast_head) (use False l in \<open>simp_all add: hd_rev\<close>)
  ultimately show ?thesis unfolding py_strip_def [of ?t] by simp
qed

text \<open>\<open>str.lower\<close> on code points below 256.\<close>

definition lower_char :: "char \<Rightarrow> char" where
  "lower_char c = (let n = (of_char c :: nat) in
     if (65 \<le> n \<and> n \<le> 90) \<or> (192 \<le> n \<and> n \<le> 222 \<and> n \<noteq> 215) then char_of (n + 32) else c)"

definition lower :: "string \<Rightarrow> string" where
  "lower s = map lower_char s"

text \<open>Decimal rendering of integers, and the float formats \<open>:.0f\<close> of the messages.\<close>

definition digit_char :: "nat \<Rightarrow> char" where
  "digit_char d = ''0123456789'' ! d"

fun string_of_nat :: "nat \<Rightarrow> string" where
  "string_of_nat n = (if n < 10 then [digit_char n] else string_of_nat (n div 10) @ [digit_char (n mod 10)])"

declare string_of_nat.simps [simp del]

definition string_of_int :: "int \<Rightarrow> string" where
  "string_of_int i = (if i < 0 then ''-'' @ string_of_nat (nat (- i)) else string_of_nat (nat i))"

definition round_half_even :: "rat \<Rightarrow> int" where
  "round_half_even r =
     (let f = \<lfloor>r\<rfloor>; d = r - of_int f in
      if d < 1 / 2 then f else if d > 1 / 2 then f + 1 else if even f then f else f + 1)"

definition fmt0f :: "rat \<Rightarrow> string" where
  "fmt0f r = string_of_int (round_half_even r)"

definition py_bool :: "bool \<Rightarrow> string" where
  "py_bool b = (if b then ''True'' else ''False'')"

text \<open>\<open>timedelta(seconds=s)\<close> in microseconds.\<close>

definition timedelta_us :: "seconds \<Rightarrow> int" where
  "timedelta_us s = round_half_even (s * 1000000)"

lemma round_half_even_of_int [simp]: "round_half_even (of_int i) = i"
  by (simp add: round_half_even_def)

lemma round_half_even_floor:
  "\<lfloor>r\<rfloor> \<le> round_half_even r \<and> round_half_even r \<le> \<lfloor>r\<rfloor> + 1"
  by (simp add: round_half_even_def Let_def)

lemma round_half_even_nonneg: "0 \<le> r \<Longrightarrow> 0 \<le> round_half_even r"
  using round_half_even_floor [of r] by (meson order_trans zero_le_floor)

lemma timedelta_us_nonneg: "0 \<le> s \<Longrightarrow> 0 \<le> timedelta_us s"
  by (simp add: timedelta_us_def round_half_even_nonneg)

text \<open>
  \<open>repr\<close> of a string: single quotes unless the text holds one and no double quote;
  the backslash, the quote and the code points that are not printable are escaped.
\<close>

definition hex_digit :: "nat \<Rightarrow> char" where
  "hex_digit d = ''0123456789abcdef'' ! d"

definition repr_char :: "char \<Rightarrow> char \<Rightarrow> string" where
  "repr_char q c = (let n = (of_char c :: nat) in
     if c = q \<or> n = 92 then [CHR 0x5C, c]
     else if n = 9 then [CHR 0x5C, CHR ''t''] else if n = 10 then [CHR 0x5C, CHR ''n'']
     else if n = 13 then [CHR 0x5C, CHR ''r'']
     else if n < 32 \<or> (127 \<le> n \<and> n \<le> 160) \<or> n = 173
          then [CHR 0x5C, CHR ''x'', hex_digit (n div 16), hex_digit (n mod 16)]
     else [c])"

definition py_repr :: "string \<Rightarrow> string" where
  "py_repr s = (let q = (if CHR 0x27 \<in> set s \<and> CHR 0x22 \<notin> set s then CHR 0x22 else CHR 0x27)
     in [q] @ concat (map (repr_char q) s) @ [q])"

text \<open>\<open>sep.join(parts)\<close> and \<open>sorted\<close> of a set of strings.\<close>

fun join :: "string \<Rightarrow> string list \<Rightarrow> string" where
  "join sep [] = []"
| "join sep [x] = x"
| "join sep (x # xs) = x @ sep @ join sep xs"

definition sorted_set :: "name list \<Rightarrow> name list" where
  "sorted_set xs = sort (remdups xs)"

lemma set_sorted_set [simp]: "set (sorted_set xs) = set xs"
  by (simp add: sorted_set_def)

lemma sorted_set_props: "sorted (sorted_set xs)" "distinct (sorted_set xs)"
  by (simp_all add: sorted_set_def)

end
