(* ===== verification/Config_Data.thy ===== *)
theory Config_Data
  imports Prelude
begin

text \<open>
  The data half of \<open>config.py\<close>: parsed JSON values, the path of a value through a file,
  and the dataclasses a loaded configuration consists of, with the two enabled-only
  views that the rule graph and the runtime are built from.
\<close>

section \<open>JSON values\<close>

text \<open>
  What \<open>json.loads\<close> returns. An object is the dict its key/value pairs are collected
  into, in file order; a JSON float is the rational value of the double it parses to.
\<close>

datatype json =
    JNull
  | JBool bool
  | JInt int
  | JFloat rat
  | JStr string
  | JList "json list"
  | JObj "(string \<times> json) list"

type_synonym settings = "(string, json) dict"

section \<open>Where something is\<close>

record config_path =
  cp_file :: string
  cp_steps :: "string list"

definition path_root :: "string \<Rightarrow> config_path" where
  "path_root f = \<lparr>cp_file = f, cp_steps = []\<rparr>"

definition path_key :: "config_path \<Rightarrow> string \<Rightarrow> config_path" where
  "path_key p k = p\<lparr>cp_steps := cp_steps p @ [k]\<rparr>"

definition path_named :: "config_path \<Rightarrow> string \<Rightarrow> config_path" where
  "path_named p v = p\<lparr>cp_steps := cp_steps p @ [py_repr v]\<rparr>"

definition path_element :: "config_path \<Rightarrow> nat \<Rightarrow> config_path" where
  "path_element p i = (let sub = ''['' @ string_of_nat i @ '']'' in
     if cp_steps p = [] then p\<lparr>cp_steps := [sub]\<rparr>
     else p\<lparr>cp_steps := butlast (cp_steps p) @ [last (cp_steps p) @ sub]\<rparr>)"

section \<open>The configuration\<close>

datatype plugin_direction = DirInput | DirOutput

record instance_config =
  ic_name :: name
  ic_plugin :: string
  ic_directions :: "plugin_direction list"
  ic_settings :: settings
  ic_enabled :: bool
  ic_origin :: config_path

definition is_input :: "instance_config \<Rightarrow> bool" where
  "is_input i \<longleftrightarrow> DirInput \<in> set (ic_directions i)"

definition is_output :: "instance_config \<Rightarrow> bool" where
  "is_output i \<longleftrightarrow> DirOutput \<in> set (ic_directions i)"

record rule_config =
  rc_name :: name
  rc_inputs :: "name list"
  rc_outputs :: "name list"
  rc_enabled :: bool
  rc_origin :: config_path

record daemon_settings =
  event_log_max_rows :: int
  dispatcher_threads :: int
  retry_initial_seconds :: seconds
  retry_max_seconds :: seconds

definition default_daemon_settings :: daemon_settings where
  "default_daemon_settings =
     \<lparr>event_log_max_rows = 10000, dispatcher_threads = 4,
      retry_initial_seconds = 5, retry_max_seconds = 900\<rparr>"

record configuration =
  c_instances :: "(name, instance_config) dict"
  c_rules :: "(name, rule_config) dict"
  c_files :: "string list"
  c_daemon :: daemon_settings

definition enabled_instances :: "configuration \<Rightarrow> instance_config list" where
  "enabled_instances c = sort_key ic_name (filter ic_enabled (map snd (c_instances c)))"

definition enabled_rules :: "configuration \<Rightarrow> rule_config list" where
  "enabled_rules c = sort_key rc_name (filter rc_enabled (map snd (c_rules c)))"

text \<open>
  The shape of a loaded configuration: both tables are dicts keyed by the name of the
  object they hold, because the loader writes \<open>instances[instance.name] = instance\<close>, and
  a rule lists no instance twice, which the loader refuses.
\<close>

definition config_keyed :: "configuration \<Rightarrow> bool" where
  "config_keyed c \<longleftrightarrow> dict_ok (c_instances c) \<and> dict_ok (c_rules c) \<and>
     (\<forall>p \<in> set (c_instances c). ic_name (snd p) = fst p) \<and>
     (\<forall>p \<in> set (c_rules c). rc_name (snd p) = fst p \<and>
        distinct (rc_inputs (snd p)) \<and> distinct (rc_outputs (snd p)))"

lemma set_enabled_instances:
  "set (enabled_instances c) = {i \<in> snd ` set (c_instances c). ic_enabled i}"
  by (auto simp: enabled_instances_def)

lemma set_enabled_rules:
  "set (enabled_rules c) = {r \<in> snd ` set (c_rules c). rc_enabled r}"
  by (auto simp: enabled_rules_def)

lemma map_snd_keys:
  "\<forall>p \<in> set d. f (snd p) = fst p \<Longrightarrow> map (f \<circ> snd) d = map fst d"
  by simp

lemma distinct_map_filter_keep: "distinct (map f xs) \<Longrightarrow> distinct (map f (filter P xs))"
  by (rule distinct_map_filter)

lemma distinct_enabled_rules:
  assumes "config_keyed c"
  shows "distinct (map rc_name (enabled_rules c))"
proof -
  have k: "map (rc_name \<circ> snd) (c_rules c) = map fst (c_rules c)"
    using assms by (intro map_snd_keys) (simp add: config_keyed_def)
  have "distinct (map rc_name (map snd (c_rules c)))"
    using assms by (simp only: map_map k config_keyed_def)
  then show ?thesis
    by (simp only: enabled_rules_def distinct_map_sort_key distinct_map_filter_keep)
qed

section \<open>An example configuration\<close>

text \<open>Two inputs, two outputs and two rules, for the witnesses of the properties.\<close>

definition ex_instance :: "name \<Rightarrow> plugin_direction \<Rightarrow> name \<times> instance_config" where
  "ex_instance n dir = (n, \<lparr>ic_name = n, ic_plugin = ''p'', ic_directions = [dir], ic_settings = [],
     ic_enabled = True, ic_origin = path_root ''f''\<rparr>)"

definition ex_rule :: "name \<Rightarrow> name list \<Rightarrow> name list \<Rightarrow> name \<times> rule_config" where
  "ex_rule n is os = (n, \<lparr>rc_name = n, rc_inputs = is, rc_outputs = os, rc_enabled = True,
     rc_origin = path_root ''f''\<rparr>)"

definition ex_config :: configuration where
  "ex_config = \<lparr>c_instances = [ex_instance ''mail'' DirInput, ex_instance ''web'' DirInput,
       ex_instance ''pager'' DirOutput, ex_instance ''lamp'' DirOutput],
     c_rules = [ex_rule ''outage'' [''mail'', ''web''] [''pager''], ex_rule ''visitor'' [''web''] [''lamp'']],
     c_files = [], c_daemon = default_daemon_settings\<rparr>"

lemma ex_keyed: "config_keyed ex_config"
  by (simp add: config_keyed_def ex_config_def ex_instance_def ex_rule_def)

end
