(* ===== verification/Plugin_Api.thy ===== *)
theory Plugin_Api
  imports Prelude
begin

text \<open>
  The data that crosses the plugin boundary (\<open>plugin.py\<close> and the health status of
  \<open>storage.py\<close>): observed events and their one-line summary, the metadata clamp, what an
  output reports about its remote end, what an output is asked to render, and health.
\<close>

section \<open>Events\<close>

definition max_metadata_value_length :: nat where
  "max_metadata_value_length = 1024"

record observed_event =
  occurred_at :: time
  metadata :: "(string, string) dict"

definition event_summary :: "observed_event \<Rightarrow> string" where
  "event_summary e =
     (if metadata e = [] then ''(no metadata)''
      else join '' '' (map (\<lambda>key. key @ ''='' @ py_repr (the (dict_get (metadata e) key)))
             (sort (dict_keys (metadata e)))))"

definition clamp_value :: "string \<Rightarrow> string" where
  "clamp_value v =
     (if length v > max_metadata_value_length
      then take max_metadata_value_length v @ ''...[truncated]'' else v)"

definition clamp_metadata :: "(string, string) dict \<Rightarrow> (string, string) dict" where
  "clamp_metadata m = fold (\<lambda>(key, v) clamped. dict_put clamped key (clamp_value v)) m []"

lemma fold_clamp:
  assumes "dict_ok (acc @ m)"
  shows "fold (\<lambda>(key, v) clamped. dict_put clamped key (clamp_value v)) m acc =
     acc @ map (\<lambda>(k, v). (k, clamp_value v)) m"
  using assms
proof (induction m arbitrary: acc)
  case Nil
  then show ?case by simp
next
  case (Cons p m)
  obtain k v where p: "p = (k, v)" by (cases p)
  have "k \<notin> fst ` set acc" using Cons.prems p by auto
  then have "dict_put acc k (clamp_value v) = acc @ [(k, clamp_value v)]"
    by (induction acc) auto
  then show ?case using Cons.IH [of "acc @ [(k, clamp_value v)]"] Cons.prems p by auto
qed

lemma clamp_metadata_map:
  "dict_ok m \<Longrightarrow> clamp_metadata m = map (\<lambda>(k, v). (k, clamp_value v)) m"
  using fold_clamp [of "[]" m] by (simp add: clamp_metadata_def)

lemma clamp_value_length: "length (clamp_value v) \<le> 1024 + length ''...[truncated]''"
  by (simp add: clamp_value_def max_metadata_value_length_def)

lemma clamp_metadata_length:
  "dict_ok m \<Longrightarrow> p \<in> set (clamp_metadata m) \<Longrightarrow> length (snd p) \<le> 1024 + length ''...[truncated]''"
  using clamp_value_length by (auto simp: clamp_metadata_map case_prod_beta)

text \<open>
  Clamping keeps the keys and their order, leaves a value within the limit alone and
  cuts a longer one to its first 1024 characters and the truncation mark, so no value
  handed on is longer than the limit and the mark together.
\<close>

theorem clamp_metadata_bounds:
  assumes "dict_ok m"
  shows "dict_keys (clamp_metadata m) = dict_keys m \<and>
    (\<forall>k. dict_get (clamp_metadata m) k = map_option clamp_value (dict_get m k)) \<and>
    (\<forall>p \<in> set (clamp_metadata m). length (snd p) \<le> 1024 + length ''...[truncated]'') \<and>
    ((\<forall>p \<in> set m. length (snd p) \<le> 1024) \<longrightarrow> clamp_metadata m = m)"
proof -
  have eq: "clamp_metadata m = map (\<lambda>(k, v). (k, clamp_value v)) m" by (rule clamp_metadata_map [OF assms])
  have "dict_get (map (\<lambda>(k, v). (k, clamp_value v)) m) k = map_option clamp_value (dict_get m k)" for k
    by (induction m) auto
  moreover have "length (clamp_value v) \<le> 1024 + length ''...[truncated]''" for v by (rule clamp_value_length)
  moreover have "map (\<lambda>(k, v). (k, clamp_value v)) m = m" if "\<forall>p \<in> set m. length (snd p) \<le> 1024"
    using that by (auto intro!: map_idI simp: clamp_value_def max_metadata_value_length_def)
  ultimately show ?thesis unfolding eq by (auto simp: case_prod_beta)
qed

theorem clamp_metadata_bounds_witness:
  "dict_keys (clamp_metadata [(''subject'', ''hello''), (''uid'', ''7'')]) = [''subject'', ''uid'']"
  using clamp_metadata_bounds [of "[(''subject'', ''hello''), (''uid'', ''7'')]"] by simp

section \<open>Outputs\<close>

datatype remote_belief = Active | Cleared | Unknown

record remote_state =
  belief :: remote_belief
  rs_cleared_at :: "time option"

record output_update =
  ou_state :: bool
  ou_cause :: string
  ou_detail :: string
  ou_trigger_count :: int
  ou_rules :: "name list"
  ou_since :: "time option"

definition update_off :: "bool \<Rightarrow> output_update" where
  "update_off b = \<lparr>ou_state = b, ou_cause = [], ou_detail = [], ou_trigger_count = 0,
     ou_rules = [], ou_since = None\<rparr>"

definition update_summary :: "output_update \<Rightarrow> string" where
  "update_summary u =
     (let detail = (if ou_detail u = [] then ''latched'' else ou_detail u) in
      if \<not> ou_state u then ''cleared''
      else if ou_trigger_count u > 1
      then detail @ '' ('' @ string_of_int (ou_trigger_count u) @ '' triggers)''
      else detail)"

section \<open>Health\<close>

datatype health_status = HsUnknown | HsStarting | HsOk | HsDegraded | HsFailed | HsStopped

record plugin_health =
  ph_status :: health_status
  ph_detail :: string

text \<open>
  What a plugin call answers: a value, or an exception as its type name and its text, which
  is all the core reads of one.
\<close>

type_synonym 'a plugin_answer = "(string \<times> string) + 'a"

end
