(* ===== verification/Storage.thy ===== *)
theory Storage
  imports Prelude Plugin_Api
begin

text \<open>
  \<open>storage.py\<close>: the tables of the state database and every operation of \<open>Store\<close> and
  \<open>PluginKeyValueStore\<close> on them. A table is an insertion-ordered dict from its primary key
  to the row, the two member tables are lists of pairs, the event log is the list of its
  rows in id order with the AUTOINCREMENT counter beside it. Foreign keys (rule names of
  latches and members) raise \<open>IntegrityError\<close> where SQLite enforces them. Times are kept
  as times, not as their ISO text.
\<close>

section \<open>Rows\<close>

datatype event_kind =
    InputEventKind | LatchSet | LatchRetriggered | LatchCleared | UnlatchIgnored
  | OutputPushSucceeded | OutputPushFailed | Reconciled | ConfigLoaded | RuleOrphaned
  | RuleAdopted | Renamed | Purged | DaemonStarted | DaemonStopped

record latch_record =
  lr_rule :: name
  lr_state :: bool
  lr_set_at :: "time option"
  lr_cleared_at :: "time option"
  lr_trigger_count :: int
  lr_last_cause :: "name option"
  lr_last_detail :: "string option"

record rule_record =
  rr_name :: name
  rr_enabled :: bool
  rr_orphaned :: bool
  rr_inputs :: "name list"
  rr_outputs :: "name list"

record instance_record =
  ir_name :: name
  ir_plugin :: string
  ir_enabled :: bool
  ir_orphaned :: bool

record output_state_record =
  os_instance :: name
  os_last_applied :: "bool option"
  os_last_confirmed :: "bool option"
  os_last_sync_at :: "time option"

record pending_push =
  pp_instance :: name
  pp_target :: bool
  pp_attempts :: int
  pp_next_attempt_at :: time
  pp_last_error :: "string option"

record health_record =
  hr_instance :: name
  hr_status :: health_status
  hr_detail :: string
  hr_updated_at :: time

record event_log_entry =
  el_id :: int
  el_at :: time
  el_kind :: event_kind
  el_instance :: "name option"
  el_rule :: "name option"
  el_detail :: string

text \<open>The stored columns of \<open>rules\<close> and \<open>instances\<close> beside their key.\<close>

record rule_row =
  row_enabled :: bool
  row_orphaned :: bool

record db =
  db_instances :: "(name, instance_record) dict"
  db_rules :: "(name, rule_row) dict"
  db_rule_inputs :: "(name \<times> name) list"
  db_rule_outputs :: "(name \<times> name) list"
  db_latches :: "(name, latch_record) dict"
  db_output_state :: "(name, output_state_record) dict"
  db_plugin_kv :: "(name \<times> string, string) dict"
  db_pending :: "(name, pending_push) dict"
  db_health :: "(name, health_record) dict"
  db_event_log :: "event_log_entry list"
  db_event_seq :: int
  db_daemon_state :: "(string, time) dict"

definition empty_db :: db where
  "empty_db = \<lparr>db_instances = [], db_rules = [], db_rule_inputs = [], db_rule_outputs = [],
     db_latches = [], db_output_state = [], db_plugin_kv = [], db_pending = [], db_health = [],
     db_event_log = [], db_event_seq = 0, db_daemon_state = []\<rparr>"

datatype exn =
    IntegrityError
  | OverflowError
  | NoSuchRule name
  | RuleExists name

type_synonym 'a result = "exn + 'a"

section \<open>Latches\<close>

definition latch :: "db \<Rightarrow> name \<Rightarrow> latch_record option" where
  "latch d r = dict_get (db_latches d) r"

definition latches :: "db \<Rightarrow> latch_record list" where
  "latches d = map snd (sort_key fst (db_latches d))"

definition write_latch :: "db \<Rightarrow> latch_record \<Rightarrow> db result" where
  "write_latch d l =
     (if latch d (lr_rule l) = None \<and> dict_get (db_rules d) (lr_rule l) = None
      then Inl IntegrityError
      else Inr (d\<lparr>db_latches := dict_put (db_latches d) (lr_rule l) l\<rparr>))"

text \<open>The record of a rule nothing has ever latched.\<close>

definition fresh_latch :: "name \<Rightarrow> latch_record" where
  "fresh_latch r = \<lparr>lr_rule = r, lr_state = False, lr_set_at = None, lr_cleared_at = None,
     lr_trigger_count = 0, lr_last_cause = None, lr_last_detail = None\<rparr>"

section \<open>Output state and pending pushes\<close>

definition output_state :: "db \<Rightarrow> name \<Rightarrow> output_state_record option" where
  "output_state d i = dict_get (db_output_state d) i"

definition output_states :: "db \<Rightarrow> output_state_record list" where
  "output_states d = map snd (sort_key fst (db_output_state d))"

definition write_output_state :: "db \<Rightarrow> output_state_record \<Rightarrow> db" where
  "write_output_state d r = d\<lparr>db_output_state := dict_put (db_output_state d) (os_instance r) r\<rparr>"

definition pending_push_of :: "db \<Rightarrow> name \<Rightarrow> pending_push option" where
  "pending_push_of d i = dict_get (db_pending d) i"

definition write_pending_push :: "db \<Rightarrow> pending_push \<Rightarrow> db" where
  "write_pending_push d p = d\<lparr>db_pending := dict_put (db_pending d) (pp_instance p) p\<rparr>"

definition delete_pending_push :: "db \<Rightarrow> name \<Rightarrow> db" where
  "delete_pending_push d i = d\<lparr>db_pending := dict_del (db_pending d) i\<rparr>"

text \<open>\<open>ORDER BY next_attempt_at, instance_name\<close>: a stable sort by name, then by time.\<close>

definition pending_pushes :: "db \<Rightarrow> pending_push list" where
  "pending_pushes d = sort_key pp_next_attempt_at (map snd (sort_key fst (db_pending d)))"

definition pending_pushes_due :: "db \<Rightarrow> time \<Rightarrow> pending_push list" where
  "pending_pushes_due d moment = filter (\<lambda>p. pp_next_attempt_at p \<le> moment) (pending_pushes d)"

definition earliest_pending_attempt :: "db \<Rightarrow> time option" where
  "earliest_pending_attempt d =
     (case db_pending d of [] \<Rightarrow> None
      | _ \<Rightarrow> Some (Min (set (map (pp_next_attempt_at \<circ> snd) (db_pending d)))))"

section \<open>Daemon state, health, event log\<close>

definition last_seen_key :: string where
  "last_seen_key = ''last_seen_at''"

definition last_seen_at :: "db \<Rightarrow> time option" where
  "last_seen_at d = dict_get (db_daemon_state d) last_seen_key"

definition write_last_seen_at :: "db \<Rightarrow> time \<Rightarrow> db" where
  "write_last_seen_at d t = d\<lparr>db_daemon_state := dict_put (db_daemon_state d) last_seen_key t\<rparr>"

definition write_health :: "db \<Rightarrow> health_record \<Rightarrow> db" where
  "write_health d h = d\<lparr>db_health := dict_put (db_health d) (hr_instance h) h\<rparr>"

definition health_records :: "db \<Rightarrow> health_record list" where
  "health_records d = map snd (sort_key fst (db_health d))"

text \<open>
  The insert takes the next id; the delete then drops every row whose id is at most the
  largest id minus the cap. Just after the insert the largest id is the new one.
\<close>

definition append_event ::
  "db \<Rightarrow> time \<Rightarrow> event_kind \<Rightarrow> name option \<Rightarrow> name option \<Rightarrow> string \<Rightarrow> int \<Rightarrow> db" where
  "append_event d moment kind instance_name rule_name detail max_rows =
     (let i = db_event_seq d + 1;
          row = \<lparr>el_id = i, el_at = moment, el_kind = kind, el_instance = instance_name,
                 el_rule = rule_name, el_detail = detail\<rparr> in
      d\<lparr>db_event_seq := i,
        db_event_log := filter (\<lambda>e. \<not> el_id e \<le> i - max_rows) (db_event_log d @ [row])\<rparr>)"

definition recent_events :: "db \<Rightarrow> nat \<Rightarrow> event_log_entry list" where
  "recent_events d limit = take limit (rev (db_event_log d))"

definition event_count :: "db \<Rightarrow> nat" where
  "event_count d = length (db_event_log d)"

section \<open>Plugin scratch storage\<close>

definition kv_get :: "db \<Rightarrow> name \<Rightarrow> string \<Rightarrow> string option" where
  "kv_get d i key = dict_get (db_plugin_kv d) (i, key)"

definition kv_set :: "db \<Rightarrow> name \<Rightarrow> string \<Rightarrow> string \<Rightarrow> db" where
  "kv_set d i key v = d\<lparr>db_plugin_kv := dict_put (db_plugin_kv d) (i, key) v\<rparr>"

definition kv_delete :: "db \<Rightarrow> name \<Rightarrow> string \<Rightarrow> db" where
  "kv_delete d i key = d\<lparr>db_plugin_kv := dict_del (db_plugin_kv d) (i, key)\<rparr>"

definition kv_items :: "db \<Rightarrow> name \<Rightarrow> (string, string) dict" where
  "kv_items d i = sort_key fst (map (\<lambda>((_, key), v). (key, v))
     (filter (\<lambda>((j, _), _). j = i) (db_plugin_kv d)))"

section \<open>What the tables promise each other\<close>

text \<open>
  Keys are unique, a row sits under the key it carries, and the rule names of latches and
  members are rules: the primary and foreign keys of the schema. The event log is strictly
  increasing in its ids and its counter is an upper bound of them.
\<close>

definition log_ok :: "db \<Rightarrow> bool" where
  "log_ok d \<longleftrightarrow> sorted_wrt (<) (map el_id (db_event_log d)) \<and>
     (\<forall>e \<in> set (db_event_log d). el_id e \<le> db_event_seq d)"

definition db_ok :: "db \<Rightarrow> bool" where
  "db_ok d \<longleftrightarrow> dict_ok (db_rules d) \<and> dict_ok (db_latches d) \<and> dict_ok (db_pending d) \<and>
     dict_ok (db_output_state d) \<and> dict_ok (db_instances d) \<and>
     (\<forall>r l. latch d r = Some l \<longrightarrow> lr_rule l = r \<and> dict_get (db_rules d) r \<noteq> None) \<and>
     (\<forall>p \<in> set (db_rule_inputs d) \<union> set (db_rule_outputs d). dict_get (db_rules d) (fst p) \<noteq> None) \<and>
     distinct (db_rule_inputs d) \<and> distinct (db_rule_outputs d) \<and>
     (\<forall>i p. pending_push_of d i = Some p \<longrightarrow> pp_instance p = i) \<and>
     (\<forall>i r. output_state d i = Some r \<longrightarrow> os_instance r = i) \<and> log_ok d"

lemma db_ok_empty: "db_ok empty_db"
  by (simp add: db_ok_def empty_db_def latch_def pending_push_of_def output_state_def log_ok_def)

lemmas storage_reads = latch_def pending_push_of_def output_state_def

lemma latch_cong: "db_latches d = db_latches d' \<Longrightarrow> latch d = latch d'"
  by (rule ext) (simp add: latch_def)

lemma write_latch_Inr:
  "write_latch d l = Inr d' \<longleftrightarrow>
     (latch d (lr_rule l) \<noteq> None \<or> dict_get (db_rules d) (lr_rule l) \<noteq> None) \<and>
     d' = d\<lparr>db_latches := dict_put (db_latches d) (lr_rule l) l\<rparr>"
  by (auto simp: write_latch_def)

lemma latch_update [simp]:
  "latch (d\<lparr>db_latches := dict_put (db_latches d) k l\<rparr>) r = (if r = k then Some l else latch d r)"
  by (simp add: latch_def)

lemma db_ok_write_latch: "db_ok d \<Longrightarrow> write_latch d l = Inr d' \<Longrightarrow> db_ok d'"
  by (auto simp: db_ok_def write_latch_Inr storage_reads log_ok_def split: if_splits)

lemma db_ok_write_output_state [simp]: "db_ok d \<Longrightarrow> db_ok (write_output_state d r)"
  by (auto simp: db_ok_def write_output_state_def storage_reads log_ok_def)

lemma db_ok_write_pending_push [simp]: "db_ok d \<Longrightarrow> db_ok (write_pending_push d p)"
  by (auto simp: db_ok_def write_pending_push_def storage_reads log_ok_def)

lemma db_ok_delete_pending_push [simp]: "db_ok d \<Longrightarrow> db_ok (delete_pending_push d i)"
  by (auto simp: db_ok_def delete_pending_push_def storage_reads log_ok_def)

lemma db_ok_write_last_seen_at [simp]: "db_ok d \<Longrightarrow> db_ok (write_last_seen_at d t)"
  by (auto simp: db_ok_def write_last_seen_at_def storage_reads log_ok_def)

lemma db_ok_write_health [simp]: "db_ok d \<Longrightarrow> db_ok (write_health d h)"
  by (auto simp: db_ok_def write_health_def storage_reads log_ok_def)

lemma db_ok_kv_set [simp]: "db_ok d \<Longrightarrow> db_ok (kv_set d i key v)"
  by (auto simp: db_ok_def kv_set_def storage_reads log_ok_def)

lemma log_ok_append [simp]: "log_ok d \<Longrightarrow> log_ok (append_event d t k i r s n)"
  by (force simp: log_ok_def append_event_def Let_def sorted_wrt_append
      intro!: sorted_wrt_filter simp flip: filter_append simp: sorted_wrt_map)

lemma db_ok_append_event [simp]: "db_ok d \<Longrightarrow> db_ok (append_event d t k i r s n)"
  using log_ok_append [of d t k i r s n]
  by (auto simp: db_ok_def append_event_def storage_reads Let_def)

text \<open>The due pushes are exactly the stored rows whose moment has come, each once.\<close>

lemma pending_rows:
  assumes "db_ok d"
  shows "p \<in> snd ` set (db_pending d) \<longleftrightarrow> pending_push_of d (pp_instance p) = Some p"
proof -
  have ok: "dict_ok (db_pending d)" and key: "\<And>i p. pending_push_of d i = Some p \<Longrightarrow> pp_instance p = i"
    using assms by (auto simp: db_ok_def)
  have "p \<in> snd ` set (db_pending d) \<longleftrightarrow> (\<exists>i. pending_push_of d i = Some p)"
    by (force simp: pending_push_of_def simp flip: dict_get_mem [OF ok])
  then show ?thesis using key by auto
qed

lemma pending_pushes_due_set:
  assumes "db_ok d"
  shows "p \<in> set (pending_pushes_due d moment) \<longleftrightarrow>
    pending_push_of d (pp_instance p) = Some p \<and> pp_next_attempt_at p \<le> moment"
  by (auto simp: pending_pushes_due_def pending_pushes_def simp flip: pending_rows [OF assms])

lemma pending_pushes_due_distinct:
  assumes "db_ok d"
  shows "distinct (map pp_instance (pending_pushes_due d moment))"
proof -
  have ok: "dict_ok (db_pending d)" and key: "\<And>i p. pending_push_of d i = Some p \<Longrightarrow> pp_instance p = i"
    using assms by (simp_all add: db_ok_def)
  have "pp_instance (snd q) = fst q" if "q \<in> set (db_pending d)" for q
    using that key [of "fst q" "snd q"] dict_get_mem [OF ok, of "fst q" "snd q"]
    by (simp add: pending_push_of_def)
  then have "map (pp_instance \<circ> snd) (db_pending d) = dict_keys (db_pending d)" by simp
  then have "distinct (map pp_instance (map snd (db_pending d)))"
    using ok by (simp only: map_map)
  then have "distinct (map pp_instance (map snd (sort_key fst (db_pending d))))"
    by (simp only: map_map distinct_map_sort_key)
  then show ?thesis
    unfolding pending_pushes_due_def pending_pushes_def
    by (intro distinct_map_filter) (simp only: distinct_map_sort_key)
qed

end
