(* ===== verification/Messages.thy ===== *)
theory Messages
  imports Config_Data Plugin_Api Storage
begin

text \<open>
  \<open>messages.py\<close>, and what the engine knows of its surroundings: the live plugin instances
  by name, and one reading of the outside world (the wall clock and the answers of the
  plugins) that a handler runs under. Plugins are reached through their interface only,
  so their answers are arguments of the model.
\<close>

record plugin_set =
  ps_inputs :: "name list"
  ps_outputs :: "name list"

definition empty_plugin_set :: plugin_set where
  "empty_plugin_set = \<lparr>ps_inputs = [], ps_outputs = []\<rparr>"

text \<open>
  A reload message carries an identity for its \<open>acknowledged\<close> event, which the engine sets.
\<close>

datatype core_message =
    InputEventMessage name observed_event
  | UnlatchRequestMessage name string
  | PushResultMessage name bool bool "string option"
  | ReconcileOutputMessage name nat
  | CatchUpMessage name nat "time option"
  | ReloadMessage configuration "plugin_set option" nat
  | PollHealthMessage
  | ShutdownMessage

record env =
  env_now :: time
  env_catch_up :: "name \<Rightarrow> time option \<Rightarrow> observed_event list plugin_answer"
  env_query :: "name \<Rightarrow> remote_state plugin_answer"
  env_input_health :: "name \<Rightarrow> plugin_health plugin_answer"
  env_output_health :: "name \<Rightarrow> plugin_health plugin_answer"

end
