(* ===== verification/Rules.thy ===== *)
theory Rules
  imports Config_Data
begin

text \<open>
  \<open>rules.py\<close>: the index over the configured rules and the latch semantics that follow
  from it, with the contract the engine uses it under as the locale \<open>routing\<close>.
\<close>

section \<open>The graph\<close>

record rule =
  rule_name :: name
  rule_inputs :: "name list"
  rule_outputs :: "name list"

record rule_graph =
  g_rules :: "(name, rule) dict"
  g_by_input :: "(name, rule list) dict"
  g_by_output :: "(name, rule list) dict"

definition empty_graph :: rule_graph where
  "empty_graph = \<lparr>g_rules = [], g_by_input = [], g_by_output = []\<rparr>"

definition add_rule :: "rule \<Rightarrow> rule_graph \<Rightarrow> rule_graph" where
  "add_rule r g =
     \<lparr>g_rules = dict_put (g_rules g) (rule_name r) r,
      g_by_input = fold (\<lambda>i d. dict_append d i r) (rule_inputs r) (g_by_input g),
      g_by_output = fold (\<lambda>i d. dict_append d i r) (rule_outputs r) (g_by_output g)\<rparr>"

definition rule_graph :: "rule list \<Rightarrow> rule_graph" where
  "rule_graph rs = fold add_rule rs empty_graph"

definition graph_rule :: "rule_graph \<Rightarrow> name \<Rightarrow> rule option" where
  "graph_rule g n = dict_get (g_rules g) n"

definition rule_names :: "rule_graph \<Rightarrow> name list" where
  "rule_names g = sort (dict_keys (g_rules g))"

definition graph_rules :: "rule_graph \<Rightarrow> rule list" where
  "graph_rules g = map (\<lambda>n. the (dict_get (g_rules g) n)) (rule_names g)"

definition rules_for_input :: "rule_graph \<Rightarrow> name \<Rightarrow> rule list" where
  "rules_for_input g i = (case dict_get (g_by_input g) i of None \<Rightarrow> [] | Some rs \<Rightarrow> rs)"

definition rules_for_output :: "rule_graph \<Rightarrow> name \<Rightarrow> rule list" where
  "rules_for_output g i = (case dict_get (g_by_output g) i of None \<Rightarrow> [] | Some rs \<Rightarrow> rs)"

definition input_names :: "rule_graph \<Rightarrow> name list" where
  "input_names g = sort (dict_keys (g_by_input g))"

definition output_names :: "rule_graph \<Rightarrow> name list" where
  "output_names g = sort (dict_keys (g_by_output g))"

definition instance_names :: "rule_graph \<Rightarrow> name list" where
  "instance_names g = sorted_set (dict_keys (g_by_input g) @ dict_keys (g_by_output g))"

definition desired_output_state :: "rule_graph \<Rightarrow> name \<Rightarrow> (name, bool) dict \<Rightarrow> bool" where
  "desired_output_state g i latch_states =
     list_ex (\<lambda>r. case dict_get latch_states (rule_name r) of None \<Rightarrow> False | Some b \<Rightarrow> b)
       (rules_for_output g i)"

definition outputs_affected_by :: "rule_graph \<Rightarrow> name list \<Rightarrow> name list" where
  "outputs_affected_by g names =
     sorted_set (concat (map (\<lambda>n. case graph_rule g n of None \<Rightarrow> [] | Some r \<Rightarrow> rule_outputs r) names))"

text \<open>
  \<open>from_configuration\<close>: the enabled rules in name order, each with its disabled
  instances dropped.
\<close>

definition rules_of_configuration :: "configuration \<Rightarrow> rule list" where
  "rules_of_configuration c =
     (let enabled = map ic_name (enabled_instances c) in
      map (\<lambda>rc. \<lparr>rule_name = rc_name rc,
                 rule_inputs = filter (\<lambda>n. n \<in> set enabled) (rc_inputs rc),
                 rule_outputs = filter (\<lambda>n. n \<in> set enabled) (rc_outputs rc)\<rparr>)
        (enabled_rules c))"

definition graph_from_configuration :: "configuration \<Rightarrow> rule_graph" where
  "graph_from_configuration c = rule_graph (rules_of_configuration c)"

section \<open>The contract of a rule index\<close>

text \<open>
  What the engine relies on: the rules an instance feeds and the rules that list it as an
  output, which outputs a set of rules can move, and that an output is the OR of the
  latches of the rules listing it.
\<close>

locale routing =
  fixes members :: "'g \<Rightarrow> rule set"
    and for_input :: "'g \<Rightarrow> name \<Rightarrow> rule list"
    and for_output :: "'g \<Rightarrow> name \<Rightarrow> rule list"
    and affected :: "'g \<Rightarrow> name list \<Rightarrow> name list"
    and desired :: "'g \<Rightarrow> name \<Rightarrow> (name, bool) dict \<Rightarrow> bool"
    and wf :: "'g \<Rightarrow> bool"
  assumes for_input_law: "wf g \<Longrightarrow> r \<in> set (for_input g i) \<longleftrightarrow> r \<in> members g \<and> i \<in> set (rule_inputs r)"
    and for_output_law: "wf g \<Longrightarrow> r \<in> set (for_output g i) \<longleftrightarrow> r \<in> members g \<and> i \<in> set (rule_outputs r)"
    and affected_law: "wf g \<Longrightarrow>
      i \<in> set (affected g ns) \<longleftrightarrow> (\<exists>r \<in> members g. rule_name r \<in> set ns \<and> i \<in> set (rule_outputs r))"
    and desired_law: "wf g \<Longrightarrow>
      desired g i L \<longleftrightarrow> (\<exists>r \<in> members g. i \<in> set (rule_outputs r) \<and> dict_get L (rule_name r) = Some True)"
begin

lemma desired_depends_on_latched:
  assumes "wf g" "\<And>n. dict_get L n = Some True \<longleftrightarrow> dict_get M n = Some True"
  shows "desired g i L = desired g i M"
  using assms by (simp add: desired_law)

lemma desired_frame:
  assumes "wf g" "i \<notin> set (affected g ns)"
    and "\<And>n. n \<notin> set ns \<Longrightarrow> dict_get L n = Some True \<longleftrightarrow> dict_get M n = Some True"
  shows "desired g i L = desired g i M"
  using assms by (auto simp: desired_law affected_law)

lemma desired_latched:
  "wf g \<Longrightarrow> r \<in> set (for_output g i) \<Longrightarrow> dict_get L (rule_name r) = Some True \<Longrightarrow> desired g i L"
  by (auto simp: desired_law for_output_law)

lemma desired_quiet:
  "wf g \<Longrightarrow> \<forall>r \<in> set (for_output g i). dict_get L (rule_name r) \<noteq> Some True \<Longrightarrow> \<not> desired g i L"
  by (auto simp: desired_law for_output_law)

lemma affected_mono: "wf g \<Longrightarrow> set ns \<subseteq> set ms \<Longrightarrow> set (affected g ns) \<subseteq> set (affected g ms)"
  using affected_law by blast

lemma affected_of_output:
  "wf g \<Longrightarrow> r \<in> set (for_output g i) \<Longrightarrow> i \<in> set (affected g (map rule_name (for_output g i)))"
  using for_output_law [of g r i] affected_law [of g i "map rule_name (for_output g i)"] by auto

end

section \<open>The graph keeps the contract\<close>

definition graph_ok :: "rule_graph \<Rightarrow> bool" where
  "graph_ok g \<longleftrightarrow> (\<exists>rs. distinct (map rule_name rs) \<and>
     (\<forall>r \<in> set rs. distinct (rule_inputs r) \<and> distinct (rule_outputs r)) \<and> g = rule_graph rs)"

definition graph_members :: "rule_graph \<Rightarrow> rule set" where
  "graph_members g = set (map snd (g_rules g))"

lemma fold_append_get:
  "dict_get (fold (\<lambda>i d. dict_append d i r) is d) k =
     (if k \<in> set is then Some ((case dict_get d k of None \<Rightarrow> [] | Some xs \<Rightarrow> xs) @ replicate (count_list is k) r)
      else dict_get d k)"
  by (induction "is" arbitrary: d) (auto split: option.split)

lemma distinct_count_list_one: "distinct xs \<Longrightarrow> k \<in> set xs \<Longrightarrow> replicate (count_list xs k) r = [r]"
  by (induction xs) (auto simp: count_list_0_iff)

lemma set_fold_append:
  "set (case dict_get (fold (\<lambda>i d. dict_append d i r) is d) k of None \<Rightarrow> [] | Some xs \<Rightarrow> xs) =
     set (case dict_get d k of None \<Rightarrow> [] | Some xs \<Rightarrow> xs) \<union> (if k \<in> set is then {r} else {})"
  by (auto simp: fold_append_get count_list_0_iff split: option.splits)

lemma rule_graph_snoc: "rule_graph (rs @ [r]) = add_rule r (rule_graph rs)"
  by (simp add: rule_graph_def)

lemma set_rules_for_input: "set (rules_for_input (rule_graph rs) i) = {r \<in> set rs. i \<in> set (rule_inputs r)}"
proof (induction rs rule: rev_induct)
  case Nil
  then show ?case by (simp add: rule_graph_def empty_graph_def rules_for_input_def)
next
  case (snoc r rs)
  then show ?case
    by (auto simp: rule_graph_snoc rules_for_input_def add_rule_def set_fold_append split: if_splits)
qed

lemma set_rules_for_output: "set (rules_for_output (rule_graph rs) i) = {r \<in> set rs. i \<in> set (rule_outputs r)}"
proof (induction rs rule: rev_induct)
  case Nil
  then show ?case by (simp add: rule_graph_def empty_graph_def rules_for_output_def)
next
  case (snoc r rs)
  then show ?case
    by (auto simp: rule_graph_snoc rules_for_output_def add_rule_def set_fold_append split: if_splits)
qed

lemma g_rules_graph:
  "distinct (map rule_name rs) \<Longrightarrow> g_rules (rule_graph rs) = map (\<lambda>r. (rule_name r, r)) rs"
proof (induction rs rule: rev_induct)
  case Nil
  then show ?case by (simp add: rule_graph_def empty_graph_def)
next
  case (snoc r rs)
  have "rule_name r \<notin> fst ` set (map (\<lambda>r. (rule_name r, r)) rs)" using snoc.prems by auto
  then have "dict_put (map (\<lambda>r. (rule_name r, r)) rs) (rule_name r) r
      = map (\<lambda>r. (rule_name r, r)) rs @ [(rule_name r, r)]"
    by (induction rs) auto
  with snoc show ?case by (simp add: rule_graph_snoc add_rule_def)
qed

lemma graph_members_graph: "distinct (map rule_name rs) \<Longrightarrow> graph_members (rule_graph rs) = set rs"
  by (simp add: graph_members_def g_rules_graph comp_def)

lemma graph_rule_graph:
  assumes "distinct (map rule_name rs)"
  shows "graph_rule (rule_graph rs) n = Some r \<longleftrightarrow> r \<in> set rs \<and> rule_name r = n"
proof -
  have "distinct (map fst (map (\<lambda>r. (rule_name r, r)) rs))" using assms by (simp add: comp_def)
  then show ?thesis by (auto simp: graph_rule_def g_rules_graph [OF assms] map_of_eq_Some_iff)
qed

lemma keys_fold_append:
  "set (dict_keys (fold (\<lambda>i d. dict_append d i r) is d)) = set is \<union> set (dict_keys d)"
  by (induction "is" arbitrary: d) (auto simp: dict_append_def dict_keys_put simp del: set_map)

lemma set_output_names: "set (output_names (rule_graph rs)) = (\<Union>r \<in> set rs. set (rule_outputs r))"
proof (induction rs rule: rev_induct)
  case Nil
  then show ?case by (simp add: rule_graph_def empty_graph_def output_names_def)
next
  case (snoc r rs)
  then show ?case
    by (auto simp: rule_graph_snoc output_names_def add_rule_def keys_fold_append simp del: set_map)
qed

lemma set_input_names: "set (input_names (rule_graph rs)) = (\<Union>r \<in> set rs. set (rule_inputs r))"
proof (induction rs rule: rev_induct)
  case Nil
  then show ?case by (simp add: rule_graph_def empty_graph_def input_names_def)
next
  case (snoc r rs)
  then show ?case
    by (auto simp: rule_graph_snoc input_names_def add_rule_def keys_fold_append simp del: set_map)
qed

interpretation graph: routing graph_members rules_for_input rules_for_output outputs_affected_by
  desired_output_state graph_ok
proof unfold_locales
  fix g r i and ns :: "name list" and L
  assume "graph_ok g"
  then obtain rs where d: "distinct (map rule_name rs)" and g: "g = rule_graph rs"
    by (auto simp: graph_ok_def)
  note m = graph_members_graph [OF d]
  show "r \<in> set (rules_for_input g i) \<longleftrightarrow> r \<in> graph_members g \<and> i \<in> set (rule_inputs r)"
    by (simp add: g m set_rules_for_input)
  show "r \<in> set (rules_for_output g i) \<longleftrightarrow> r \<in> graph_members g \<and> i \<in> set (rule_outputs r)"
    by (simp add: g m set_rules_for_output)
  have mem: "i \<in> set (case graph_rule g n of None \<Rightarrow> [] | Some r \<Rightarrow> rule_outputs r) \<longleftrightarrow>
      (\<exists>r \<in> graph_members g. rule_name r = n \<and> i \<in> set (rule_outputs r))" for n
  proof (cases "graph_rule g n")
    case None
    then have "\<not> (\<exists>r \<in> set rs. rule_name r = n)" using graph_rule_graph [OF d, of n] by (auto simp: g)
    with None show ?thesis by (auto simp: g m)
  next
    case (Some q)
    then have "\<And>r. r \<in> set rs \<and> rule_name r = n \<longleftrightarrow> r = q" using graph_rule_graph [OF d, of n] g by (metis option.inject)
    then have "q \<in> set rs \<and> rule_name q = n" and "\<And>r. r \<in> set rs \<Longrightarrow> rule_name r = n \<Longrightarrow> r = q"
      by blast+
    with Some show ?thesis by (auto simp: g m)
  qed
  show "i \<in> set (outputs_affected_by g ns) \<longleftrightarrow>
      (\<exists>r \<in> graph_members g. rule_name r \<in> set ns \<and> i \<in> set (rule_outputs r))"
  proof -
    have "i \<in> set (outputs_affected_by g ns) \<longleftrightarrow>
        (\<exists>n \<in> set ns. i \<in> set (case graph_rule g n of None \<Rightarrow> [] | Some r \<Rightarrow> rule_outputs r))"
      unfolding outputs_affected_by_def set_sorted_set set_concat set_map by blast
    then show ?thesis unfolding mem by blast
  qed
  show "desired_output_state g i L \<longleftrightarrow>
      (\<exists>r \<in> graph_members g. i \<in> set (rule_outputs r) \<and> dict_get L (rule_name r) = Some True)"
    by (auto simp: desired_output_state_def list_ex_iff g m set_rules_for_output split: option.splits)
qed

lemma graph_ok_configuration:
  assumes "config_keyed c"
  shows "graph_ok (graph_from_configuration c)"
proof -
  have "distinct (rule_inputs r) \<and> distinct (rule_outputs r)" if "r \<in> set (rules_of_configuration c)" for r
    using that assms by (auto simp: rules_of_configuration_def set_enabled_rules config_keyed_def)
  then show ?thesis
    unfolding graph_ok_def graph_from_configuration_def
    using distinct_enabled_rules [OF assms]
    by (intro exI [of _ "rules_of_configuration c"]) (simp add: rules_of_configuration_def comp_def)
qed

lemma rules_for_input_graph:
  "\<forall>r \<in> set rs. distinct (rule_inputs r) \<Longrightarrow>
   rules_for_input (rule_graph rs) i = filter (\<lambda>r. i \<in> set (rule_inputs r)) rs"
proof (induction rs rule: rev_induct)
  case Nil
  then show ?case by (simp add: rule_graph_def empty_graph_def rules_for_input_def)
next
  case (snoc r rs)
  then show ?case
    by (auto simp: rule_graph_snoc rules_for_input_def add_rule_def fold_append_get
        distinct_count_list_one split: option.splits)
qed

lemma rules_for_output_graph:
  "\<forall>r \<in> set rs. distinct (rule_outputs r) \<Longrightarrow>
   rules_for_output (rule_graph rs) i = filter (\<lambda>r. i \<in> set (rule_outputs r)) rs"
proof (induction rs rule: rev_induct)
  case Nil
  then show ?case by (simp add: rule_graph_def empty_graph_def rules_for_output_def)
next
  case (snoc r rs)
  then show ?case
    by (auto simp: rule_graph_snoc rules_for_output_def add_rule_def fold_append_get
        distinct_count_list_one split: option.splits)
qed

lemma distinct_rules_for:
  assumes "graph_ok g"
  shows "distinct (map rule_name (rules_for_input g i))" "distinct (map rule_name (rules_for_output g i))"
  using assms by (auto simp: graph_ok_def rules_for_input_graph rules_for_output_graph distinct_map_filter)

lemma graph_rules_members:
  assumes "graph_ok g"
  shows "set (rule_names g) = rule_name ` graph_members g" "distinct (rule_names g)"
    "n \<in> set (rule_names g) \<Longrightarrow> the (dict_get (g_rules g) n) \<in> graph_members g \<and>
       rule_name (the (dict_get (g_rules g) n)) = n"
proof -
  from assms obtain rs where d: "distinct (map rule_name rs)" and g: "g = rule_graph rs"
    by (auto simp: graph_ok_def)
  show s: "set (rule_names g) = rule_name ` graph_members g"
    by (auto simp: rule_names_def g g_rules_graph [OF d] graph_members_graph [OF d])
  show "distinct (rule_names g)"
    using d by (simp add: rule_names_def g g_rules_graph [OF d] comp_def)
  assume "n \<in> set (rule_names g)"
  then have "n \<in> rule_name ` set rs" unfolding s unfolding g graph_members_graph [OF d] .
  then obtain r where r: "r \<in> set rs" "rule_name r = n" by auto
  then have "dict_get (g_rules g) n = Some r"
    using graph_rule_graph [OF d, of n r] by (simp add: graph_rule_def g)
  with r show "the (dict_get (g_rules g) n) \<in> graph_members g \<and> rule_name (the (dict_get (g_rules g) n)) = n"
    by (simp add: g graph_members_graph [OF d])
qed

lemma output_names_members: "graph_ok g \<Longrightarrow> set (output_names g) = (\<Union>r \<in> graph_members g. set (rule_outputs r))"
  by (auto simp: graph_ok_def set_output_names graph_members_graph)

lemma graph_members_names: "graph_ok g \<Longrightarrow> r \<in> graph_members g \<Longrightarrow> r' \<in> graph_members g \<Longrightarrow>
  rule_name r = rule_name r' \<Longrightarrow> r = r'"
  by (auto simp: graph_ok_def graph_members_graph distinct_map inj_on_def)

text \<open>
  The rule semantics on a configuration: an output is on exactly when some enabled
  rule that lists it, with the output itself enabled, is latched. In particular an output
  no enabled rule lists is off whatever the latches are.
\<close>

theorem output_is_or_of_latches:
  assumes "config_keyed c"
  shows "desired_output_state (graph_from_configuration c) i L \<longleftrightarrow>
    (\<exists>rc \<in> snd ` set (c_rules c). rc_enabled rc \<and> i \<in> set (rc_outputs rc) \<and>
       (\<exists>ic \<in> snd ` set (c_instances c). ic_enabled ic \<and> ic_name ic = i) \<and>
       dict_get L (rc_name rc) = Some True)"
proof -
  have d: "distinct (map rule_name (rules_of_configuration c))"
    using distinct_enabled_rules [OF assms] by (simp add: rules_of_configuration_def comp_def)
  have "desired_output_state (graph_from_configuration c) i L \<longleftrightarrow>
      (\<exists>r \<in> set (rules_of_configuration c). i \<in> set (rule_outputs r) \<and> dict_get L (rule_name r) = Some True)"
    using graph.desired_law [OF graph_ok_configuration [OF assms]]
    by (simp add: graph_members_graph [OF d] graph_from_configuration_def)
  then show ?thesis
    by (auto simp: rules_of_configuration_def set_enabled_rules set_enabled_instances)
qed

theorem output_is_or_of_latches_witness:
  "desired_output_state (graph_from_configuration ex_config) ''pager'' [(''outage'', True)] \<and>
   \<not> desired_output_state (graph_from_configuration ex_config) ''lamp'' [(''outage'', True)]"
  unfolding output_is_or_of_latches [OF ex_keyed]
  by (simp add: ex_config_def ex_instance_def ex_rule_def)

end
