(* ===== verification/Reconcile.thy ===== *)
theory Reconcile
  imports Storage
begin

text \<open>
  \<open>reconcile.py\<close>: what a latch should be after downtime, decided from the persisted
  record, the latest event observed while the daemon was down and what the outputs report.
  Everything here is pure.
\<close>

section \<open>The decision\<close>

datatype reconcile_reason =
    ClearedThenLaterEvent
  | ClearedDuringDowntime
  | AlreadySetAndEvent
  | EventDuringDowntime
  | StillActive
  | ActiveButDeliberatelyCleared
  | PersistedStands

definition reason_text :: "reconcile_reason \<Rightarrow> string" where
  "reason_text r = (case r of
     ClearedThenLaterEvent \<Rightarrow> ''cleared remotely during downtime, then a later event arrived''
   | ClearedDuringDowntime \<Rightarrow> ''an output reports it was cleared during downtime''
   | AlreadySetAndEvent \<Rightarrow> ''latch was already set and an event arrived during downtime''
   | EventDuringDowntime \<Rightarrow> ''an event arrived during downtime''
   | StillActive \<Rightarrow> ''an output reports the state is still active''
   | ActiveButDeliberatelyCleared \<Rightarrow> ''an output still shows active, but the latch was deliberately cleared''
   | PersistedStands \<Rightarrow> ''no output could be reached; persisted state stands'')"

record reconcile_outcome =
  ro_state :: bool
  ro_set_at :: "time option"
  ro_cleared_at :: "time option"
  ro_reason :: reconcile_reason

definition changed_from :: "reconcile_outcome \<Rightarrow> latch_record \<Rightarrow> bool" where
  "changed_from o' persisted \<longleftrightarrow> ro_state o' \<noteq> lr_state persisted"

definition latest :: "time option \<Rightarrow> time \<Rightarrow> time" where
  "latest first second =
     (case first of None \<Rightarrow> second | Some f \<Rightarrow> if second > f then second else f)"

fun known_clear_times :: "remote_state list \<Rightarrow> time list" where
  "known_clear_times [] = []"
| "known_clear_times (r # rs) =
     (case rs_cleared_at r of None \<Rightarrow> known_clear_times rs | Some t \<Rightarrow> t # known_clear_times rs)"

definition clear_time :: "remote_state list \<Rightarrow> time option" where
  "clear_time reports =
     (let known = known_clear_times reports in
      if known \<noteq> [] then Some (Max (set known)) else None)"

definition resolve_with_clear ::
  "time \<Rightarrow> latch_record \<Rightarrow> time option \<Rightarrow> remote_state list \<Rightarrow> reconcile_outcome" where
  "resolve_with_clear now persisted latest_event cleared_reports =
     (let ct = clear_time cleared_reports;
          event_is_newer = (case latest_event of None \<Rightarrow> False
             | Some e \<Rightarrow> (case ct of None \<Rightarrow> True | Some t \<Rightarrow> e > t)) in
      if event_is_newer
      then \<lparr>ro_state = True, ro_set_at = latest_event,
            ro_cleared_at = (case ct of None \<Rightarrow> lr_cleared_at persisted | Some t \<Rightarrow> Some t),
            ro_reason = ClearedThenLaterEvent\<rparr>
      else \<lparr>ro_state = False, ro_set_at = lr_set_at persisted,
            ro_cleared_at = (case ct of None \<Rightarrow> Some now | Some t \<Rightarrow> Some t),
            ro_reason = ClearedDuringDowntime\<rparr>)"

definition resolve_rule ::
  "time \<Rightarrow> latch_record \<Rightarrow> time option \<Rightarrow> remote_state list \<Rightarrow> reconcile_outcome" where
  "resolve_rule now persisted latest_event reports =
     (let cleared_reports = filter (\<lambda>r. belief r = Cleared) reports;
          active_reported = list_ex (\<lambda>r. belief r = Active) reports in
      if cleared_reports \<noteq> [] then resolve_with_clear now persisted latest_event cleared_reports
      else case latest_event of
        Some e \<Rightarrow>
          if lr_state persisted
          then \<lparr>ro_state = True, ro_set_at = Some (latest (lr_set_at persisted) e),
                ro_cleared_at = lr_cleared_at persisted, ro_reason = AlreadySetAndEvent\<rparr>
          else \<lparr>ro_state = True, ro_set_at = Some e,
                ro_cleared_at = lr_cleared_at persisted, ro_reason = EventDuringDowntime\<rparr>
      | None \<Rightarrow>
          if active_reported \<and> lr_state persisted
          then \<lparr>ro_state = True, ro_set_at = lr_set_at persisted,
                ro_cleared_at = lr_cleared_at persisted, ro_reason = StillActive\<rparr>
          else if active_reported \<and> \<not> lr_state persisted
          then \<lparr>ro_state = False, ro_set_at = lr_set_at persisted,
                ro_cleared_at = lr_cleared_at persisted, ro_reason = ActiveButDeliberatelyCleared\<rparr>
          else \<lparr>ro_state = lr_state persisted, ro_set_at = lr_set_at persisted,
                ro_cleared_at = lr_cleared_at persisted, ro_reason = PersistedStands\<rparr>)"

section \<open>Lemmas\<close>

lemma set_known_clear_times: "set (known_clear_times rs) = {t. \<exists>r \<in> set rs. rs_cleared_at r = Some t}"
  by (induction rs) (auto split: option.splits)

lemma clear_time_None: "clear_time rs = None \<longleftrightarrow> (\<forall>r \<in> set rs. rs_cleared_at r = None)"
proof -
  have "clear_time rs = None \<longleftrightarrow> set (known_clear_times rs) = {}"
    by (simp add: clear_time_def Let_def)
  then show ?thesis by (auto simp: set_known_clear_times) (metis not_Some_eq)
qed

lemma clear_time_Some:
  assumes "clear_time rs = Some t"
  shows "(\<exists>r \<in> set rs. rs_cleared_at r = Some t) \<and> (\<forall>r \<in> set rs. \<forall>u. rs_cleared_at r = Some u \<longrightarrow> u \<le> t)"
proof -
  from assms have t: "t = Max (set (known_clear_times rs))" and ne: "set (known_clear_times rs) \<noteq> {}"
    by (auto simp: clear_time_def Let_def split: if_splits)
  have "t \<in> set (known_clear_times rs)" unfolding t by (rule Max_in) (use ne in simp_all)
  moreover have "u \<le> t" if "u \<in> set (known_clear_times rs)" for u
    unfolding t by (rule Max_ge) (use that in simp_all)
  ultimately show ?thesis by (auto simp: set_known_clear_times)
qed

lemma clear_time_set: "set rs = set qs \<Longrightarrow> clear_time rs = clear_time qs"
proof -
  assume "set rs = set qs"
  then have "set (known_clear_times rs) = set (known_clear_times qs)" by (simp add: set_known_clear_times)
  then show ?thesis unfolding clear_time_def Let_def set_empty [symmetric] by simp
qed

text \<open>The clear times the reports of a resolution know about.\<close>

definition clear_times :: "remote_state list \<Rightarrow> time set" where
  "clear_times reports = {t. \<exists>r \<in> set reports. belief r = Cleared \<and> rs_cleared_at r = Some t}"

lemma newer_than_clear:
  "(case clear_time (filter (\<lambda>r. belief r = Cleared) reports) of None \<Rightarrow> True | Some t \<Rightarrow> e > t)
     \<longleftrightarrow> (\<forall>t \<in> clear_times reports. e > t)"
proof (cases "clear_time (filter (\<lambda>r. belief r = Cleared) reports)")
  case None
  then have "clear_times reports = {}" by (auto simp: clear_time_None clear_times_def)
  with None show ?thesis by simp
next
  case (Some t)
  from clear_time_Some [OF Some] have "t \<in> clear_times reports" and "\<forall>u \<in> clear_times reports. u \<le> t"
    by (auto simp: clear_times_def)
  with Some show ?thesis by force
qed

lemma resolve_state:
  "ro_state (resolve_rule now p le reports) \<longleftrightarrow>
     (if \<exists>r \<in> set reports. belief r = Cleared
      then (\<exists>e. le = Some e \<and> (\<forall>t \<in> clear_times reports. e > t))
      else le \<noteq> None \<or> lr_state p)"
proof (cases "\<exists>r \<in> set reports. belief r = Cleared")
  case True
  then have "filter (\<lambda>r. belief r = Cleared) reports \<noteq> []" by (auto simp: filter_empty_conv)
  with True show ?thesis
    by (auto simp: resolve_rule_def resolve_with_clear_def Let_def newer_than_clear split: option.splits)
next
  case False
  then have "filter (\<lambda>r. belief r = Cleared) reports = []" by (auto simp: filter_empty_conv)
  with False show ?thesis
    by (auto simp: resolve_rule_def Let_def split: option.splits)
qed

section \<open>Properties\<close>



text \<open>
  No event is dropped: an event observed during downtime and later than every clear
  the outputs know the time of leaves the latch set, no earlier than the event.
\<close>

theorem downtime_event_survives:
  assumes "\<forall>t \<in> clear_times reports. t < e"
  shows "ro_state (resolve_rule now persisted (Some e) reports) \<and>
    (\<exists>t. ro_set_at (resolve_rule now persisted (Some e) reports) = Some t \<and> e \<le> t)"
proof -
  have "ro_state (resolve_rule now persisted (Some e) reports)"
    using assms by (simp add: resolve_state)
  moreover have "\<exists>t. ro_set_at (resolve_rule now persisted (Some e) reports) = Some t \<and> e \<le> t"
    using assms newer_than_clear [of e reports]
    by (auto simp: resolve_rule_def resolve_with_clear_def Let_def latest_def split: option.splits)
  ultimately show ?thesis ..
qed

theorem downtime_event_survives_witness:
  "ro_state (resolve_rule 100 (fresh_latch ''r'') (Some 50)
     [\<lparr>belief = Cleared, rs_cleared_at = Some 40\<rparr>, \<lparr>belief = Active, rs_cleared_at = None\<rparr>])"
  using downtime_event_survives [of "[\<lparr>belief = Cleared, rs_cleared_at = Some 40\<rparr>,
      \<lparr>belief = Active, rs_cleared_at = None\<rparr>]" 50 100 "fresh_latch ''r''"]
  by (simp add: clear_times_def)

text \<open>
  A cleared latch is never resurrected by an output: without an observed event,
  reconciliation sets no latch that was not set, whatever the outputs report, and a set one
  is cleared only on the report of a clear.
\<close>

theorem no_resurrection:
  "(ro_state (resolve_rule now persisted None reports) \<longrightarrow> lr_state persisted) \<and>
   (lr_state persisted \<and> \<not> ro_state (resolve_rule now persisted None reports) \<longrightarrow>
      list_ex (\<lambda>r. belief r = Cleared) reports)"
  by (auto simp: resolve_state list_ex_iff split: if_splits)

theorem no_resurrection_witness:
  "\<not> ro_state (resolve_rule 9 (fresh_latch ''r'') None [\<lparr>belief = Active, rs_cleared_at = None\<rparr>])"
  using no_resurrection [of 9 "fresh_latch ''r''" "[\<lparr>belief = Active, rs_cleared_at = None\<rparr>]"]
  by (simp add: fresh_latch_def)

text \<open>
  The order in which outputs are asked, and how often one report is repeated, does
  not matter: two report lists with the same members are resolved alike.
\<close>

theorem resolve_rule_order_insensitive:
  assumes "set reports = set reports'"
  shows "resolve_rule now persisted latest_event reports = resolve_rule now persisted latest_event reports'"
proof -
  let ?f = "filter (\<lambda>r. belief r = Cleared)"
  have "set (?f reports) = set (?f reports')" using assms by auto
  then have "clear_time (?f reports) = clear_time (?f reports')" and "?f reports = [] \<longleftrightarrow> ?f reports' = []"
    by (auto intro: clear_time_set simp: filter_empty_conv assms)
  moreover have "list_ex (\<lambda>r. belief r = Active) reports = list_ex (\<lambda>r. belief r = Active) reports'"
    using assms by (simp add: list_ex_iff)
  ultimately show ?thesis by (simp add: resolve_rule_def resolve_with_clear_def Let_def)
qed

theorem resolve_rule_order_insensitive_witness:
  "resolve_rule 9 (fresh_latch ''r'') (Some 5)
     [\<lparr>belief = Active, rs_cleared_at = None\<rparr>, \<lparr>belief = Cleared, rs_cleared_at = Some 7\<rparr>] =
   resolve_rule 9 (fresh_latch ''r'') (Some 5)
     [\<lparr>belief = Cleared, rs_cleared_at = Some 7\<rparr>, \<lparr>belief = Active, rs_cleared_at = None\<rparr>]"
  by (rule resolve_rule_order_insensitive) auto

text \<open>
  A clear is believed however old it is: a latch that was set after the only reported
  clear, with nothing observed since, is cleared all the same, and is then recorded as
  cleared before it was set. The decision never compares a clear with the time the
  latch was set.
\<close>

theorem stale_clear_drops_a_newer_latch:
  assumes "lr_state persisted" "lr_set_at persisted = Some s" "t < s"
  shows "\<not> ro_state (resolve_rule now persisted None [\<lparr>belief = Cleared, rs_cleared_at = Some t\<rparr>]) \<and>
    ro_set_at (resolve_rule now persisted None [\<lparr>belief = Cleared, rs_cleared_at = Some t\<rparr>]) = Some s \<and>
    ro_cleared_at (resolve_rule now persisted None [\<lparr>belief = Cleared, rs_cleared_at = Some t\<rparr>]) = Some t"
  using assms by (simp add: resolve_rule_def resolve_with_clear_def clear_time_def Let_def)

theorem stale_clear_drops_a_newer_latch_witness:
  "\<not> ro_state (resolve_rule 100 ((fresh_latch ''r'')\<lparr>lr_state := True, lr_set_at := Some 60\<rparr>) None
      [\<lparr>belief = Cleared, rs_cleared_at = Some 10\<rparr>])"
  using stale_clear_drops_a_newer_latch
    [of "(fresh_latch ''r'')\<lparr>lr_state := True, lr_set_at := Some 60\<rparr>" 60 10 100] by simp

end
