(* ===== verification/Engine.thy ===== *)
theory Engine
  imports Messages Rules Reconcile
begin

text \<open>
  \<open>engine.py\<close>: the core thread's state and every step it takes. A handler maps the engine
  to the engine it leaves, or to the exception that escapes it together with the database
  as it is then on disk. The clock is read once per step. Log lines are not modelled.
\<close>

section \<open>State\<close>

record engine =
  e_db :: db
  e_graph :: rule_graph
  e_plugins :: plugin_set
  e_settings :: daemon_settings
  e_queue :: "core_message list"
  e_timers :: "(time \<times> core_message) list"
  e_in_flight :: "name set"
  e_latches :: "(name, latch_record) dict"
  e_stopping :: bool
  e_ready :: bool
  e_last_seen_written_at :: "time option"
  e_heartbeat :: "time option"
  e_dispatched :: "(name \<times> output_update) list"
  e_acknowledged :: "nat list"

type_synonym 'a outcome = "(exn \<times> db) + 'a"

definition loop_max_interval_seconds :: seconds where "loop_max_interval_seconds = 5"
definition health_poll_interval_seconds :: seconds where "health_poll_interval_seconds = 30"
definition last_seen_interval_seconds :: seconds where "last_seen_interval_seconds = 60"
definition reconcile_retry_initial_seconds :: seconds where "reconcile_retry_initial_seconds = 30"
definition reconcile_retry_max_seconds :: seconds where "reconcile_retry_max_seconds = 900"
definition max_drain_rounds :: nat where "max_drain_rounds = 100"

definition reload_latches :: "engine \<Rightarrow> engine" where
  "reload_latches s = s\<lparr>e_latches := map (\<lambda>r. (lr_rule r, r)) (latches (e_db s))\<rparr>"

definition schedule :: "time \<Rightarrow> seconds \<Rightarrow> core_message \<Rightarrow> engine \<Rightarrow> engine" where
  "schedule now after m s = s\<lparr>e_timers := e_timers s @ [(now + timedelta_us after, m)]\<rparr>"

definition init_engine ::
  "time \<Rightarrow> db \<Rightarrow> rule_graph \<Rightarrow> plugin_set \<Rightarrow> daemon_settings \<Rightarrow> engine" where
  "init_engine now d g ps st =
     schedule now 0 PollHealthMessage (reload_latches
       \<lparr>e_db = d, e_graph = g, e_plugins = ps, e_settings = st, e_queue = [], e_timers = [],
        e_in_flight = {}, e_latches = [], e_stopping = False, e_ready = False,
        e_last_seen_written_at = None, e_heartbeat = None, e_dispatched = [], e_acknowledged = []\<rparr>)"

definition submit :: "core_message \<Rightarrow> engine \<Rightarrow> engine" where
  "submit m s = s\<lparr>e_queue := e_queue s @ [m]\<rparr>"

text \<open>\<open>EmitFor\<close> and \<open>UnlatchFor\<close>: the callables a plugin instance is constructed with.\<close>

definition emit_for :: "name \<Rightarrow> observed_event \<Rightarrow> engine \<Rightarrow> engine" where
  "emit_for i e = submit (InputEventMessage i e)"

definition unlatch_for :: "name \<Rightarrow> string \<Rightarrow> engine \<Rightarrow> engine" where
  "unlatch_for i cause = submit (UnlatchRequestMessage i cause)"

definition request_stop :: "engine \<Rightarrow> engine" where
  "request_stop = submit ShutdownMessage"

section \<open>Small helpers\<close>

text \<open>
  \<open>_latch\<close> answers the cached record, or a fresh one that it also puts into the cache.
\<close>

definition latch_rec :: "engine \<Rightarrow> name \<Rightarrow> latch_record" where
  "latch_rec s r = (case dict_get (e_latches s) r of Some l \<Rightarrow> l | None \<Rightarrow> fresh_latch r)"

definition ensure_latch :: "name \<Rightarrow> engine \<Rightarrow> engine" where
  "ensure_latch r s =
     (case dict_get (e_latches s) r of Some _ \<Rightarrow> s
      | None \<Rightarrow> s\<lparr>e_latches := dict_put (e_latches s) r (fresh_latch r)\<rparr>)"

definition latch_states :: "engine \<Rightarrow> (name, bool) dict" where
  "latch_states s = map (\<lambda>(n, r). (n, lr_state r)) (e_latches s)"

definition write_latch_e :: "latch_record \<Rightarrow> engine \<Rightarrow> engine outcome" where
  "write_latch_e l s =
     (case write_latch (e_db s) l of
        Inl x \<Rightarrow> Inl (x, e_db s)
      | Inr d \<Rightarrow> Inr (s\<lparr>e_db := d, e_latches := dict_put (e_latches s) (lr_rule l) l\<rparr>))"

definition append_event_e ::
  "time \<Rightarrow> event_kind \<Rightarrow> name option \<Rightarrow> name option \<Rightarrow> string \<Rightarrow> engine \<Rightarrow> engine" where
  "append_event_e moment kind i r detail s =
     s\<lparr>e_db := append_event (e_db s) moment kind i r detail (event_log_max_rows (e_settings s))\<rparr>"

text \<open>
  \<open>with database.transaction()\<close>: an exception in the body rolls the database back to
  where it was and is raised again.
\<close>

definition transaction :: "engine \<Rightarrow> (engine \<Rightarrow> engine outcome) \<Rightarrow> engine outcome" where
  "transaction s body =
     (case body s of Inl (x, _) \<Rightarrow> Inl (x, e_db s) | Inr s' \<Rightarrow> Inr s')"

text \<open>
  The conversion of \<open>2 ** n\<close> to a float, which raises \<open>OverflowError\<close> from \<open>2 ** 1024\<close> on.
\<close>

definition float_pow2 :: "nat \<Rightarrow> rat result" where
  "float_pow2 n = (if n < 1024 then Inr (2 ^ n) else Inl OverflowError)"

section \<open>Output synchronisation\<close>

definition desired_state :: "engine \<Rightarrow> name \<Rightarrow> bool" where
  "desired_state s i = desired_output_state (e_graph s) i (latch_states s)"

definition last_applied :: "db \<Rightarrow> name \<Rightarrow> bool option" where
  "last_applied d i = (case output_state d i of None \<Rightarrow> None | Some r \<Rightarrow> os_last_applied r)"

definition sync_output :: "time \<Rightarrow> bool \<Rightarrow> name \<Rightarrow> engine \<Rightarrow> engine" where
  "sync_output now force i s =
     (let desired = desired_state s i;
          applied = last_applied (e_db s) i;
          existing = pending_push_of (e_db s) i in
      if \<not> force \<and> applied = Some desired
      then (if existing \<noteq> None then s\<lparr>e_db := delete_pending_push (e_db s) i\<rparr> else s)
      else if \<not> force \<and> (case existing of None \<Rightarrow> False | Some p \<Rightarrow> pp_target p = desired)
      then s
      else s\<lparr>e_db := write_pending_push (e_db s)
              \<lparr>pp_instance = i, pp_target = desired, pp_attempts = 0,
               pp_next_attempt_at = now, pp_last_error = None\<rparr>\<rparr>)"

definition sync_outputs :: "time \<Rightarrow> name list \<Rightarrow> engine \<Rightarrow> engine" where
  "sync_outputs now is s = fold (sync_output now False) is s"

definition is_newer :: "time option \<Rightarrow> time option \<Rightarrow> bool" where
  "is_newer candidate current =
     (case candidate of None \<Rightarrow> False
      | Some c \<Rightarrow> (case current of None \<Rightarrow> True | Some u \<Rightarrow> c > u))"

fun newest_of :: "latch_record \<Rightarrow> latch_record list \<Rightarrow> latch_record" where
  "newest_of newest [] = newest"
| "newest_of newest (r # rs) =
     newest_of (if is_newer (lr_set_at r) (lr_set_at newest) then r else newest) rs"

definition build_update :: "name \<Rightarrow> bool \<Rightarrow> engine \<Rightarrow> output_update \<times> engine" where
  "build_update i desired s =
     (if \<not> desired then (update_off False, s)
      else let rs = rules_for_output (e_graph s) i;
               s' = fold (ensure_latch \<circ> rule_name) rs s;
               driving = filter lr_state (map (latch_rec s \<circ> rule_name) rs) in
        case driving of
          [] \<Rightarrow> (update_off desired, s')
        | d # ds \<Rightarrow>
           (let newest = newest_of d (d # ds) in
            (\<lparr>ou_state = True,
              ou_cause = (case lr_last_cause newest of None \<Rightarrow> [] | Some c \<Rightarrow> c),
              ou_detail = (case lr_last_detail newest of None \<Rightarrow> [] | Some c \<Rightarrow> c),
              ou_trigger_count = sum_list (map lr_trigger_count driving),
              ou_rules = sort (map lr_rule driving),
              ou_since = lr_set_at newest\<rparr>, s')))"

definition dispatch_one ::
  "pending_push \<Rightarrow> engine \<times> (name \<times> output_update) list \<Rightarrow> engine \<times> (name \<times> output_update) list" where
  "dispatch_one push = (\<lambda>(s, ready).
     let i = pp_instance push in
     if i \<in> e_in_flight s then (s, ready)
     else if i \<notin> set (ps_outputs (e_plugins s))
     then (s\<lparr>e_db := delete_pending_push (e_db s) i\<rparr>, ready)
     else let desired = desired_state s i;
              s1 = (if desired \<noteq> pp_target push
                    then s\<lparr>e_db := write_pending_push (e_db s) (push\<lparr>pp_target := desired\<rparr>)\<rparr> else s);
              (u, s2) = build_update i desired s1 in
       (s2, ready @ [(i, u)]))"

definition start_push :: "name \<times> output_update \<Rightarrow> engine \<Rightarrow> engine" where
  "start_push = (\<lambda>(i, u) s. s\<lparr>e_in_flight := insert i (e_in_flight s),
                                e_dispatched := e_dispatched s @ [(i, u)]\<rparr>)"

definition dispatch_due_pushes :: "time \<Rightarrow> engine \<Rightarrow> engine" where
  "dispatch_due_pushes now s =
     (let due = pending_pushes_due (e_db s) now in
      if due = [] then s
      else let (s', ready) = fold dispatch_one due (s, []) in fold start_push ready s')"

section \<open>Input events\<close>

definition apply_trigger ::
  "time \<Rightarrow> time \<Rightarrow> name \<Rightarrow> string \<Rightarrow> name \<Rightarrow> engine \<Rightarrow> engine outcome" where
  "apply_trigger now occurred cause summary r s =
     (let record = latch_rec s r; s0 = ensure_latch r s in
      if lr_state record
      then (let updated = record\<lparr>lr_set_at := Some occurred,
                  lr_trigger_count := lr_trigger_count record + 1,
                  lr_last_cause := Some cause, lr_last_detail := Some summary\<rparr> in
            case write_latch_e updated s0 of Inl x \<Rightarrow> Inl x
            | Inr s1 \<Rightarrow> Inr (append_event_e now LatchRetriggered (Some cause) (Some r)
                 (''count='' @ string_of_int (lr_trigger_count updated) @ '' '' @ summary) s1))
      else (let updated = record\<lparr>lr_state := True, lr_set_at := Some occurred,
                  lr_trigger_count := lr_trigger_count record + 1,
                  lr_last_cause := Some cause, lr_last_detail := Some summary\<rparr> in
            case write_latch_e updated s0 of Inl x \<Rightarrow> Inl x
            | Inr s1 \<Rightarrow> Inr (append_event_e now LatchSet (Some cause) (Some r) summary s1)))"

definition handle_input_event :: "env \<Rightarrow> name \<Rightarrow> observed_event \<Rightarrow> engine \<Rightarrow> engine outcome" where
  "handle_input_event env i event s =
     (let now = env_now env; rules = rules_for_input (e_graph s) i in
      transaction s (\<lambda>s.
        let s1 = append_event_e now InputEventKind (Some i) None (event_summary event) s in
        if rules = [] then Inr s1
        else case run_steps (apply_trigger now (occurred_at event) i (event_summary event))
                    (map rule_name rules) s1 of
            Inl x \<Rightarrow> Inl x
          | Inr s2 \<Rightarrow> Inr (sync_outputs now
               (outputs_affected_by (e_graph s2) (map rule_name rules)) s2)))"

section \<open>Unlatch requests\<close>

definition clear_latch :: "time \<Rightarrow> name \<Rightarrow> string \<Rightarrow> name \<Rightarrow> engine \<Rightarrow> engine outcome" where
  "clear_latch now i cause r s =
     (let updated = (latch_rec s r)\<lparr>lr_state := False, lr_cleared_at := Some now,
                                     lr_last_cause := Some i\<rparr> in
      case write_latch_e updated (ensure_latch r s) of Inl x \<Rightarrow> Inl x
      | Inr s1 \<Rightarrow> Inr (append_event_e now LatchCleared (Some i) (Some r) cause s1))"

definition handle_unlatch :: "env \<Rightarrow> name \<Rightarrow> string \<Rightarrow> engine \<Rightarrow> engine outcome" where
  "handle_unlatch env i cause s =
     (let now = env_now env; rules = rules_for_output (e_graph s) i;
          set_rules = filter (\<lambda>r. lr_state (latch_rec s (rule_name r))) rules;
          s0 = fold (ensure_latch \<circ> rule_name) rules s in
      transaction s0 (\<lambda>s.
        if set_rules = []
        then Inr (append_event_e now UnlatchIgnored (Some i) None cause s)
        else case run_steps (clear_latch now i cause) (map rule_name set_rules) s of
            Inl x \<Rightarrow> Inl x
          | Inr s1 \<Rightarrow> Inr (sync_outputs now
               (outputs_affected_by (e_graph s1) (map rule_name rules)) s1)))"

section \<open>Push results\<close>

definition backoff_seconds :: "daemon_settings \<Rightarrow> int \<Rightarrow> seconds result" where
  "backoff_seconds st attempts =
     (case float_pow2 (nat (max 0 (attempts - 1))) of
        Inl x \<Rightarrow> Inl x
      | Inr f \<Rightarrow> (let delay = retry_initial_seconds st * f in
          Inr (if delay > retry_max_seconds st then retry_max_seconds st else delay)))"

definition record_push_failure ::
  "time \<Rightarrow> name \<Rightarrow> bool \<Rightarrow> string option \<Rightarrow> engine \<Rightarrow> engine outcome" where
  "record_push_failure now i pushed_value err s =
     (let attempts = (case pending_push_of (e_db s) i of None \<Rightarrow> 1 | Some p \<Rightarrow> pp_attempts p + 1) in
      case backoff_seconds (e_settings s) attempts of
        Inl x \<Rightarrow> Inl (x, e_db s)
      | Inr delay \<Rightarrow>
          Inr (append_event_e now OutputPushFailed (Some i) None
            (py_strip (''attempt='' @ string_of_int attempts @ '' retry_in='' @ fmt0f delay @ ''s ''
               @ (case err of None \<Rightarrow> [] | Some e \<Rightarrow> e)))
            (s\<lparr>e_db := write_pending_push (e_db s)
                \<lparr>pp_instance = i, pp_target = pushed_value, pp_attempts = attempts,
                 pp_next_attempt_at = now + timedelta_us delay, pp_last_error = err\<rparr>\<rparr>)))"

definition handle_push_result ::
  "env \<Rightarrow> name \<Rightarrow> bool \<Rightarrow> bool \<Rightarrow> string option \<Rightarrow> engine \<Rightarrow> engine outcome" where
  "handle_push_result env i pushed_value succeeded err s =
     (let now = env_now env; s0 = s\<lparr>e_in_flight := e_in_flight s - {i}\<rparr> in
      transaction s0 (\<lambda>s.
        case (if succeeded
              then Inr (append_event_e now OutputPushSucceeded (Some i) None (''value='' @ py_bool pushed_value)
                     (s\<lparr>e_db := write_output_state (e_db s)
                          \<lparr>os_instance = i, os_last_applied = Some pushed_value,
                           os_last_confirmed = Some pushed_value, os_last_sync_at = Some now\<rparr>\<rparr>))
              else record_push_failure now i pushed_value err s) of
          Inl x \<Rightarrow> Inl x
        | Inr s1 \<Rightarrow> Inr (sync_outputs now [i] s1)))"

end
