(* ===== verification/Engine_Loop.thy ===== *)
theory Engine_Loop
  imports Engine
begin

text \<open>
  The rest of \<open>engine.py\<close>: reload, health polling, startup reconciliation with its
  background retries, the dispatch of messages to handlers, the tick, \<open>drain\<close> and the
  loop itself. What a plugin call answers comes from the environment of the step.
\<close>

section \<open>Reload and health\<close>

definition handle_reload ::
  "env \<Rightarrow> configuration \<Rightarrow> plugin_set option \<Rightarrow> nat \<Rightarrow> engine \<Rightarrow> engine outcome" where
  "handle_reload env c plugins ack s =
     (let now = env_now env;
          previous_outputs = output_names (e_graph s);
          s1 = (case plugins of None \<Rightarrow> s | Some ps \<Rightarrow> s\<lparr>e_plugins := ps\<rparr>);
          s2 = reload_latches (s1\<lparr>e_graph := graph_from_configuration c\<rparr>);
          s3 = append_event_e now ConfigLoaded None None
                 (string_of_nat (length (c_rules c)) @ '' rules, '' @
                  string_of_nat (length (c_instances c)) @ '' instances'') s2;
          affected = sorted_set (previous_outputs @ output_names (e_graph s3));
          s4 = sync_outputs now affected s3 in
      Inr (s4\<lparr>e_acknowledged := e_acknowledged s4 @ [ack]\<rparr>))"

definition ask_health :: "plugin_health plugin_answer \<Rightarrow> plugin_health" where
  "ask_health a =
     (case a of Inr h \<Rightarrow> h
      | Inl (ty, text) \<Rightarrow> \<lparr>ph_status = HsFailed, ph_detail = ty @ '': '' @ text\<rparr>)"

definition record_health :: "time \<Rightarrow> name \<Rightarrow> plugin_health \<Rightarrow> engine \<Rightarrow> engine" where
  "record_health now i h s =
     s\<lparr>e_db := write_health (e_db s)
         \<lparr>hr_instance = i, hr_status = ph_status h, hr_detail = ph_detail h, hr_updated_at = now\<rparr>\<rparr>"

definition handle_poll_health :: "env \<Rightarrow> engine \<Rightarrow> engine outcome" where
  "handle_poll_health env s =
     (let now = env_now env;
          s1 = fold (\<lambda>i. record_health now i (ask_health (env_input_health env i))) (ps_inputs (e_plugins s)) s;
          s2 = fold (\<lambda>i. record_health now i (ask_health (env_output_health env i))) (ps_outputs (e_plugins s)) s1 in
      Inr (schedule now health_poll_interval_seconds PollHealthMessage s2))"

section \<open>Reconciliation\<close>

definition apply_reconcile_outcome ::
  "time \<Rightarrow> name \<Rightarrow> reconcile_outcome \<Rightarrow> int \<Rightarrow> engine \<Rightarrow> engine outcome" where
  "apply_reconcile_outcome now r out extra s =
     (let record = latch_rec s r; s0 = ensure_latch r s;
          updated = record\<lparr>lr_state := ro_state out, lr_set_at := ro_set_at out,
             lr_cleared_at := ro_cleared_at out, lr_trigger_count := lr_trigger_count record + extra\<rparr> in
      case (if updated \<noteq> record then write_latch_e updated s0 else Inr s0) of
        Inl x \<Rightarrow> Inl x
      | Inr s1 \<Rightarrow> Inr (append_event_e now Reconciled None (Some r)
           (''state='' @ py_bool (ro_state out) @ '' reason='' @ reason_text (ro_reason out)) s1))"

definition collect_downtime_one ::
  "env \<Rightarrow> time option \<Rightarrow> name \<Rightarrow> engine \<times> (name, observed_event list) dict
     \<Rightarrow> engine \<times> (name, observed_event list) dict" where
  "collect_downtime_one env since i = (\<lambda>(s, collected).
     if i \<notin> set (ps_inputs (e_plugins s)) then (s, collected)
     else case env_catch_up env i since of
         Inr events \<Rightarrow> (s, dict_put collected i events)
       | Inl _ \<Rightarrow> (schedule (env_now env) reconcile_retry_initial_seconds (CatchUpMessage i 1 since) s, collected))"

definition collect_downtime_events ::
  "env \<Rightarrow> time option \<Rightarrow> engine \<Rightarrow> engine \<times> (name, observed_event list) dict" where
  "collect_downtime_events env since s =
     fold (collect_downtime_one env since) (input_names (e_graph s)) (s, [])"

definition query_output :: "env \<Rightarrow> name \<Rightarrow> remote_state" where
  "query_output env i =
     (case env_query env i of Inr r \<Rightarrow> r | Inl _ \<Rightarrow> \<lparr>belief = Unknown, rs_cleared_at = None\<rparr>)"

definition collect_remote_one ::
  "env \<Rightarrow> name \<Rightarrow> engine \<times> (name, remote_state) dict \<Rightarrow> engine \<times> (name, remote_state) dict" where
  "collect_remote_one env i = (\<lambda>(s, collected).
     if i \<notin> set (ps_outputs (e_plugins s)) then (s, collected)
     else let state = query_output env i in
       if belief state = Unknown
       then (schedule (env_now env) reconcile_retry_initial_seconds (ReconcileOutputMessage i 1) s, collected)
       else (s, dict_put collected i state))"

definition collect_remote_states :: "env \<Rightarrow> engine \<Rightarrow> engine \<times> (name, remote_state) dict" where
  "collect_remote_states env s =
     fold (collect_remote_one env) (output_names (e_graph s)) (s, [])"

text \<open>\<open>_summarize\<close>: the latest event over these inputs, and how many there were.\<close>

definition downtime_events :: "(name, observed_event list) dict \<Rightarrow> name list \<Rightarrow> observed_event list" where
  "downtime_events downtime is =
     concat (map (\<lambda>i. case dict_get downtime i of None \<Rightarrow> [] | Some es \<Rightarrow> es) is)"

fun latest_event :: "time option \<Rightarrow> observed_event list \<Rightarrow> time option" where
  "latest_event acc [] = acc"
| "latest_event acc (e # es) =
     latest_event (case acc of None \<Rightarrow> Some (occurred_at e)
        | Some t \<Rightarrow> if occurred_at e > t then Some (occurred_at e) else Some t) es"

definition summarize ::
  "(name, observed_event list) dict \<Rightarrow> name list \<Rightarrow> time option \<times> int" where
  "summarize downtime is =
     (let es = downtime_events downtime is in (latest_event None es, int (length es)))"

definition reconcile_rule ::
  "time \<Rightarrow> (name, observed_event list) dict \<Rightarrow> (name, remote_state) dict \<Rightarrow> rule \<Rightarrow> engine \<Rightarrow> engine outcome" where
  "reconcile_rule now downtime reports r s =
     (let (latest_ev, event_count) = summarize downtime (rule_inputs r);
          rule_reports = List.map_filter (dict_get reports) (rule_outputs r) in
      apply_reconcile_outcome now (rule_name r)
        (resolve_rule now (latch_rec s (rule_name r)) latest_ev rule_reports) event_count
        (ensure_latch (rule_name r) s))"

definition reconcile :: "env \<Rightarrow> engine \<Rightarrow> engine outcome" where
  "reconcile env s =
     (let now = env_now env; since = last_seen_at (e_db s);
          (s1, downtime) = collect_downtime_events env since s;
          (s2, reports) = collect_remote_states env s1 in
      case transaction s2 (\<lambda>s.
          case run_steps (reconcile_rule now downtime reports) (graph_rules (e_graph s))
                 (append_event_e now DaemonStarted None None [] s) of
            Inl x \<Rightarrow> Inl x
          | Inr s3 \<Rightarrow>
              (let s4 = fold (sync_output now True) (output_names (e_graph s3)) s3 in
               Inr (s4\<lparr>e_db := write_last_seen_at (e_db s4) now\<rparr>))) of
        Inl x \<Rightarrow> Inl x
      | Inr s5 \<Rightarrow>
          Inr ((dispatch_due_pushes now (s5\<lparr>e_last_seen_written_at := Some now\<rparr>))\<lparr>e_ready := True\<rparr>))"

definition retry_delay :: "nat \<Rightarrow> seconds result" where
  "retry_delay attempt =
     (case float_pow2 attempt of Inl x \<Rightarrow> Inl x
      | Inr f \<Rightarrow> Inr (min (reconcile_retry_initial_seconds * f) reconcile_retry_max_seconds))"

definition reconcile_retry_rule :: "time \<Rightarrow> remote_state \<Rightarrow> name \<Rightarrow> engine \<Rightarrow> engine outcome" where
  "reconcile_retry_rule now state r s =
     apply_reconcile_outcome now r (resolve_rule now (latch_rec s r) None [state]) 0 (ensure_latch r s)"

definition handle_reconcile_retry :: "env \<Rightarrow> name \<Rightarrow> nat \<Rightarrow> engine \<Rightarrow> engine outcome" where
  "handle_reconcile_retry env i attempt s =
     (if i \<notin> set (ps_outputs (e_plugins s)) then Inr s
      else let state = query_output env i; now = env_now env in
        if belief state = Unknown
        then (case retry_delay attempt of Inl x \<Rightarrow> Inl (x, e_db s)
              | Inr delay \<Rightarrow> Inr (schedule now delay (ReconcileOutputMessage i (attempt + 1)) s))
        else transaction s (\<lambda>s.
          let rules = rules_for_output (e_graph s) i in
          case run_steps (reconcile_retry_rule now state) (map rule_name rules) s of
            Inl x \<Rightarrow> Inl x
          | Inr s1 \<Rightarrow> Inr (sync_outputs now
               (outputs_affected_by (e_graph s1) (map rule_name rules)) s1)))"

definition handle_catch_up_retry :: "env \<Rightarrow> name \<Rightarrow> nat \<Rightarrow> time option \<Rightarrow> engine \<Rightarrow> engine outcome" where
  "handle_catch_up_retry env i attempt since s =
     (if i \<notin> set (ps_inputs (e_plugins s)) then Inr s
      else case env_catch_up env i since of
          Inl _ \<Rightarrow>
            (case retry_delay attempt of Inl x \<Rightarrow> Inl (x, e_db s)
             | Inr delay \<Rightarrow> Inr (schedule (env_now env) delay (CatchUpMessage i (attempt + 1) since) s))
        | Inr events \<Rightarrow> run_steps (handle_input_event env i) events s)"

section \<open>Message dispatch\<close>

definition handle :: "env \<Rightarrow> core_message \<Rightarrow> engine \<Rightarrow> engine outcome" where
  "handle env m s = (case m of
     InputEventMessage i e \<Rightarrow> handle_input_event env i e s
   | UnlatchRequestMessage i cause \<Rightarrow> handle_unlatch env i cause s
   | PushResultMessage i v ok err \<Rightarrow> handle_push_result env i v ok err s
   | ReloadMessage c ps ack \<Rightarrow> handle_reload env c ps ack s
   | ReconcileOutputMessage i n \<Rightarrow> handle_reconcile_retry env i n s
   | CatchUpMessage i n since \<Rightarrow> handle_catch_up_retry env i n since s
   | PollHealthMessage \<Rightarrow> handle_poll_health env s
   | ShutdownMessage \<Rightarrow> Inr (s\<lparr>e_stopping := True\<rparr>))"

section \<open>The tick\<close>

definition fire_due_timers :: "env \<Rightarrow> time \<Rightarrow> engine \<Rightarrow> engine outcome" where
  "fire_due_timers env now s =
     (let due = filter (\<lambda>t. fst t \<le> now) (e_timers s);
          remaining = filter (\<lambda>t. \<not> fst t \<le> now) (e_timers s) in
      run_steps (handle env) (map snd due) (s\<lparr>e_timers := remaining\<rparr>))"

definition maybe_write_last_seen :: "time \<Rightarrow> engine \<Rightarrow> engine" where
  "maybe_write_last_seen now s =
     (if (case e_last_seen_written_at s of None \<Rightarrow> False
          | Some previous \<Rightarrow> of_int (now - previous) / 1000000 < last_seen_interval_seconds)
      then s
      else s\<lparr>e_db := write_last_seen_at (e_db s) now, e_last_seen_written_at := Some now\<rparr>)"

definition tick :: "env \<Rightarrow> engine \<Rightarrow> engine outcome" where
  "tick env s =
     (let now = env_now env in
      case fire_due_timers env now (s\<lparr>e_heartbeat := Some now\<rparr>) of
        Inl x \<Rightarrow> Inl x
      | Inr s1 \<Rightarrow> Inr (maybe_write_last_seen now (dispatch_due_pushes now s1)))"

definition next_timeout :: "time \<Rightarrow> engine \<Rightarrow> seconds" where
  "next_timeout now s =
     (let deadlines = map fst (e_timers s) @
            (case earliest_pending_attempt (e_db s) of None \<Rightarrow> [] | Some t \<Rightarrow> [t]) in
      if deadlines = [] then loop_max_interval_seconds
      else let sec = of_int (Min (set deadlines) - now) / 1000000 in
        if sec < 0 then 0 else min sec loop_max_interval_seconds)"

section \<open>The loop\<close>

text \<open>
  One round of \<open>drain\<close> takes messages until the queue is empty. No handler touches the
  queue, so this is the queue as it stood, in order; messages other threads add meanwhile
  belong to a later round.
\<close>

definition drain_queue :: "env \<Rightarrow> engine \<Rightarrow> engine outcome" where
  "drain_queue env s = run_steps (handle env) (e_queue s) (s\<lparr>e_queue := []\<rparr>)"

fun drain_rounds :: "nat \<Rightarrow> env \<Rightarrow> nat \<Rightarrow> engine \<Rightarrow> (nat \<times> bool \<times> engine) outcome" where
  "drain_rounds 0 env handled s = Inr (handled, False, s)"
| "drain_rounds (Suc n) env handled s =
     (case drain_queue env s of Inl x \<Rightarrow> Inl x
      | Inr s1 \<Rightarrow>
          (case tick env s1 of Inl x \<Rightarrow> Inl x
           | Inr s2 \<Rightarrow>
               if e_queue s = [] \<and> e_queue s2 = [] then Inr (handled, True, s2)
               else drain_rounds n env (handled + length (e_queue s)) s2))"

definition drain :: "env \<Rightarrow> engine \<Rightarrow> (nat \<times> bool \<times> engine) outcome" where
  "drain env s = drain_rounds max_drain_rounds env 0 s"

text \<open>
  One iteration of \<open>run\<close>: with nothing queued the wait times out and the loop ticks;
  otherwise the oldest message is handled and the loop ticks unless it is to stop.
\<close>

definition loop_step :: "env \<Rightarrow> engine \<Rightarrow> engine outcome" where
  "loop_step env s =
     (case e_queue s of
        [] \<Rightarrow> tick env s
      | m # ms \<Rightarrow>
          (case handle env m (s\<lparr>e_queue := ms\<rparr>) of Inl x \<Rightarrow> Inl x
           | Inr s1 \<Rightarrow> if e_stopping s1 then Inr s1 else tick env s1))"

definition on_stop :: "env \<Rightarrow> engine \<Rightarrow> engine" where
  "on_stop env s = append_event_e (env_now env) DaemonStopped None None []
     (s\<lparr>e_db := write_last_seen_at (e_db s) (env_now env)\<rparr>)"

text \<open>
  \<open>Engine.run\<close> over a list of iterations, each with what the other threads put on the queue
  before it and the environment it runs under; the first argument is the environment of the
  stop. None is a loop still running when the list is used up.
\<close>

fun run_loop :: "env \<Rightarrow> (core_message list \<times> env) list \<Rightarrow> engine \<Rightarrow> engine outcome option" where
  "run_loop stop_env its s =
     (if e_stopping s then Some (Inr (on_stop stop_env s))
      else case its of
        [] \<Rightarrow> None
      | (ms, env) # rest \<Rightarrow>
          (case loop_step env (s\<lparr>e_queue := e_queue s @ ms\<rparr>) of
             Inl x \<Rightarrow> Some (Inl x)
           | Inr t \<Rightarrow> run_loop stop_env rest t))"

declare run_loop.simps [simp del]

end
