(* ===== verification/Engine_View.thy ===== *)
theory Engine_View
  imports Engine_Loop
begin

text \<open>
  What the engine's state means: the latch of every rule, the pending push and the last
  applied value of every output. Each operation of the engine is shown to return under the
  invariant and to have the effect of a pure function on this view; the properties of the
  handlers are then read off the view.
\<close>

section \<open>Frame facts of the storage operations\<close>

lemma append_event_frame [simp]:
  "db_latches (append_event d t k i r x n) = db_latches d"
  "db_pending (append_event d t k i r x n) = db_pending d"
  "db_output_state (append_event d t k i r x n) = db_output_state d"
  "db_rules (append_event d t k i r x n) = db_rules d"
  "db_instances (append_event d t k i r x n) = db_instances d"
  "db_daemon_state (append_event d t k i r x n) = db_daemon_state d"
  "db_health (append_event d t k i r x n) = db_health d"
  "db_plugin_kv (append_event d t k i r x n) = db_plugin_kv d"
  by (simp_all add: append_event_def Let_def)

lemma storage_write_frame [simp]:
  "db_latches (write_pending_push d p) = db_latches d"
  "db_latches (delete_pending_push d j) = db_latches d"
  "db_latches (write_output_state d o') = db_latches d"
  "db_latches (write_health d h) = db_latches d"
  "db_latches (write_last_seen_at d t) = db_latches d"
  "db_rules (write_pending_push d p) = db_rules d"
  "db_rules (delete_pending_push d j) = db_rules d"
  "db_rules (write_output_state d o') = db_rules d"
  "db_rules (write_health d h) = db_rules d"
  "db_rules (write_last_seen_at d t) = db_rules d"
  "db_output_state (write_pending_push d p) = db_output_state d"
  "db_output_state (delete_pending_push d j) = db_output_state d"
  "db_output_state (write_health d h) = db_output_state d"
  "db_output_state (write_last_seen_at d t) = db_output_state d"
  "db_pending (write_output_state d o') = db_pending d"
  "db_pending (write_health d h) = db_pending d"
  "db_pending (write_last_seen_at d t) = db_pending d"
  by (simp_all add: write_pending_push_def delete_pending_push_def write_output_state_def
      write_health_def write_last_seen_at_def)

lemma reads_frame [simp]:
  "latch (append_event d t k i r x n) = latch d"
  "latch (write_pending_push d p) = latch d"
  "latch (delete_pending_push d j) = latch d"
  "latch (write_output_state d o') = latch d"
  "latch (write_health d h) = latch d"
  "latch (write_last_seen_at d t) = latch d"
  "last_applied (append_event d t k i r x n) = last_applied d"
  "last_applied (write_pending_push d p) = last_applied d"
  "last_applied (delete_pending_push d j) = last_applied d"
  "last_applied (write_health d h) = last_applied d"
  "last_applied (write_last_seen_at d t) = last_applied d"
  "last_applied (d\<lparr>db_latches := L\<rparr>) = last_applied d"
  "pending_push_of (append_event d t k i r x n) = pending_push_of d"
  "pending_push_of (write_output_state d o') = pending_push_of d"
  "pending_push_of (write_health d h) = pending_push_of d"
  "pending_push_of (write_last_seen_at d t) = pending_push_of d"
  "pending_push_of (d\<lparr>db_latches := L\<rparr>) = pending_push_of d"
  by (auto simp: fun_eq_iff latch_def last_applied_def output_state_def pending_push_of_def)

lemma pending_push_write [simp]:
  "pending_push_of (write_pending_push d p) = (pending_push_of d)(pp_instance p := Some p)"
  "pending_push_of (delete_pending_push d j) = (pending_push_of d)(j := None)"
  by (auto simp: fun_eq_iff pending_push_of_def write_pending_push_def delete_pending_push_def)

lemma last_applied_write [simp]:
  "last_applied (write_output_state d o') = (last_applied d)(os_instance o' := os_last_applied o')"
  by (auto simp: fun_eq_iff last_applied_def output_state_def write_output_state_def)

section \<open>The view and the invariant\<close>

record view =
  v_latch :: "name \<Rightarrow> latch_record"
  v_pending :: "name \<Rightarrow> pending_push option"
  v_applied :: "name \<Rightarrow> bool option"

definition view :: "engine \<Rightarrow> view" where
  "view s = \<lparr>v_latch = latch_rec s, v_pending = pending_push_of (e_db s),
             v_applied = last_applied (e_db s)\<rparr>"

lemma view_sel [simp]:
  "v_latch (view s) = latch_rec s"
  "v_pending (view s) = pending_push_of (e_db s)"
  "v_applied (view s) = last_applied (e_db s)"
  by (simp_all add: view_def)

definition latched :: "engine \<Rightarrow> name \<Rightarrow> bool" where
  "latched s r \<longleftrightarrow> lr_state (latch_rec s r)"

definition db_latch :: "db \<Rightarrow> name \<Rightarrow> latch_record" where
  "db_latch d r = (case latch d r of Some l \<Rightarrow> l | None \<Rightarrow> fresh_latch r)"

text \<open>
  The invariant: the database is well formed, the cache agrees with it, the graph is an
  index, and every rule of the graph has its row, so that a latch can be written for it.
\<close>

definition engine_ok :: "engine \<Rightarrow> bool" where
  "engine_ok s \<longleftrightarrow> db_ok (e_db s) \<and> latch_rec s = db_latch (e_db s) \<and> graph_ok (e_graph s) \<and>
     (\<forall>r \<in> graph_members (e_graph s). dict_get (db_rules (e_db s)) (rule_name r) \<noteq> None)"

lemma engine_okD:
  assumes "engine_ok s"
  shows "db_ok (e_db s)" "latch_rec s = db_latch (e_db s)" "graph_ok (e_graph s)"
    "r \<in> graph_members (e_graph s) \<Longrightarrow> dict_get (db_rules (e_db s)) (rule_name r) \<noteq> None"
  using assms by (auto simp: engine_ok_def)

lemma lr_rule_db_latch: "db_ok d \<Longrightarrow> lr_rule (db_latch d r) = r"
  by (auto simp: db_ok_def db_latch_def fresh_latch_def split: option.splits)

lemma lr_rule_latch_rec: "engine_ok s \<Longrightarrow> lr_rule (latch_rec s r) = r"
  by (simp add: engine_okD lr_rule_db_latch)

lemma latch_states_True: "dict_get (latch_states s) n = Some True \<longleftrightarrow> latched s n"
proof -
  have "dict_get (map (\<lambda>(n, r). (n, lr_state r)) L) n = map_option lr_state (dict_get L n)" for L
    by (induction L) auto
  then have "dict_get (latch_states s) n = map_option lr_state (dict_get (e_latches s) n)"
    by (simp only: latch_states_def)
  then show ?thesis by (auto simp: latched_def latch_rec_def fresh_latch_def split: option.splits)
qed

text \<open>The value an output should have, from the latches of the view alone.\<close>

definition v_desired :: "rule_graph \<Rightarrow> (name \<Rightarrow> latch_record) \<Rightarrow> name \<Rightarrow> bool" where
  "v_desired g L i \<longleftrightarrow> (\<exists>r \<in> graph_members g. i \<in> set (rule_outputs r) \<and> lr_state (L (rule_name r)))"

lemma desired_state_view:
  "graph_ok (e_graph s) \<Longrightarrow> desired_state s i = v_desired (e_graph s) (latch_rec s) i"
  unfolding desired_state_def by (simp add: graph.desired_law latch_states_True v_desired_def latched_def)

section \<open>Steps that change data only\<close>

text \<open>
  Most operations write the tables and the cache and leave the rest of the engine, the
  rules table included, as it is.
\<close>

definition data_step :: "engine \<Rightarrow> engine \<Rightarrow> bool" where
  "data_step s t \<longleftrightarrow> t = s\<lparr>e_db := e_db t, e_latches := e_latches t\<rparr> \<and>
     db_rules (e_db t) = db_rules (e_db s)"

lemma data_step_refl [simp]: "data_step s s"
  by (simp add: data_step_def)

lemma data_step_fields:
  assumes "data_step s t"
  shows "e_graph t = e_graph s" "e_plugins t = e_plugins s" "e_settings t = e_settings s"
    "e_queue t = e_queue s" "e_timers t = e_timers s" "e_in_flight t = e_in_flight s"
    "e_stopping t = e_stopping s" "e_ready t = e_ready s" "e_dispatched t = e_dispatched s"
    "e_acknowledged t = e_acknowledged s" "e_heartbeat t = e_heartbeat s"
    "e_last_seen_written_at t = e_last_seen_written_at s"
    "db_rules (e_db t) = db_rules (e_db s)"
proof -
  let ?u = "s\<lparr>e_db := e_db t, e_latches := e_latches t\<rparr>"
  have eq: "t = ?u" and rules: "db_rules (e_db t) = db_rules (e_db s)"
    using assms by (simp_all only: data_step_def)
  show "e_graph t = e_graph s" "e_plugins t = e_plugins s" "e_settings t = e_settings s"
    "e_queue t = e_queue s" "e_timers t = e_timers s" "e_in_flight t = e_in_flight s"
    "e_stopping t = e_stopping s" "e_ready t = e_ready s" "e_dispatched t = e_dispatched s"
    "e_acknowledged t = e_acknowledged s" "e_heartbeat t = e_heartbeat s"
    "e_last_seen_written_at t = e_last_seen_written_at s"
    by (subst eq, simp)+
  show "db_rules (e_db t) = db_rules (e_db s)" by (rule rules)
qed

lemma data_step_trans:
  assumes st: "data_step s t" and tu: "data_step t u"
  shows "data_step s u"
  by (simp add: data_step_def engine.equality data_step_fields [OF tu] data_step_fields [OF st])

lemma data_step_db [simp]: "db_rules d = db_rules (e_db s) \<Longrightarrow> data_step s (s\<lparr>e_db := d\<rparr>)"
  by (simp add: data_step_def)

lemma data_step_both [simp]:
  "db_rules d = db_rules (e_db s) \<Longrightarrow> data_step s (s\<lparr>e_db := d, e_latches := L\<rparr>)"
  by (simp add: data_step_def)

lemma data_step_latches [simp]: "data_step s (s\<lparr>e_latches := L\<rparr>)"
  by (simp add: data_step_def)

lemma ensure_latch_facts [simp]:
  "e_db (ensure_latch r s) = e_db s" "latch_rec (ensure_latch r s) = latch_rec s"
  "data_step s (ensure_latch r s)"
  by (auto simp: ensure_latch_def latch_rec_def fun_eq_iff split: option.splits)

lemma fold_ensure_facts [simp]:
  "e_db (fold (ensure_latch \<circ> f) rs s) = e_db s"
  "latch_rec (fold (ensure_latch \<circ> f) rs s) = latch_rec s"
  "data_step s (fold (ensure_latch \<circ> f) rs s)"
proof -
  have "e_db (fold (ensure_latch \<circ> f) rs s) = e_db s \<and>
      latch_rec (fold (ensure_latch \<circ> f) rs s) = latch_rec s \<and>
      data_step s (fold (ensure_latch \<circ> f) rs s)"
    by (induction rs arbitrary: s) (auto intro: data_step_trans ensure_latch_facts(3))
  then show "e_db (fold (ensure_latch \<circ> f) rs s) = e_db s"
    "latch_rec (fold (ensure_latch \<circ> f) rs s) = latch_rec s"
    "data_step s (fold (ensure_latch \<circ> f) rs s)" by auto
qed

text \<open>
  A data step that keeps the view of the latches and of the database in step keeps the
  invariant.
\<close>

lemma engine_ok_data_step:
  assumes "engine_ok s" "data_step s t" "db_ok (e_db t)" "latch_rec t = db_latch (e_db t)"
  shows "engine_ok t"
  using assms data_step_fields [OF assms(2)] by (simp add: engine_ok_def)

lemma engine_ok_ensure [simp]: "engine_ok s \<Longrightarrow> engine_ok (ensure_latch r s)"
  by (rule engine_ok_data_step [of s]) (simp_all add: engine_okD)

lemma engine_ok_fold_ensure [simp]: "engine_ok s \<Longrightarrow> engine_ok (fold (ensure_latch \<circ> f) rs s)"
  by (rule engine_ok_data_step [of s]) (simp_all add: engine_okD)

lemma view_ensure [simp]: "view (ensure_latch r s) = view s" "view (fold (ensure_latch \<circ> f) rs s) = view s"
  by (simp_all add: view_def)

lemma latch_rec_db_update [simp]: "latch_rec (s\<lparr>e_db := d\<rparr>) = latch_rec s"
  by (simp add: latch_rec_def fun_eq_iff)

lemma engine_ok_db_update:
  assumes "engine_ok s" "db_ok d" "db_rules d = db_rules (e_db s)" "latch d = latch (e_db s)"
  shows "engine_ok (s\<lparr>e_db := d\<rparr>)"
  by (rule engine_ok_data_step [OF assms(1)])
    (use assms in \<open>simp_all add: engine_okD(2) fun_eq_iff db_latch_def\<close>)

lemma append_event_e_facts [simp]:
  "data_step s (append_event_e t k i r x s)"
  "engine_ok s \<Longrightarrow> engine_ok (append_event_e t k i r x s)"
  "view (append_event_e t k i r x s) = view s"
  "latch_rec (append_event_e t k i r x s) = latch_rec s"
  by (simp_all add: append_event_e_def view_def engine_ok_db_update engine_okD(1))

section \<open>Writing a latch\<close>

definition put_latch :: "latch_record \<Rightarrow> engine \<Rightarrow> engine" where
  "put_latch l s = s\<lparr>e_db := (e_db s)\<lparr>db_latches := dict_put (db_latches (e_db s)) (lr_rule l) l\<rparr>,
                     e_latches := dict_put (e_latches s) (lr_rule l) l\<rparr>"

lemma write_latch_e_eq:
  "dict_get (db_rules (e_db s)) (lr_rule l) \<noteq> None \<Longrightarrow> write_latch_e l s = Inr (put_latch l s)"
  by (auto simp: write_latch_e_def write_latch_def put_latch_def)

lemma put_latch_facts:
  "data_step s (put_latch l s)"
  "latch_rec (put_latch l s) = (latch_rec s)(lr_rule l := l)"
  "view (put_latch l s) = (view s)\<lparr>v_latch := (latch_rec s)(lr_rule l := l)\<rparr>"
  by (auto simp: put_latch_def latch_rec_def view_def fun_eq_iff)

lemma engine_ok_put_latch:
  assumes "engine_ok s" "dict_get (db_rules (e_db s)) (lr_rule l) \<noteq> None"
  shows "engine_ok (put_latch l s)"
proof (rule engine_ok_data_step [OF assms(1) put_latch_facts(1)])
  have "write_latch (e_db s) l = Inr (e_db (put_latch l s))"
    using assms(2) by (auto simp: write_latch_def put_latch_def)
  then show "db_ok (e_db (put_latch l s))"
    by (rule db_ok_write_latch [OF engine_okD(1) [OF assms(1)]])
  have "latch (e_db (put_latch l s)) = (latch (e_db s))(lr_rule l := Some l)"
    by (simp add: put_latch_def fun_eq_iff)
  then show "latch_rec (put_latch l s) = db_latch (e_db (put_latch l s))"
    using engine_okD(2) [OF assms(1)] by (simp add: put_latch_facts(2) db_latch_def fun_eq_iff)
qed

text \<open>
  The shape of every step that rewrites one rule's latch and logs it: under the invariant
  it returns, and the view changes at that rule only.
\<close>

definition latch_step ::
  "(name \<Rightarrow> engine \<Rightarrow> engine outcome) \<Rightarrow> (name \<Rightarrow> latch_record \<Rightarrow> latch_record) \<Rightarrow> bool" where
  "latch_step f g \<longleftrightarrow> (\<forall>s r. engine_ok s \<longrightarrow> dict_get (db_rules (e_db s)) r \<noteq> None \<longrightarrow>
     (\<exists>t. f r s = Inr t \<and> data_step s t \<and> engine_ok t \<and>
        view t = (view s)\<lparr>v_latch := (latch_rec s)(r := g r (latch_rec s r))\<rparr>))"

lemma latch_write_step:
  assumes ok: "engine_ok s" and row: "dict_get (db_rules (e_db s)) r \<noteq> None" and rl: "lr_rule l = r"
  shows "\<exists>t. (case write_latch_e l (ensure_latch r s) of Inl e \<Rightarrow> Inl e
      | Inr s1 \<Rightarrow> Inr (append_event_e now k i rn x s1)) = (Inr t :: engine outcome) \<and>
    data_step s t \<and> engine_ok t \<and> view t = (view s)\<lparr>v_latch := (latch_rec s)(r := l)\<rparr>"
proof -
  let ?s = "ensure_latch r s"
  let ?t = "append_event_e now k i rn x (put_latch l ?s)"
  have "write_latch_e l ?s = Inr (put_latch l ?s)" using row rl by (simp add: write_latch_e_eq)
  moreover have "data_step s ?t"
    using put_latch_facts(1) append_event_e_facts(1) ensure_latch_facts(3) data_step_trans by meson
  moreover have "engine_ok ?t" using ok row rl by (simp add: engine_ok_put_latch)
  moreover have "view ?t = (view s)\<lparr>v_latch := (latch_rec s)(r := l)\<rparr>"
    using rl by (simp add: put_latch_facts)
  ultimately show ?thesis by simp
qed

text \<open>Rewriting the latches of several distinct rules, one after the other.\<close>

lemma run_latch_steps:
  assumes "latch_step f g"
  shows "engine_ok s \<Longrightarrow> distinct rs \<Longrightarrow> \<forall>r \<in> set rs. dict_get (db_rules (e_db s)) r \<noteq> None \<Longrightarrow>
    \<exists>t. run_steps f rs s = Inr t \<and> data_step s t \<and> engine_ok t \<and>
      view t = (view s)\<lparr>v_latch := (\<lambda>r. if r \<in> set rs then g r (latch_rec s r) else latch_rec s r)\<rparr>"
proof (induction rs arbitrary: s)
  case Nil
  then show ?case by simp
next
  case (Cons r rs)
  have row: "dict_get (db_rules (e_db s)) r \<noteq> None" using Cons.prems(3) by simp
  from assms Cons.prems(1) row obtain u where u: "f r s = Inr u" "data_step s u" "engine_ok u"
    and vu: "view u = (view s)\<lparr>v_latch := (latch_rec s)(r := g r (latch_rec s r))\<rparr>"
    unfolding latch_step_def by blast
  have lu: "latch_rec u = (latch_rec s)(r := g r (latch_rec s r))"
    using arg_cong [OF vu, of v_latch] by simp
  have "\<forall>q \<in> set rs. dict_get (db_rules (e_db u)) q \<noteq> None"
    using Cons.prems(3) data_step_fields(13) [OF u(2)] by simp
  with Cons.IH [OF u(3)] Cons.prems(2) obtain t where t: "run_steps f rs u = Inr t" "data_step u t"
    "engine_ok t" and vt: "view t = (view u)\<lparr>v_latch := (\<lambda>q. if q \<in> set rs then g q (latch_rec u q) else latch_rec u q)\<rparr>"
    by auto
  have "view t = (view s)\<lparr>v_latch := (\<lambda>q. if q \<in> set (r # rs) then g q (latch_rec s q) else latch_rec s q)\<rparr>"
    using Cons.prems(2) by (auto simp: vt vu lu fun_eq_iff intro!: view.equality)
  with t u show ?case using data_step_trans by (metis run_steps.simps(2) sum.case(2))
qed

end
