(* ===== verification/Engine_Events.thy ===== *)
theory Engine_Events
  imports Engine_View
begin

text \<open>
  The specification of the engine's handlers as functions on the view, and the proof that
  each handler implements its specification and keeps the invariant.
\<close>

section \<open>Synchronising outputs\<close>

definition new_push :: "name \<Rightarrow> bool \<Rightarrow> time \<Rightarrow> pending_push" where
  "new_push i v now = \<lparr>pp_instance = i, pp_target = v, pp_attempts = 0,
     pp_next_attempt_at = now, pp_last_error = None\<rparr>"

text \<open>What synchronising makes of an output's pending push.\<close>

definition synced ::
  "bool \<Rightarrow> time \<Rightarrow> name \<Rightarrow> bool option \<Rightarrow> pending_push option \<Rightarrow> pending_push option" where
  "synced desired now i applied existing =
     (if applied = Some desired then None
      else case existing of
          None \<Rightarrow> Some (new_push i desired now)
        | Some p \<Rightarrow> if pp_target p = desired then Some p else Some (new_push i desired now))"

definition v_synced :: "rule_graph \<Rightarrow> time \<Rightarrow> name set \<Rightarrow> view \<Rightarrow> view" where
  "v_synced g now outs v = v\<lparr>v_pending := (\<lambda>i. if i \<in> outs
     then synced (v_desired g (v_latch v) i) now i (v_applied v i) (v_pending v i) else v_pending v i)\<rparr>"

definition v_forced :: "rule_graph \<Rightarrow> time \<Rightarrow> name set \<Rightarrow> view \<Rightarrow> view" where
  "v_forced g now outs v = v\<lparr>v_pending := (\<lambda>i. if i \<in> outs
     then Some (new_push i (v_desired g (v_latch v) i) now) else v_pending v i)\<rparr>"

lemma synced_idem: "synced d now i a (synced d now i a e) = synced d now i a e"
  by (simp add: synced_def new_push_def split: option.split)

lemma view_db_update: "view (s\<lparr>e_db := d\<rparr>) =
    \<lparr>v_latch = latch_rec s, v_pending = pending_push_of d, v_applied = last_applied d\<rparr>"
  by (simp add: view_def)

lemma sync_output_facts:
  assumes "engine_ok s"
  shows "data_step s (sync_output now force i s) \<and> engine_ok (sync_output now force i s) \<and>
    view (sync_output now force i s) =
      (if force then v_forced (e_graph s) now {i} (view s) else v_synced (e_graph s) now {i} (view s))"
proof -
  note d = desired_state_view [OF engine_okD(3) [OF assms]]
  show ?thesis
    using assms
    by (auto simp: sync_output_def Let_def d v_forced_def v_synced_def synced_def new_push_def
        view_db_update engine_okD(1) fun_eq_iff view_def split: option.splits
        intro!: engine_ok_db_update)
qed

lemma sync_outputs_facts:
  "engine_ok s \<Longrightarrow> data_step s (sync_outputs now is s) \<and> engine_ok (sync_outputs now is s) \<and>
     view (sync_outputs now is s) = v_synced (e_graph s) now (set is) (view s)"
proof (induction "is" arbitrary: s)
  case Nil
  then show ?case by (simp add: sync_outputs_def v_synced_def)
next
  case (Cons i "is")
  let ?u = "sync_output now False i s"
  have u: "data_step s ?u" "engine_ok ?u" "view ?u = v_synced (e_graph s) now {i} (view s)"
    using sync_output_facts [OF Cons.prems, of now False i] by auto
  have "v_synced (e_graph s) now (set is) (v_synced (e_graph s) now {i} (view s))
      = v_synced (e_graph s) now (set (i # is)) (view s)"
    by (auto simp: v_synced_def synced_idem fun_eq_iff)
  with Cons.IH [OF u(2)] u show ?case
    by (auto simp: sync_outputs_def data_step_fields(1) intro: data_step_trans)
qed

lemma force_outputs_facts:
  "engine_ok s \<Longrightarrow> data_step s (fold (sync_output now True) is s) \<and>
     engine_ok (fold (sync_output now True) is s) \<and>
     view (fold (sync_output now True) is s) = v_forced (e_graph s) now (set is) (view s)"
proof (induction "is" arbitrary: s)
  case Nil
  then show ?case by (simp add: v_forced_def)
next
  case (Cons i "is")
  let ?u = "sync_output now True i s"
  have u: "data_step s ?u" "engine_ok ?u" "view ?u = v_forced (e_graph s) now {i} (view s)"
    using sync_output_facts [OF Cons.prems, of now True i] by auto
  have "v_forced (e_graph s) now (set is) (v_forced (e_graph s) now {i} (view s))
      = v_forced (e_graph s) now (set (i # is)) (view s)"
    by (auto simp: v_forced_def fun_eq_iff)
  with Cons.IH [OF u(2)] u show ?case
    by (auto simp: data_step_fields(1) intro: data_step_trans)
qed

section \<open>Settled outputs\<close>

text \<open>
  An output is settled when a push of the value it should have is pending, or none is and
  that value is the last one it confirmed.
\<close>

definition v_settled :: "rule_graph \<Rightarrow> view \<Rightarrow> name \<Rightarrow> bool" where
  "v_settled g v i \<longleftrightarrow>
     (case v_pending v i of Some p \<Rightarrow> pp_target p = v_desired g (v_latch v) i
      | None \<Rightarrow> v_applied v i = Some (v_desired g (v_latch v) i))"

definition settled :: "engine \<Rightarrow> name \<Rightarrow> bool" where
  "settled s i = v_settled (e_graph s) (view s) i"

lemma settled_v_synced: "i \<in> outs \<Longrightarrow> v_settled g (v_synced g now outs v) i"
  by (auto simp: v_settled_def v_synced_def synced_def new_push_def split: option.splits)

lemma settled_v_synced_other: "i \<notin> outs \<Longrightarrow> v_settled g (v_synced g now outs v) i = v_settled g v i"
  by (simp add: v_settled_def v_synced_def split: option.split)

lemma settled_v_forced: "i \<in> outs \<Longrightarrow> v_settled g (v_forced g now outs v) i"
  by (simp add: v_settled_def v_forced_def new_push_def)

text \<open>
  The contract between a change of latches and the synchronisation that follows it: the
  outputs that are synchronised become settled and the others stay as they were, so
  synchronising every output the change can have moved settles them all.
\<close>

locale output_sync =
  fixes sync :: "name \<Rightarrow> 's \<Rightarrow> 's" and is_settled :: "'s \<Rightarrow> name \<Rightarrow> bool" and ok :: "'s \<Rightarrow> bool"
  assumes sync_settles: "ok s \<Longrightarrow> is_settled (sync i s) i"
    and sync_other: "ok s \<Longrightarrow> j \<noteq> i \<Longrightarrow> is_settled (sync i s) j = is_settled s j"
    and sync_ok: "ok s \<Longrightarrow> ok (sync i s)"
begin

lemma fold_settles:
  "ok s \<Longrightarrow> is_settled (fold sync is s) j \<longleftrightarrow> j \<in> set is \<or> is_settled s j"
proof (induction "is" arbitrary: s)
  case Nil
  then show ?case by simp
next
  case (Cons i "is")
  have "is_settled (sync i s) j \<longleftrightarrow> j = i \<or> is_settled s j"
    using sync_settles sync_other Cons.prems by (cases "j = i") auto
  with Cons.IH [OF sync_ok [OF Cons.prems]] show ?case by auto
qed

lemma sync_all_settles:
  "ok s \<Longrightarrow> \<forall>j \<in> J. j \<in> set is \<or> is_settled s j \<Longrightarrow> \<forall>j \<in> J. is_settled (fold sync is s) j"
  by (simp add: fold_settles)

end

interpretation engine_sync: output_sync "sync_output now False" settled engine_ok
  for now
proof unfold_locales
  fix s i j
  assume ok: "engine_ok s"
  note f = sync_output_facts [OF ok, of now False i]
  have g: "e_graph (sync_output now False i s) = e_graph s" using f data_step_fields(1) by blast
  show "settled (sync_output now False i s) i"
    using f g by (simp add: settled_def settled_v_synced)
  show "j \<noteq> i \<Longrightarrow> settled (sync_output now False i s) j = settled s j"
    using f g by (simp add: settled_def settled_v_synced_other)
  show "engine_ok (sync_output now False i s)" using f by blast
qed

section \<open>Moving latches\<close>

text \<open>
  The specification shared by the handlers that move latches: the named rules' records
  are rewritten by \<open>f\<close> and the outputs those rules drive are synchronised.
\<close>

definition v_move ::
  "rule_graph \<Rightarrow> time \<Rightarrow> name list \<Rightarrow> (name \<Rightarrow> latch_record \<Rightarrow> latch_record) \<Rightarrow> view \<Rightarrow> view" where
  "v_move g now names f v = v_synced g now (set (outputs_affected_by g names))
     (v\<lparr>v_latch := (\<lambda>r. if r \<in> set names then f r (v_latch v r) else v_latch v r)\<rparr>)"

lemma v_move_latch [simp]:
  "v_latch (v_move g now names f v) = (\<lambda>r. if r \<in> set names then f r (v_latch v r) else v_latch v r)"
  by (simp add: v_move_def v_synced_def)

lemma v_move_applied [simp]: "v_applied (v_move g now names f v) = v_applied v"
  by (simp add: v_move_def v_synced_def)

lemma v_desired_frame:
  "graph_ok g \<Longrightarrow> i \<notin> set (outputs_affected_by g names) \<Longrightarrow>
   \<forall>r. r \<notin> set names \<longrightarrow> L r = M r \<Longrightarrow> v_desired g L i = v_desired g M i"
  unfolding v_desired_def by (metis graph.affected_law)

lemma v_settled_move:
  assumes "graph_ok g"
  shows "i \<in> set (outputs_affected_by g names) \<or> v_settled g v i \<Longrightarrow> v_settled g (v_move g now names f v) i"
proof (cases "i \<in> set (outputs_affected_by g names)")
  case True
  then show ?thesis by (simp add: v_move_def settled_v_synced)
next
  case False
  moreover assume "i \<in> set (outputs_affected_by g names) \<or> v_settled g v i"
  moreover have "v_desired g (\<lambda>r. if r \<in> set names then f r (v_latch v r) else v_latch v r) i
      = v_desired g (v_latch v) i"
    by (rule v_desired_frame [OF assms False]) simp
  ultimately show ?thesis
    by (simp add: v_move_def settled_v_synced_other) (simp add: v_settled_def split: option.splits)
qed

lemma rows_of_names:
  assumes "engine_ok s" "set rs \<subseteq> graph_members (e_graph s)"
  shows "\<forall>r \<in> set (map rule_name rs). dict_get (db_rules (e_db s)) r \<noteq> None"
  using assms engine_okD(4) by auto

lemma move_refines:
  assumes step: "latch_step f g" and ok: "engine_ok s" and d: "distinct names"
    and rows: "\<forall>r \<in> set names. dict_get (db_rules (e_db s)) r \<noteq> None"
  obtains t u where "run_steps f names s = Inr t" "e_graph t = e_graph s"
    "u = sync_outputs now (outputs_affected_by (e_graph s) all) t" "data_step s u" "engine_ok u"
    "view u = v_synced (e_graph s) now (set (outputs_affected_by (e_graph s) all))
      ((view s)\<lparr>v_latch := (\<lambda>r. if r \<in> set names then g r (latch_rec s r) else latch_rec s r)\<rparr>)"
proof -
  obtain t where t: "run_steps f names s = Inr t" "data_step s t" "engine_ok t"
    "view t = (view s)\<lparr>v_latch := (\<lambda>r. if r \<in> set names then g r (latch_rec s r) else latch_rec s r)\<rparr>"
    using run_latch_steps [OF step ok d rows] by blast
  let ?u = "sync_outputs now (outputs_affected_by (e_graph s) all) t"
  have u: "data_step t ?u" "engine_ok ?u"
    "view ?u = v_synced (e_graph t) now (set (outputs_affected_by (e_graph s) all)) (view t)"
    using sync_outputs_facts [OF t(3), of now "outputs_affected_by (e_graph s) all"] by blast+
  show thesis
    by (rule that [OF t(1) data_step_fields(1) [OF t(2)] refl data_step_trans [OF t(2) u(1)] u(2)])
      (simp only: u(3) t(4) data_step_fields(1) [OF t(2)])
qed

section \<open>Input events\<close>

text \<open>What an event makes of a rule's latch, set or not.\<close>

definition triggered :: "time \<Rightarrow> name \<Rightarrow> string \<Rightarrow> latch_record \<Rightarrow> latch_record" where
  "triggered occurred cause summary l =
     l\<lparr>lr_state := True, lr_set_at := Some occurred, lr_trigger_count := lr_trigger_count l + 1,
       lr_last_cause := Some cause, lr_last_detail := Some summary\<rparr>"

lemma triggered_set: "lr_state l \<Longrightarrow> triggered occurred cause summary l =
    l\<lparr>lr_set_at := Some occurred, lr_trigger_count := lr_trigger_count l + 1,
      lr_last_cause := Some cause, lr_last_detail := Some summary\<rparr>"
  by (cases l) (simp add: triggered_def)

lemma apply_trigger_step:
  "latch_step (apply_trigger now occurred cause summary) (\<lambda>_. triggered occurred cause summary)"
  unfolding latch_step_def
proof (intro allI impI)
  fix s r
  assume ok: "engine_ok s" and row: "dict_get (db_rules (e_db s)) r \<noteq> None"
  let ?l = "triggered occurred cause summary (latch_rec s r)"
  have rl: "lr_rule ?l = r" using lr_rule_latch_rec [OF ok] by (simp add: triggered_def)
  have "\<exists>k i rn x. apply_trigger now occurred cause summary r s =
      (case write_latch_e ?l (ensure_latch r s) of Inl e \<Rightarrow> Inl e
       | Inr s1 \<Rightarrow> Inr (append_event_e now k i rn x s1))"
  proof (cases "lr_state (latch_rec s r)")
    case True
    then show ?thesis unfolding triggered_set [OF True] by (auto simp: apply_trigger_def Let_def)
  next
    case False
    then show ?thesis by (auto simp: apply_trigger_def triggered_def Let_def)
  qed
  with latch_write_step [OF ok row rl] show "\<exists>t. apply_trigger now occurred cause summary r s = Inr t \<and>
      data_step s t \<and> engine_ok t \<and>
      view t = (view s)\<lparr>v_latch := (latch_rec s)(r := triggered occurred cause summary (latch_rec s r))\<rparr>"
    by metis
qed

definition input_names_of :: "engine \<Rightarrow> name \<Rightarrow> name list" where
  "input_names_of s i = map rule_name (rules_for_input (e_graph s) i)"

lemma handle_input_event_refines:
  assumes ok: "engine_ok s"
  shows "\<exists>t. handle_input_event env i e s = Inr t \<and> data_step s t \<and> engine_ok t \<and>
    view t = v_move (e_graph s) (env_now env) (input_names_of s i)
      (\<lambda>_. triggered (occurred_at e) i (event_summary e)) (view s)"
proof -
  let ?now = "env_now env" and ?ns = "input_names_of s i"
  let ?s1 = "append_event_e ?now InputEventKind (Some i) None (event_summary e) s"
  have d1: "data_step s ?s1" and ok1: "engine_ok ?s1" and v1: "view ?s1 = view s"
    and l1: "latch_rec ?s1 = latch_rec s" using ok by simp_all
  note fields = data_step_fields [OF d1]
  show ?thesis
  proof (cases "rules_for_input (e_graph s) i = []")
    case True
    then have "outputs_affected_by (e_graph s) ?ns = []"
      by (simp add: outputs_affected_by_def sorted_set_def input_names_of_def)
    then have "v_move (e_graph s) ?now ?ns (\<lambda>_. triggered (occurred_at e) i (event_summary e)) (view s) = view s"
      using True by (simp add: v_move_def v_synced_def input_names_of_def)
    with True d1 ok1 v1 show ?thesis by (simp add: handle_input_event_def transaction_def Let_def)
  next
    case False
    have "set (rules_for_input (e_graph s) i) \<subseteq> graph_members (e_graph s)"
      using graph.for_input_law [OF engine_okD(3) [OF ok]] by auto
    from rows_of_names [OF ok this]
    have rows: "\<forall>r \<in> set ?ns. dict_get (db_rules (e_db ?s1)) r \<noteq> None"
      by (simp add: input_names_of_def fields(13))
    have d: "distinct ?ns" unfolding input_names_of_def by (rule distinct_rules_for(1) [OF engine_okD(3) [OF ok]])
    let ?g = "\<lambda>_. triggered (occurred_at e) i (event_summary e)"
    obtain t u where t: "run_steps (apply_trigger ?now (occurred_at e) i (event_summary e)) ?ns ?s1 = Inr t"
      "e_graph t = e_graph ?s1" "u = sync_outputs ?now (outputs_affected_by (e_graph ?s1) ?ns) t"
      and u: "data_step ?s1 u" "engine_ok u"
        "view u = v_synced (e_graph ?s1) ?now (set (outputs_affected_by (e_graph ?s1) ?ns))
           ((view ?s1)\<lparr>v_latch := (\<lambda>r. if r \<in> set ?ns then ?g r (latch_rec ?s1 r) else latch_rec ?s1 r)\<rparr>)"
      by (rule move_refines [OF apply_trigger_step ok1 d rows])
    have "handle_input_event env i e s = Inr u"
      using False t by (simp add: handle_input_event_def transaction_def Let_def input_names_of_def fields(1))
    moreover have "view u = v_move (e_graph s) ?now ?ns ?g (view s)"
      by (simp only: u(3) v1 l1 fields(1) v_move_def view_sel)
    ultimately show ?thesis using u(1,2) data_step_trans [OF d1 u(1)] by blast
  qed
qed

end
