(* ===== verification/Engine_Handlers.thy ===== *)
theory Engine_Handlers
  imports Engine_Events
begin

text \<open>
  Specifications and refinement proofs of the remaining handlers: unlatch requests, push
  results, reload, health polling, reconciliation and its retries, and the dispatch of due
  pushes.
\<close>

section \<open>What a handler leaves alone\<close>

definition core_frame :: "engine \<Rightarrow> engine \<Rightarrow> bool" where
  "core_frame s t \<longleftrightarrow> e_graph t = e_graph s \<and> e_plugins t = e_plugins s \<and> e_settings t = e_settings s \<and>
     e_queue t = e_queue s \<and> e_stopping t = e_stopping s \<and> e_acknowledged t = e_acknowledged s \<and>
     e_ready t = e_ready s \<and> e_heartbeat t = e_heartbeat s \<and>
     db_rules (e_db t) = db_rules (e_db s)"

lemma core_frame_refl [simp]: "core_frame s s"
  by (simp add: core_frame_def)

lemma core_frame_trans: "core_frame s t \<Longrightarrow> core_frame t u \<Longrightarrow> core_frame s u"
  by (simp add: core_frame_def)

lemma data_step_frame: "data_step s t \<Longrightarrow> core_frame s t"
  by (simp add: core_frame_def data_step_fields)

lemma core_frame_in_flight [simp]: "core_frame s (s\<lparr>e_in_flight := F\<rparr>)"
  by (simp add: core_frame_def)

lemma schedule_facts [simp]:
  "core_frame s (schedule now d m s)" "view (schedule now d m s) = view s"
  "engine_ok (schedule now d m s) = engine_ok s" "e_db (schedule now d m s) = e_db s"
  "latch_rec (schedule now d m s) = latch_rec s"
  by (simp_all add: schedule_def core_frame_def view_def engine_ok_def latch_rec_def fun_eq_iff)

lemma other_fields_facts [simp]:
  "view (s\<lparr>e_stopping := b\<rparr>) = view s" "engine_ok (s\<lparr>e_stopping := b\<rparr>) = engine_ok s"
  "view (s\<lparr>e_ready := b\<rparr>) = view s" "engine_ok (s\<lparr>e_ready := b\<rparr>) = engine_ok s"
  "view (s\<lparr>e_queue := q\<rparr>) = view s" "engine_ok (s\<lparr>e_queue := q\<rparr>) = engine_ok s"
  "view (s\<lparr>e_timers := ts\<rparr>) = view s" "engine_ok (s\<lparr>e_timers := ts\<rparr>) = engine_ok s"
  "view (s\<lparr>e_heartbeat := h\<rparr>) = view s" "engine_ok (s\<lparr>e_heartbeat := h\<rparr>) = engine_ok s"
  "view (s\<lparr>e_dispatched := ds\<rparr>) = view s" "engine_ok (s\<lparr>e_dispatched := ds\<rparr>) = engine_ok s"
  "view (s\<lparr>e_last_seen_written_at := w\<rparr>) = view s"
  "engine_ok (s\<lparr>e_last_seen_written_at := w\<rparr>) = engine_ok s"
  by (simp_all add: view_def engine_ok_def latch_rec_def fun_eq_iff)

lemma in_flight_facts [simp]:
  "view (s\<lparr>e_in_flight := F\<rparr>) = view s" "engine_ok (s\<lparr>e_in_flight := F\<rparr>) = engine_ok s"
  "latch_rec (s\<lparr>e_in_flight := F\<rparr>) = latch_rec s"
  by (simp_all add: view_def engine_ok_def latch_rec_def fun_eq_iff)

section \<open>Unlatch requests\<close>

definition cleared :: "time \<Rightarrow> name \<Rightarrow> latch_record \<Rightarrow> latch_record" where
  "cleared now i l = l\<lparr>lr_state := False, lr_cleared_at := Some now, lr_last_cause := Some i\<rparr>"

lemma clear_latch_step: "latch_step (clear_latch now i cause) (\<lambda>_. cleared now i)"
  unfolding latch_step_def
proof (intro allI impI)
  fix s r
  assume ok: "engine_ok s" and row: "dict_get (db_rules (e_db s)) r \<noteq> None"
  have rl: "lr_rule (cleared now i (latch_rec s r)) = r"
    using lr_rule_latch_rec [OF ok] by (simp add: cleared_def)
  from latch_write_step [OF ok row rl, of now LatchCleared "Some i" "Some r" cause]
  show "\<exists>t. clear_latch now i cause r s = Inr t \<and> data_step s t \<and> engine_ok t \<and>
      view t = (view s)\<lparr>v_latch := (latch_rec s)(r := cleared now i (latch_rec s r))\<rparr>"
    by (simp add: clear_latch_def cleared_def Let_def)
qed

definition output_names_of :: "engine \<Rightarrow> name \<Rightarrow> name list" where
  "output_names_of s i = map rule_name (rules_for_output (e_graph s) i)"

definition clear_if_set :: "time \<Rightarrow> name \<Rightarrow> name \<Rightarrow> latch_record \<Rightarrow> latch_record" where
  "clear_if_set now i r l = (if lr_state l then cleared now i l else l)"

definition v_unlatch :: "rule_graph \<Rightarrow> time \<Rightarrow> name \<Rightarrow> view \<Rightarrow> view" where
  "v_unlatch g now i v =
     (let names = map rule_name (rules_for_output g i) in
      if list_ex (\<lambda>r. lr_state (v_latch v r)) names then v_move g now names (clear_if_set now i) v else v)"

lemma handle_unlatch_refines:
  assumes ok: "engine_ok s"
  shows "\<exists>t. handle_unlatch env i cause s = Inr t \<and> data_step s t \<and> engine_ok t \<and>
    view t = v_unlatch (e_graph s) (env_now env) i (view s)"
proof -
  let ?now = "env_now env" and ?rs = "rules_for_output (e_graph s) i"
  let ?ns = "map rule_name ?rs" and ?set = "filter (\<lambda>r. lr_state (latch_rec s (rule_name r))) ?rs"
  let ?s0 = "fold (ensure_latch \<circ> rule_name) ?rs s"
  have d0: "data_step s ?s0" and ok0: "engine_ok ?s0" using ok by simp_all
  note fields = data_step_fields [OF d0]
  show ?thesis
  proof (cases "?set = []")
    case True
    then have "\<not> list_ex (\<lambda>r. lr_state (latch_rec s r)) ?ns" by (auto simp: list_ex_iff filter_empty_conv)
    moreover have "handle_unlatch env i cause s = Inr (append_event_e ?now UnlatchIgnored (Some i) None cause ?s0)"
      using True by (simp add: handle_unlatch_def transaction_def Let_def)
    ultimately show ?thesis
      using ok0 data_step_trans [OF d0 append_event_e_facts(1)] by (simp add: v_unlatch_def Let_def)
  next
    case False
    let ?ms = "map rule_name ?set"
    have "set ?set \<subseteq> graph_members (e_graph s)"
      using graph.for_output_law [OF engine_okD(3) [OF ok]] by auto
    from rows_of_names [OF ok this]
    have rows: "\<forall>r \<in> set ?ms. dict_get (db_rules (e_db ?s0)) r \<noteq> None" by simp
    have d: "distinct ?ms"
      using distinct_rules_for(2) [OF engine_okD(3) [OF ok]] by (rule distinct_map_filter)
    obtain t u where t: "run_steps (clear_latch ?now i cause) ?ms ?s0 = Inr t" "e_graph t = e_graph ?s0"
      "u = sync_outputs ?now (outputs_affected_by (e_graph ?s0) ?ns) t"
      and u: "data_step ?s0 u" "engine_ok u"
        "view u = v_synced (e_graph ?s0) ?now (set (outputs_affected_by (e_graph ?s0) ?ns))
          ((view ?s0)\<lparr>v_latch := (\<lambda>r. if r \<in> set ?ms then cleared ?now i (latch_rec ?s0 r) else latch_rec ?s0 r)\<rparr>)"
      by (rule move_refines [OF clear_latch_step ok0 d rows])
    have "handle_unlatch env i cause s = Inr u"
      using False t by (simp add: handle_unlatch_def transaction_def Let_def fields(1))
    moreover have "list_ex (\<lambda>r. lr_state (latch_rec s r)) ?ns"
      using False by (auto simp: list_ex_iff filter_empty_conv)
    moreover have "(\<lambda>r. if r \<in> set ?ms then cleared ?now i (latch_rec s r) else latch_rec s r) =
        (\<lambda>r. if r \<in> set ?ns then clear_if_set ?now i r (latch_rec s r) else latch_rec s r)"
      by (auto simp: clear_if_set_def fun_eq_iff)
    moreover have "view u = v_synced (e_graph s) ?now (set (outputs_affected_by (e_graph s) ?ns))
        ((view s)\<lparr>v_latch := (\<lambda>r. if r \<in> set ?ms then cleared ?now i (latch_rec s r) else latch_rec s r)\<rparr>)"
      by (simp only: u(3) fold_ensure_facts(2) view_ensure fields(1))
    ultimately have "view u = v_unlatch (e_graph s) ?now i (view s)"
      unfolding v_unlatch_def v_move_def Let_def view_sel by (simp only: if_True)
    with \<open>handle_unlatch env i cause s = Inr u\<close> show ?thesis
      using u(2) data_step_trans [OF d0 u(1)] by blast
  qed
qed

section \<open>Push results\<close>

definition attempts_after :: "pending_push option \<Rightarrow> int" where
  "attempts_after existing = (case existing of None \<Rightarrow> 1 | Some p \<Rightarrow> pp_attempts p + 1)"

definition v_push_result ::
  "rule_graph \<Rightarrow> daemon_settings \<Rightarrow> time \<Rightarrow> name \<Rightarrow> bool \<Rightarrow> bool \<Rightarrow> string option \<Rightarrow> view \<Rightarrow> view result" where
  "v_push_result g st now i value succeeded err v =
     (if succeeded then Inr (v_synced g now {i} (v\<lparr>v_applied := (v_applied v)(i := Some value)\<rparr>))
      else let attempts = attempts_after (v_pending v i) in
        case backoff_seconds st attempts of
          Inl x \<Rightarrow> Inl x
        | Inr delay \<Rightarrow> Inr (v_synced g now {i} (v\<lparr>v_pending := (v_pending v)(i :=
             Some \<lparr>pp_instance = i, pp_target = value, pp_attempts = attempts,
                   pp_next_attempt_at = now + timedelta_us delay, pp_last_error = err\<rparr>)\<rparr>)))"

lemma handle_push_result_refines:
  assumes ok: "engine_ok s"
  shows "case v_push_result (e_graph s) (e_settings s) (env_now env) i value succeeded err (view s) of
      Inl x \<Rightarrow> handle_push_result env i value succeeded err s = Inl (x, e_db s)
    | Inr v \<Rightarrow> \<exists>t. handle_push_result env i value succeeded err s = Inr t \<and>
        data_step (s\<lparr>e_in_flight := e_in_flight s - {i}\<rparr>) t \<and> engine_ok t \<and> view t = v"
proof -
  let ?now = "env_now env" and ?s0 = "s\<lparr>e_in_flight := e_in_flight s - {i}\<rparr>"
  have finish: "\<exists>t. (Inr (sync_outputs ?now [i] s1) :: engine outcome) = Inr t \<and> data_step ?s0 t \<and>
      engine_ok t \<and> view t = v_synced (e_graph s) ?now {i} V"
    if "data_step ?s0 s1" "engine_ok s1" "view s1 = V" for s1 V
    using sync_outputs_facts [OF that(2), of ?now "[i]"] data_step_trans [OF that(1)]
      data_step_fields(1) [OF that(1)] that(3) by simp
  show ?thesis
  proof (cases succeeded)
    case True
    let ?r = "\<lparr>os_instance = i, os_last_applied = Some value, os_last_confirmed = Some value, os_last_sync_at = Some ?now\<rparr>"
    let ?s1 = "append_event_e ?now OutputPushSucceeded (Some i) None (''value='' @ py_bool value)
      (?s0\<lparr>e_db := write_output_state (e_db s) ?r\<rparr>)"
    have ok1: "engine_ok (?s0\<lparr>e_db := write_output_state (e_db s) ?r\<rparr>)"
      by (rule engine_ok_db_update) (use ok in \<open>simp_all add: engine_okD(1)\<close>)
    have d: "data_step ?s0 ?s1" by (rule data_step_trans [OF data_step_db append_event_e_facts(1)]) simp
    have o1: "engine_ok ?s1" using ok1 by simp
    have v: "view ?s1 = (view s)\<lparr>v_applied := (v_applied (view s))(i := Some value)\<rparr>"
      by (simp add: view_db_update)
    have h: "handle_push_result env i value succeeded err s = Inr (sync_outputs ?now [i] ?s1)"
      using True by (simp add: handle_push_result_def transaction_def Let_def)
    show ?thesis
      unfolding v_push_result_def h using finish [OF d o1 v] True by (simp only: if_True sum.case)
  next
    case False
    let ?n = "attempts_after (pending_push_of (e_db s) i)"
    show ?thesis
    proof (cases "backoff_seconds (e_settings s) ?n")
      case (Inl x)
      with False show ?thesis
        by (simp add: v_push_result_def handle_push_result_def transaction_def Let_def
            record_push_failure_def attempts_after_def)
    next
      case (Inr delay)
      let ?p = "\<lparr>pp_instance = i, pp_target = value, pp_attempts = ?n,
        pp_next_attempt_at = ?now + timedelta_us delay, pp_last_error = err\<rparr>"
      let ?s1 = "append_event_e ?now OutputPushFailed (Some i) None
            (py_strip (''attempt='' @ string_of_int ?n @ '' retry_in='' @ fmt0f delay @ ''s ''
               @ (case err of None \<Rightarrow> [] | Some e \<Rightarrow> e)))
          (?s0\<lparr>e_db := write_pending_push (e_db s) ?p\<rparr>)"
      have ok1: "engine_ok (?s0\<lparr>e_db := write_pending_push (e_db s) ?p\<rparr>)"
        by (rule engine_ok_db_update) (use ok in \<open>simp_all add: engine_okD(1)\<close>)
      have d: "data_step ?s0 ?s1" by (rule data_step_trans [OF data_step_db append_event_e_facts(1)]) simp
      have o1: "engine_ok ?s1" using ok1 by simp
      have v: "view ?s1 = (view s)\<lparr>v_pending := (v_pending (view s))(i := Some ?p)\<rparr>"
        by (simp add: view_db_update)
      have h: "handle_push_result env i value succeeded err s = Inr (sync_outputs ?now [i] ?s1)"
        using False Inr by (simp add: handle_push_result_def transaction_def record_push_failure_def
            attempts_after_def Let_def)
      show ?thesis
        unfolding v_push_result_def h using finish [OF d o1 v] False Inr
        by (simp only: if_False sum.case Let_def view_sel)
    qed
  qed
qed

section \<open>Reload\<close>

lemma map_of_sort_key:
  assumes "dict_ok d"
  shows "dict_get (sort_key f d) k = dict_get d k"
proof -
  have "dict_ok (sort_key f d)" using assms by (simp only: distinct_map_sort_key)
  then have "dict_get (sort_key f d) k = Some v \<longleftrightarrow> dict_get d k = Some v" for v
    using assms by (simp only: dict_get_mem [symmetric]) simp
  then show ?thesis by (cases "dict_get d k") auto
qed

lemma reload_latches_rec:
  assumes "db_ok (e_db s)"
  shows "latch_rec (reload_latches s) = db_latch (e_db s)"
proof -
  let ?d = "db_latches (e_db s)"
  have ok: "dict_ok ?d" and key: "\<And>r l. dict_get ?d r = Some l \<Longrightarrow> lr_rule l = r"
    using assms by (auto simp: db_ok_def latch_def)
  have "map (\<lambda>r. (lr_rule r, r)) (latches (e_db s)) = sort_key fst ?d"
    unfolding latches_def map_map
    by (rule map_idI) (use ok key in \<open>auto simp flip: dict_get_mem [OF ok]\<close>)
  then show ?thesis
    by (simp add: reload_latches_def latch_rec_def db_latch_def latch_def map_of_sort_key [OF ok] fun_eq_iff)
qed

text \<open>
  A configuration the running engine may adopt: keyed as the loader keys it, with every
  enabled rule mirrored into the database before the message is sent.
\<close>

definition mirrored :: "db \<Rightarrow> configuration \<Rightarrow> bool" where
  "mirrored d c \<longleftrightarrow> config_keyed c \<and> (\<forall>r \<in> set (enabled_rules c). dict_get (db_rules d) (rc_name r) \<noteq> None)"

lemma members_configuration:
  assumes "config_keyed c"
  shows "graph_members (graph_from_configuration c) = set (rules_of_configuration c)"
  using distinct_enabled_rules [OF assms]
  by (simp add: graph_from_configuration_def graph_members_graph rules_of_configuration_def comp_def)

lemma handle_reload_refines:
  assumes ok: "engine_ok s" and mir: "mirrored (e_db s) c"
  defines "g \<equiv> graph_from_configuration c"
  shows "\<exists>t. handle_reload env c ps ack s = Inr t \<and> engine_ok t \<and> e_graph t = g \<and>
    e_plugins t = (case ps of None \<Rightarrow> e_plugins s | Some p \<Rightarrow> p) \<and> e_settings t = e_settings s \<and>
    e_queue t = e_queue s \<and> e_stopping t = e_stopping s \<and> e_heartbeat t = e_heartbeat s \<and>
    e_in_flight t = e_in_flight s \<and>
    e_dispatched t = e_dispatched s \<and> e_timers t = e_timers s \<and>
    e_acknowledged t = e_acknowledged s @ [ack] \<and> db_rules (e_db t) = db_rules (e_db s) \<and>
    view t = v_synced g (env_now env) (set (output_names (e_graph s)) \<union> set (output_names g)) (view s)"
proof -
  let ?p = "(case ps of None \<Rightarrow> e_plugins s | Some p \<Rightarrow> p)"
  let ?s2 = "reload_latches (s\<lparr>e_plugins := ?p, e_graph := g\<rparr>)"
  have ok2: "engine_ok ?s2"
  proof -
    have "latch_rec ?s2 = db_latch (e_db s)"
      using reload_latches_rec [of "s\<lparr>e_plugins := ?p, e_graph := g\<rparr>"] engine_okD(1) [OF ok] by simp
    moreover have "graph_ok g" "graph_members g = set (rules_of_configuration c)"
      using mir by (auto simp: mirrored_def g_def graph_ok_configuration members_configuration)
    ultimately show ?thesis
      using mir engine_okD(1) [OF ok]
      by (auto simp: engine_ok_def reload_latches_def mirrored_def rules_of_configuration_def)
  qed
  let ?x = "string_of_nat (length (c_rules c)) @ '' rules, '' @ string_of_nat (length (c_instances c)) @ '' instances''"
  let ?s3 = "append_event_e (env_now env) ConfigLoaded None None ?x ?s2"
  have ok3: "engine_ok ?s3" using ok2 by simp
  have "latch_rec ?s2 = latch_rec s"
    using reload_latches_rec [of "s\<lparr>e_plugins := ?p, e_graph := g\<rparr>"] engine_okD(1,2) [OF ok] by simp
  moreover have "e_db ?s2 = e_db s" by (simp add: reload_latches_def)
  ultimately have "view ?s2 = view s" by (simp only: view_def)
  then have v3: "view ?s3 = view s" by (simp only: append_event_e_facts(3))
  have f3: "e_graph ?s3 = g" "e_plugins ?s3 = ?p" "e_settings ?s3 = e_settings s" "e_queue ?s3 = e_queue s"
    "e_stopping ?s3 = e_stopping s" "e_heartbeat ?s3 = e_heartbeat s" "e_in_flight ?s3 = e_in_flight s" "e_dispatched ?s3 = e_dispatched s"
    "e_timers ?s3 = e_timers s" "e_acknowledged ?s3 = e_acknowledged s" "db_rules (e_db ?s3) = db_rules (e_db s)"
    by (simp_all add: append_event_e_def reload_latches_def)
  let ?aff = "sorted_set (output_names (e_graph s) @ output_names g)"
  let ?s4 = "sync_outputs (env_now env) ?aff ?s3"
  have s4: "data_step ?s3 ?s4" "engine_ok ?s4" "view ?s4 = v_synced g (env_now env) (set ?aff) (view s)"
    using sync_outputs_facts [OF ok3, of "env_now env" ?aff] v3 f3(1) by auto
  have h: "handle_reload env c ps ack s = Inr (?s4\<lparr>e_acknowledged := e_acknowledged ?s4 @ [ack]\<rparr>)"
    by (cases ps) (simp_all add: handle_reload_def Let_def g_def append_event_e_def reload_latches_def)
  have "engine_ok (?s4\<lparr>e_acknowledged := A\<rparr>) = engine_ok ?s4" "view (?s4\<lparr>e_acknowledged := A\<rparr>) = view ?s4" for A
    by (simp_all add: engine_ok_def view_def latch_rec_def fun_eq_iff)
  with h s4 f3 data_step_fields [OF s4(1)] show ?thesis by simp
qed

section \<open>Health\<close>

lemma fold_record_health:
  "engine_ok s \<Longrightarrow> data_step s (fold (\<lambda>i. record_health now i (h i)) is s) \<and>
     engine_ok (fold (\<lambda>i. record_health now i (h i)) is s) \<and>
     view (fold (\<lambda>i. record_health now i (h i)) is s) = view s"
proof (induction "is" arbitrary: s)
  case Nil
  then show ?case by simp
next
  case (Cons i "is")
  let ?u = "record_health now i (h i) s"
  have "data_step s ?u" "view ?u = view s" by (simp_all add: record_health_def view_def)
  moreover have "engine_ok ?u"
    unfolding record_health_def by (rule engine_ok_db_update) (use Cons.prems in \<open>simp_all add: engine_okD(1)\<close>)
  ultimately show ?case using Cons.IH [of ?u] data_step_trans by fastforce
qed

lemma handle_poll_health_refines:
  assumes ok: "engine_ok s"
  shows "\<exists>t. handle_poll_health env s = Inr t \<and> core_frame s t \<and> engine_ok t \<and> view t = view s \<and>
    e_in_flight t = e_in_flight s \<and> e_dispatched t = e_dispatched s \<and>
    snd ` set (e_timers t) = insert PollHealthMessage (snd ` set (e_timers s))"
proof -
  let ?now = "env_now env"
  let ?s1 = "fold (\<lambda>i. record_health ?now i (ask_health (env_input_health env i))) (ps_inputs (e_plugins s)) s"
  let ?s2 = "fold (\<lambda>i. record_health ?now i (ask_health (env_output_health env i))) (ps_outputs (e_plugins s)) ?s1"
  have 1: "data_step s ?s1" "engine_ok ?s1" "view ?s1 = view s"
    using fold_record_health [OF ok, of ?now "\<lambda>i. ask_health (env_input_health env i)" "ps_inputs (e_plugins s)"] by auto
  have 2: "data_step ?s1 ?s2" "engine_ok ?s2" "view ?s2 = view s"
    using fold_record_health [OF 1(2), of ?now "\<lambda>i. ask_health (env_output_health env i)" "ps_outputs (e_plugins s)"] 1 by auto
  have d: "data_step s ?s2" using 1 2 data_step_trans by blast
  show ?thesis
    using 2 core_frame_trans [OF data_step_frame [OF d] schedule_facts(1)] data_step_fields [OF d]
    by (simp add: handle_poll_health_def Let_def) (simp add: schedule_def)
qed

end
