(* ===== verification/Engine_Dispatch.thy ===== *)
theory Engine_Dispatch
  imports Engine_Handlers
begin

text \<open>
  Startup reconciliation, its retries, and the dispatch of due pushes: specifications on the
  view and refinement proofs, and what an update handed to an output says.
\<close>

section \<open>Reconciling a rule\<close>

definition outcome_latch :: "reconcile_outcome \<Rightarrow> int \<Rightarrow> latch_record \<Rightarrow> latch_record" where
  "outcome_latch out extra l = l\<lparr>lr_state := ro_state out, lr_set_at := ro_set_at out,
     lr_cleared_at := ro_cleared_at out, lr_trigger_count := lr_trigger_count l + extra\<rparr>"

lemma outcome_latch_rule [simp]: "lr_rule (outcome_latch out extra l) = lr_rule l"
  "lr_state (outcome_latch out extra l) = ro_state out"
  by (simp_all add: outcome_latch_def)

lemma apply_outcome_step:
  assumes ok: "engine_ok s" and row: "dict_get (db_rules (e_db s)) r \<noteq> None"
  shows "\<exists>t. apply_reconcile_outcome now r out extra s = Inr t \<and> data_step s t \<and> engine_ok t \<and>
    view t = (view s)\<lparr>v_latch := (latch_rec s)(r := outcome_latch out extra (latch_rec s r))\<rparr>"
proof -
  let ?l = "outcome_latch out extra (latch_rec s r)"
  have def: "apply_reconcile_outcome now r out extra s =
      (case (if ?l \<noteq> latch_rec s r then write_latch_e ?l (ensure_latch r s) else Inr (ensure_latch r s)) of
        Inl x \<Rightarrow> Inl x
      | Inr s1 \<Rightarrow> Inr (append_event_e now Reconciled None (Some r)
           (''state='' @ py_bool (ro_state out) @ '' reason='' @ reason_text (ro_reason out)) s1))"
    unfolding apply_reconcile_outcome_def outcome_latch_def Let_def ..
  show ?thesis
  proof (cases "?l = latch_rec s r")
    case True
    have "data_step s (append_event_e now k i q x (ensure_latch r s))" for k i q x
      using ensure_latch_facts(3) append_event_e_facts(1) by (rule data_step_trans)
    moreover have "view s = (view s)\<lparr>v_latch := (latch_rec s)(r := ?l)\<rparr>"
      using True by (simp add: view_def)
    ultimately show ?thesis using ok unfolding def by (simp add: True)
  next
    case False
    have "lr_rule ?l = r" using lr_rule_latch_rec [OF ok] by simp
    from latch_write_step [OF ok row this] False show ?thesis unfolding def by simp
  qed
qed

definition retried :: "time \<Rightarrow> remote_state \<Rightarrow> latch_record \<Rightarrow> latch_record" where
  "retried now st l = outcome_latch (resolve_rule now l None [st]) 0 l"

lemma reconcile_retry_step: "latch_step (reconcile_retry_rule now st) (\<lambda>_. retried now st)"
  unfolding latch_step_def
proof (intro allI impI)
  fix s r
  assume ok: "engine_ok s" and row: "dict_get (db_rules (e_db s)) r \<noteq> None"
  obtain t where "reconcile_retry_rule now st r s = Inr t" "data_step (ensure_latch r s) t" "engine_ok t"
    "view t = (view s)\<lparr>v_latch := (latch_rec s)(r := retried now st (latch_rec s r))\<rparr>"
    using apply_outcome_step [OF engine_ok_ensure [OF ok], of r r now "resolve_rule now (latch_rec s r) None [st]" 0] row
    by (auto simp: reconcile_retry_rule_def retried_def)
  then show "\<exists>t. reconcile_retry_rule now st r s = Inr t \<and> data_step s t \<and> engine_ok t \<and>
      view t = (view s)\<lparr>v_latch := (latch_rec s)(r := retried now st (latch_rec s r))\<rparr>"
    using data_step_trans [OF ensure_latch_facts(3)] by blast
qed

lemma handle_reconcile_retry_refines:
  assumes ok: "engine_ok s" and live: "i \<in> set (ps_outputs (e_plugins s))"
    and known: "belief (query_output env i) \<noteq> Unknown"
  shows "\<exists>t. handle_reconcile_retry env i n s = Inr t \<and> data_step s t \<and> engine_ok t \<and>
    view t = v_move (e_graph s) (env_now env) (output_names_of s i)
      (\<lambda>_. retried (env_now env) (query_output env i)) (view s)"
proof -
  let ?ns = "output_names_of s i"
  have "set (rules_for_output (e_graph s) i) \<subseteq> graph_members (e_graph s)"
    using graph.for_output_law [OF engine_okD(3) [OF ok]] by auto
  then have rows: "\<forall>r \<in> set ?ns. dict_get (db_rules (e_db s)) r \<noteq> None"
    unfolding output_names_of_def by (rule rows_of_names [OF ok])
  have d: "distinct ?ns"
    unfolding output_names_of_def by (rule distinct_rules_for(2) [OF engine_okD(3) [OF ok]])
  obtain t u where t: "run_steps (reconcile_retry_rule (env_now env) (query_output env i)) ?ns s = Inr t"
    "e_graph t = e_graph s" "u = sync_outputs (env_now env) (outputs_affected_by (e_graph s) ?ns) t"
    and u: "data_step s u" "engine_ok u"
      "view u = v_synced (e_graph s) (env_now env) (set (outputs_affected_by (e_graph s) ?ns))
         ((view s)\<lparr>v_latch := (\<lambda>r. if r \<in> set ?ns then retried (env_now env) (query_output env i) (latch_rec s r)
            else latch_rec s r)\<rparr>)"
    by (rule move_refines [OF reconcile_retry_step ok d rows])
  have "handle_reconcile_retry env i n s = Inr u"
    using t live known by (simp add: handle_reconcile_retry_def transaction_def output_names_of_def Let_def)
  with u show ?thesis by (simp add: v_move_def cong: if_cong)
qed

lemma handle_reconcile_retry_unknown:
  assumes "i \<in> set (ps_outputs (e_plugins s))" "belief (query_output env i) = Unknown"
  shows "handle_reconcile_retry env i n s =
    (if n < 1024 then Inr (schedule (env_now env)
         (min (reconcile_retry_initial_seconds * 2 ^ n) reconcile_retry_max_seconds)
         (ReconcileOutputMessage i (n + 1)) s)
     else Inl (OverflowError, e_db s))"
  using assms by (simp add: handle_reconcile_retry_def retry_delay_def float_pow2_def Let_def)

lemma handle_reconcile_retry_gone:
  "i \<notin> set (ps_outputs (e_plugins s)) \<Longrightarrow> handle_reconcile_retry env i n s = Inr s"
  by (simp add: handle_reconcile_retry_def)

section \<open>Catching up\<close>

text \<open>Events caught up with late are ordinary events, applied one after the other.\<close>

definition v_events ::
  "rule_graph \<Rightarrow> time \<Rightarrow> name \<Rightarrow> observed_event list \<Rightarrow> view \<Rightarrow> view" where
  "v_events g now i es v = fold (\<lambda>e. v_move g now (map rule_name (rules_for_input g i))
     (\<lambda>_. triggered (occurred_at e) i (event_summary e))) es v"

lemma run_input_events:
  "engine_ok s \<Longrightarrow> \<exists>t. run_steps (handle_input_event env i) es s = Inr t \<and> data_step s t \<and> engine_ok t \<and>
     view t = v_events (e_graph s) (env_now env) i es (view s)"
proof (induction es arbitrary: s)
  case Nil
  then show ?case by (simp add: v_events_def)
next
  case (Cons e es)
  obtain u where u: "handle_input_event env i e s = Inr u" "data_step s u" "engine_ok u"
    "view u = v_move (e_graph s) (env_now env) (input_names_of s i)
       (\<lambda>_. triggered (occurred_at e) i (event_summary e)) (view s)"
    using handle_input_event_refines [OF Cons.prems] by blast
  obtain t where t: "run_steps (handle_input_event env i) es u = Inr t" "data_step u t" "engine_ok t"
    "view t = v_events (e_graph u) (env_now env) i es (view u)"
    using Cons.IH [OF u(3)] by blast
  have "view t = v_events (e_graph s) (env_now env) i (e # es) (view s)"
    using t(4) u(4) data_step_fields(1) [OF u(2)] by (simp add: v_events_def input_names_of_def)
  then show ?case using t u data_step_trans by (metis run_steps.simps(2) sum.case(2))
qed

lemma handle_catch_up_retry_cases:
  "handle_catch_up_retry env i n since s =
     (if i \<notin> set (ps_inputs (e_plugins s)) then Inr s
      else case env_catch_up env i since of
          Inr es \<Rightarrow> run_steps (handle_input_event env i) es s
        | Inl _ \<Rightarrow> if n < 1024 then Inr (schedule (env_now env)
             (min (reconcile_retry_initial_seconds * 2 ^ n) reconcile_retry_max_seconds)
             (CatchUpMessage i (n + 1) since) s)
           else Inl (OverflowError, e_db s))"
  by (simp add: handle_catch_up_retry_def retry_delay_def float_pow2_def split: sum.split)

section \<open>What an update says\<close>

lemma newest_of_props:
  "newest_of l ls \<in> insert l (set ls) \<and>
   (\<forall>m \<in> insert l (set ls). \<forall>u. lr_set_at m = Some u \<longrightarrow> (\<exists>t. lr_set_at (newest_of l ls) = Some t \<and> u \<le> t))"
proof (induction ls arbitrary: l)
  case Nil
  then show ?case by simp
next
  case (Cons m ls)
  let ?k = "if is_newer (lr_set_at m) (lr_set_at l) then m else l"
  have k: "\<forall>x \<in> {l, m}. \<forall>u. lr_set_at x = Some u \<longrightarrow> (\<exists>t. lr_set_at ?k = Some t \<and> u \<le> t)"
    by (cases "lr_set_at l"; cases "lr_set_at m") (auto simp: is_newer_def)
  have IH: "newest_of ?k ls \<in> insert ?k (set ls)"
    "\<And>x u. x \<in> insert ?k (set ls) \<Longrightarrow> lr_set_at x = Some u \<Longrightarrow>
       \<exists>t. lr_set_at (newest_of ?k ls) = Some t \<and> u \<le> t"
    using Cons.IH [of ?k] by blast+
  have "\<exists>t. lr_set_at (newest_of ?k ls) = Some t \<and> u \<le> t"
    if x: "x \<in> insert l (set (m # ls))" "lr_set_at x = Some u" for x u
  proof (cases "x \<in> set ls")
    case True
    then show ?thesis using IH(2) x(2) by blast
  next
    case False
    then have "x \<in> {l, m}" using x(1) by auto
    then obtain t where t: "lr_set_at ?k = Some t" "u \<le> t" using k x(2) by blast
    then obtain t' where "lr_set_at (newest_of ?k ls) = Some t'" "t \<le> t'" using IH(2) [of ?k t] by blast
    then show ?thesis using t(2) by force
  qed
  moreover have "newest_of l (m # ls) = newest_of ?k ls" by simp
  ultimately show ?case using IH(1) by (auto split: if_splits)
qed

definition driving :: "rule_graph \<Rightarrow> (name \<Rightarrow> latch_record) \<Rightarrow> name \<Rightarrow> latch_record list" where
  "driving g L i = filter lr_state (map (L \<circ> rule_name) (rules_for_output g i))"

definition v_update :: "rule_graph \<Rightarrow> (name \<Rightarrow> latch_record) \<Rightarrow> name \<Rightarrow> output_update" where
  "v_update g L i = (case driving g L i of [] \<Rightarrow> update_off False
     | d # ds \<Rightarrow> \<lparr>ou_state = True,
         ou_cause = (case lr_last_cause (newest_of d (d # ds)) of None \<Rightarrow> [] | Some c \<Rightarrow> c),
         ou_detail = (case lr_last_detail (newest_of d (d # ds)) of None \<Rightarrow> [] | Some c \<Rightarrow> c),
         ou_trigger_count = sum_list (map lr_trigger_count (d # ds)),
         ou_rules = sort (map lr_rule (d # ds)),
         ou_since = lr_set_at (newest_of d (d # ds))\<rparr>)"

lemma driving_Nil: "graph_ok g \<Longrightarrow> driving g L i = [] \<longleftrightarrow> \<not> v_desired g L i"
  by (auto simp: driving_def v_desired_def filter_empty_conv graph.for_output_law)

lemma build_update_facts:
  assumes ok: "engine_ok s"
  shows "fst (build_update i (desired_state s i) s) = v_update (e_graph s) (latch_rec s) i \<and>
    data_step s (snd (build_update i b s)) \<and> engine_ok (snd (build_update i b s)) \<and>
    view (snd (build_update i b s)) = view s"
proof -
  note g = engine_okD(3) [OF ok]
  have "fst (build_update i (desired_state s i) s) = v_update (e_graph s) (latch_rec s) i"
  proof (cases "desired_state s i")
    case False
    then have "driving (e_graph s) (latch_rec s) i = []"
      by (simp add: driving_Nil [OF g] desired_state_view [OF g])
    with False show ?thesis by (simp add: build_update_def v_update_def)
  next
    case True
    then have "driving (e_graph s) (latch_rec s) i \<noteq> []"
      by (simp add: driving_Nil [OF g] desired_state_view [OF g])
    with True show ?thesis
      by (auto simp: build_update_def v_update_def driving_def Let_def split: list.split)
  qed
  moreover have "data_step s (snd (build_update i b s)) \<and> engine_ok (snd (build_update i b s)) \<and>
      view (snd (build_update i b s)) = view s"
    using ok by (auto simp: build_update_def Let_def split: list.split)
  ultimately show ?thesis by blast
qed

lemma v_update_state: "graph_ok g \<Longrightarrow> ou_state (v_update g L i) = v_desired g L i"
  using driving_Nil [of g L i] by (auto simp: v_update_def update_off_def split: list.split)

section \<open>Dispatching due pushes\<close>

definition v_dispatch ::
  "rule_graph \<Rightarrow> name set \<Rightarrow> name set \<Rightarrow> name set \<Rightarrow> view \<Rightarrow> view" where
  "v_dispatch g in_flight live due v = v\<lparr>v_pending := (\<lambda>i.
     if i \<in> due \<and> i \<notin> in_flight
     then (if i \<in> live
           then map_option (\<lambda>p. p\<lparr>pp_target := v_desired g (v_latch v) i\<rparr>) (v_pending v i) else None)
     else v_pending v i)\<rparr>"

lemma dispatch_one_facts:
  fixes p :: pending_push
  defines "i \<equiv> pp_instance p"
  assumes ok: "engine_ok s" and stored: "pending_push_of (e_db s) i = Some p"
  obtains t where
    "dispatch_one p (s, rd) = (t, rd @ (if i \<notin> e_in_flight s \<and> i \<in> set (ps_outputs (e_plugins s))
       then [(i, v_update (e_graph s) (latch_rec s) i)] else []))"
    "data_step s t" "engine_ok t"
    "view t = v_dispatch (e_graph s) (e_in_flight s) (set (ps_outputs (e_plugins s))) {i} (view s)"
proof -
  note d = desired_state_view [OF engine_okD(3) [OF ok]]
  consider (busy) "i \<in> e_in_flight s" | (gone) "i \<notin> e_in_flight s" "i \<notin> set (ps_outputs (e_plugins s))"
    | (live) "i \<notin> e_in_flight s" "i \<in> set (ps_outputs (e_plugins s))" by blast
  then show thesis
  proof cases
    case busy
    have "v_dispatch (e_graph s) (e_in_flight s) (set (ps_outputs (e_plugins s))) {i} (view s) = view s"
      using busy by (auto simp: v_dispatch_def intro!: view.equality)
    then show thesis using that [of s] busy ok by (simp add: dispatch_one_def flip: i_def)
  next
    case gone
    let ?t = "s\<lparr>e_db := delete_pending_push (e_db s) i\<rparr>"
    have "engine_ok ?t" by (rule engine_ok_db_update) (use ok in \<open>simp_all add: engine_okD(1)\<close>)
    moreover have "data_step s ?t" by simp
    moreover have "view ?t = v_dispatch (e_graph s) (e_in_flight s) (set (ps_outputs (e_plugins s))) {i} (view s)"
      using gone by (auto simp: v_dispatch_def view_db_update view_def)
    ultimately show thesis using that [of ?t] gone by (simp add: dispatch_one_def flip: i_def)
  next
    case live
    let ?d = "desired_state s i"
    let ?s1 = "if ?d \<noteq> pp_target p
      then s\<lparr>e_db := write_pending_push (e_db s) (p\<lparr>pp_target := ?d\<rparr>)\<rparr> else s"
    have 1: "engine_ok ?s1" "data_step s ?s1" "e_graph ?s1 = e_graph s" "latch_rec ?s1 = latch_rec s"
      "desired_state ?s1 i = ?d"
      using ok by (auto simp: engine_okD(1) desired_state_def latch_states_def intro!: engine_ok_db_update)
    have v1: "view ?s1 = v_dispatch (e_graph s) (e_in_flight s) (set (ps_outputs (e_plugins s))) {i} (view s)"
      using live stored by (auto simp: v_dispatch_def view_db_update view_def d fun_eq_iff i_def)
    let ?t = "snd (build_update i ?d ?s1)"
    note b = build_update_facts [OF 1(1), of i, unfolded 1]
    have "dispatch_one p (s, rd) = (?t, rd @ [(i, fst (build_update i ?d ?s1))])"
      using live by (simp add: dispatch_one_def Let_def case_prod_beta flip: i_def)
    then show thesis
      using that [of ?t] live b v1 data_step_trans [OF 1(2)] by simp
  qed
qed

definition to_dispatch :: "engine \<Rightarrow> name list \<Rightarrow> name list" where
  "to_dispatch s = filter (\<lambda>i. i \<notin> e_in_flight s \<and> i \<in> set (ps_outputs (e_plugins s)))"

lemma dispatch_fold_facts:
  "engine_ok s \<Longrightarrow> distinct (map pp_instance ps) \<Longrightarrow>
   \<forall>p \<in> set ps. pending_push_of (e_db s) (pp_instance p) = Some p \<Longrightarrow>
   \<exists>t. fold dispatch_one ps (s, rd) = (t, rd @ map (\<lambda>i. (i, v_update (e_graph s) (latch_rec s) i))
         (to_dispatch s (map pp_instance ps))) \<and>
     data_step s t \<and> engine_ok t \<and>
     view t = v_dispatch (e_graph s) (e_in_flight s) (set (ps_outputs (e_plugins s)))
       (pp_instance ` set ps) (view s)"
proof (induction ps arbitrary: s rd)
  case Nil
  have "v_dispatch g F P {} v = v" for g F P v
    by (simp add: v_dispatch_def)
  with Nil show ?case by (simp add: to_dispatch_def)
next
  case (Cons p ps)
  let ?i = "pp_instance p" and ?g = "e_graph s" and ?F = "e_in_flight s" and ?O = "set (ps_outputs (e_plugins s))"
  have stored: "pending_push_of (e_db s) ?i = Some p" using Cons.prems(3) by simp
  obtain u where u: "dispatch_one p (s, rd) = (u, rd @ (if ?i \<notin> ?F \<and> ?i \<in> ?O
       then [(?i, v_update ?g (latch_rec s) ?i)] else []))"
    "data_step s u" "engine_ok u" "view u = v_dispatch ?g ?F ?O {?i} (view s)"
    by (rule dispatch_one_facts [OF Cons.prems(1) stored])
  note f = data_step_fields [OF u(2)]
  have lu: "latch_rec u = latch_rec s" and pu: "pending_push_of (e_db u) =
      v_pending (v_dispatch ?g ?F ?O {?i} (view s))"
    using arg_cong [OF u(4), of v_latch] arg_cong [OF u(4), of v_pending]
    by (simp_all add: v_dispatch_def)
  have "\<forall>q \<in> set ps. pending_push_of (e_db u) (pp_instance q) = Some q"
    using Cons.prems(2,3) by (auto simp: pu v_dispatch_def image_iff)
  moreover have "distinct (map pp_instance ps)" using Cons.prems(2) by simp
  ultimately obtain t where t:
    "fold dispatch_one ps (u, rd @ (if ?i \<notin> ?F \<and> ?i \<in> ?O then [(?i, v_update ?g (latch_rec s) ?i)] else []))
      = (t, (rd @ (if ?i \<notin> ?F \<and> ?i \<in> ?O then [(?i, v_update ?g (latch_rec s) ?i)] else []))
          @ map (\<lambda>i. (i, v_update ?g (latch_rec s) i)) (to_dispatch u (map pp_instance ps)))"
    "data_step u t" "engine_ok t"
    "view t = v_dispatch ?g ?F ?O (pp_instance ` set ps) (view u)"
    using Cons.IH [OF u(3), of "rd @ (if ?i \<notin> ?F \<and> ?i \<in> ?O then [(?i, v_update ?g (latch_rec s) ?i)] else [])"]
    unfolding f lu by blast
  have "view t = v_dispatch ?g ?F ?O (pp_instance ` set (p # ps)) (view s)"
    using Cons.prems(2) unfolding t(4) u(4) by (auto simp: v_dispatch_def fun_eq_iff image_iff)
  with t u(1) data_step_trans [OF u(2)] show ?case
    by (auto simp: to_dispatch_def f)
qed

lemma fold_start_push:
  "fold start_push rd s = s\<lparr>e_in_flight := e_in_flight s \<union> fst ` set rd, e_dispatched := e_dispatched s @ rd\<rparr>"
  by (induction rd arbitrary: s) (auto simp: start_push_def split: prod.split)

definition due_names :: "engine \<Rightarrow> time \<Rightarrow> name list" where
  "due_names s now = map pp_instance (pending_pushes_due (e_db s) now)"

lemma dispatch_due_pushes_facts:
  fixes now :: time
  assumes ok: "engine_ok s"
  defines "sent \<equiv> to_dispatch s (due_names s now)"
  shows "\<exists>d l. dispatch_due_pushes now s = s\<lparr>e_db := d, e_latches := l,
      e_in_flight := e_in_flight s \<union> set sent,
      e_dispatched := e_dispatched s @ map (\<lambda>i. (i, v_update (e_graph s) (latch_rec s) i)) sent\<rparr> \<and>
    db_rules d = db_rules (e_db s) \<and> engine_ok (dispatch_due_pushes now s) \<and>
    view (dispatch_due_pushes now s) = v_dispatch (e_graph s) (e_in_flight s)
      (set (ps_outputs (e_plugins s))) (set (due_names s now)) (view s)"
proof -
  let ?due = "pending_pushes_due (e_db s) now"
  have stored: "\<forall>p \<in> set ?due. pending_push_of (e_db s) (pp_instance p) = Some p"
    by (simp add: pending_pushes_due_set [OF engine_okD(1) [OF ok]])
  obtain t where t: "fold dispatch_one ?due (s, []) =
      (t, map (\<lambda>i. (i, v_update (e_graph s) (latch_rec s) i)) sent)"
    "data_step s t" "engine_ok t"
    "view t = v_dispatch (e_graph s) (e_in_flight s) (set (ps_outputs (e_plugins s))) (set (due_names s now)) (view s)"
    using dispatch_fold_facts [OF ok pending_pushes_due_distinct [OF engine_okD(1) [OF ok]] stored, of "[]"]
    unfolding sent_def due_names_def append_Nil set_map by blast
  let ?u = "t\<lparr>e_in_flight := e_in_flight s \<union> set sent,
      e_dispatched := e_dispatched s @ map (\<lambda>i. (i, v_update (e_graph s) (latch_rec s) i)) sent\<rparr>"
  have u: "dispatch_due_pushes now s = ?u"
  proof (cases "?due = []")
    case True
    then have "t = s" "sent = []" using t(1) by (auto simp: sent_def due_names_def to_dispatch_def)
    with True show ?thesis by (simp add: dispatch_due_pushes_def)
  next
    case False
    then show ?thesis
      using t(1) data_step_fields(6,9) [OF t(2)]
      by (simp add: dispatch_due_pushes_def fold_start_push image_image)
  qed
  have eq: "?u = s\<lparr>e_db := e_db t, e_latches := e_latches t, e_in_flight := e_in_flight s \<union> set sent,
      e_dispatched := e_dispatched s @ map (\<lambda>i. (i, v_update (e_graph s) (latch_rec s) i)) sent\<rparr>"
    by (simp add: engine.equality data_step_fields [OF t(2)])
  have o: "engine_ok ?u" and v: "view ?u = v_dispatch (e_graph s) (e_in_flight s)
      (set (ps_outputs (e_plugins s))) (set (due_names s now)) (view s)"
    using t(3) unfolding t(4) [symmetric] by (simp_all add: engine_ok_def view_def latch_rec_def fun_eq_iff)
  show ?thesis
    unfolding u
    by (rule exI [of _ "e_db t"], rule exI [of _ "e_latches t"])
      (intro conjI eq data_step_fields(13) [OF t(2)] o v)
qed

section \<open>Startup reconciliation\<close>

text \<open>What the plugins' answers amount to, apart from the retries they schedule.\<close>

definition downtime_of ::
  "env \<Rightarrow> plugin_set \<Rightarrow> time option \<Rightarrow> name \<Rightarrow> (name, observed_event list) dict \<Rightarrow> (name, observed_event list) dict" where
  "downtime_of env ps since i c = (if i \<notin> set (ps_inputs ps) then c
     else case env_catch_up env i since of Inr es \<Rightarrow> dict_put c i es | Inl _ \<Rightarrow> c)"

definition report_of ::
  "env \<Rightarrow> plugin_set \<Rightarrow> name \<Rightarrow> (name, remote_state) dict \<Rightarrow> (name, remote_state) dict" where
  "report_of env ps i c = (if i \<notin> set (ps_outputs ps) \<or> belief (query_output env i) = Unknown then c
     else dict_put c i (query_output env i))"

definition retry_timers :: "engine \<Rightarrow> engine \<Rightarrow> bool" where
  "retry_timers s t \<longleftrightarrow> (\<exists>T. t = s\<lparr>e_timers := e_timers s @ T\<rparr> \<and>
     (\<forall>m \<in> snd ` set T. case m of CatchUpMessage _ n _ \<Rightarrow> n = 1 | ReconcileOutputMessage _ n \<Rightarrow> n = 1 | _ \<Rightarrow> False))"

lemma retry_timers_refl [simp]: "retry_timers s s"
  unfolding retry_timers_def by (rule exI [of _ "[]"]) simp

lemma retry_timers_schedule [simp]:
  "retry_timers s (schedule now d (CatchUpMessage i 1 since) s)"
  "retry_timers s (schedule now d (ReconcileOutputMessage i 1) s)"
  by (auto simp: retry_timers_def schedule_def)

lemma retry_timers_trans:
  assumes "retry_timers s t" "retry_timers t u"
  shows "retry_timers s u"
proof -
  let ?P = "\<lambda>m. case m of CatchUpMessage _ n _ \<Rightarrow> n = 1 | ReconcileOutputMessage _ n \<Rightarrow> n = 1 | _ \<Rightarrow> False"
  obtain T U where "t = s\<lparr>e_timers := e_timers s @ T\<rparr>" "u = t\<lparr>e_timers := e_timers t @ U\<rparr>"
    "\<forall>m \<in> snd ` set T. ?P m" "\<forall>m \<in> snd ` set U. ?P m"
    using assms unfolding retry_timers_def by blast
  then have "u = s\<lparr>e_timers := e_timers s @ (T @ U)\<rparr> \<and> (\<forall>m \<in> snd ` set (T @ U). ?P m)"
    by (simp only: set_append image_Un ball_Un) simp
  then show ?thesis unfolding retry_timers_def by blast
qed

lemma retry_timers_facts:
  assumes "retry_timers s t"
  shows "core_frame s t" "view t = view s" "engine_ok t = engine_ok s" "e_db t = e_db s" "e_graph t = e_graph s"
    "e_plugins t = e_plugins s" "e_in_flight t = e_in_flight s" "e_dispatched t = e_dispatched s"
  using assms by (auto simp: retry_timers_def core_frame_def view_def engine_ok_def latch_rec_def fun_eq_iff)

lemma collect_downtime_fold:
  "\<exists>t. fold (collect_downtime_one env since) is (s, c) =
      (t, fold (downtime_of env (e_plugins s) since) is c) \<and> retry_timers s t"
proof (induction "is" arbitrary: s c)
  case Nil
  show ?case by simp
next
  case (Cons i "is")
  have "\<exists>t. collect_downtime_one env since i (s, c) = (t, downtime_of env (e_plugins s) since i c) \<and> retry_timers s t"
    by (simp add: collect_downtime_one_def downtime_of_def split: sum.split del: One_nat_def)
  then obtain t where "collect_downtime_one env since i (s, c) = (t, downtime_of env (e_plugins s) since i c)"
    "retry_timers s t" by blast
  with Cons.IH [of t "downtime_of env (e_plugins s) since i c"] show ?case
    using retry_timers_trans [of s t] retry_timers_facts(6) [of s t] by auto
qed

lemma collect_remote_fold:
  "\<exists>t. fold (collect_remote_one env) is (s, c) =
      (t, fold (report_of env (e_plugins s)) is c) \<and> retry_timers s t"
proof (induction "is" arbitrary: s c)
  case Nil
  show ?case by simp
next
  case (Cons i "is")
  have "\<exists>t. collect_remote_one env i (s, c) = (t, report_of env (e_plugins s) i c) \<and> retry_timers s t"
    by (simp add: collect_remote_one_def report_of_def Let_def del: One_nat_def)
  then obtain t where "collect_remote_one env i (s, c) = (t, report_of env (e_plugins s) i c)" "retry_timers s t"
    by blast
  with Cons.IH [of t "report_of env (e_plugins s) i c"] show ?case
    using retry_timers_trans [of s t] retry_timers_facts(6) [of s t] by auto
qed

definition start_latch ::
  "rule_graph \<Rightarrow> time \<Rightarrow> (name, observed_event list) dict \<Rightarrow> (name, remote_state) dict
     \<Rightarrow> name \<Rightarrow> latch_record \<Rightarrow> latch_record" where
  "start_latch g now downtime reports r l =
     (let R = the (dict_get (g_rules g) r); (le, n) = summarize downtime (rule_inputs R) in
      outcome_latch (resolve_rule now l le (List.map_filter (dict_get reports) (rule_outputs R))) n l)"

definition reconcile_named ::
  "rule_graph \<Rightarrow> time \<Rightarrow> (name, observed_event list) dict \<Rightarrow> (name, remote_state) dict
     \<Rightarrow> name \<Rightarrow> engine \<Rightarrow> engine outcome" where
  "reconcile_named g now downtime reports r s =
     (let R = the (dict_get (g_rules g) r); (le, n) = summarize downtime (rule_inputs R) in
      apply_reconcile_outcome now r
        (resolve_rule now (latch_rec s r) le (List.map_filter (dict_get reports) (rule_outputs R))) n
        (ensure_latch r s))"

lemma reconcile_named_step: "latch_step (reconcile_named g now downtime reports) (start_latch g now downtime reports)"
  unfolding latch_step_def
proof (intro allI impI)
  fix s r
  assume ok: "engine_ok s" and row: "dict_get (db_rules (e_db s)) r \<noteq> None"
  let ?R = "the (dict_get (g_rules g) r)"
  let ?out = "resolve_rule now (latch_rec s r) (fst (summarize downtime (rule_inputs ?R)))
      (List.map_filter (dict_get reports) (rule_outputs ?R))"
  have "dict_get (db_rules (e_db (ensure_latch r s))) r \<noteq> None" using row by simp
  from apply_outcome_step [OF engine_ok_ensure [OF ok] this, of now ?out "snd (summarize downtime (rule_inputs ?R))"]
  obtain t where "reconcile_named g now downtime reports r s = Inr t" "data_step (ensure_latch r s) t"
    "engine_ok t" "view t = (view s)\<lparr>v_latch := (latch_rec s)(r := start_latch g now downtime reports r (latch_rec s r))\<rparr>"
    by (auto simp: reconcile_named_def start_latch_def case_prod_beta Let_def)
  then show "\<exists>t. reconcile_named g now downtime reports r s = Inr t \<and> data_step s t \<and> engine_ok t \<and>
      view t = (view s)\<lparr>v_latch := (latch_rec s)(r := start_latch g now downtime reports r (latch_rec s r))\<rparr>"
    using data_step_trans [OF ensure_latch_facts(3)] by blast
qed

lemma reconcile_rules_facts:
  assumes ok: "engine_ok s"
  shows "\<exists>t. run_steps (reconcile_rule now downtime reports) (graph_rules (e_graph s)) s = Inr t \<and>
    data_step s t \<and> engine_ok t \<and>
    view t = (view s)\<lparr>v_latch := (\<lambda>r. if r \<in> set (rule_names (e_graph s))
      then start_latch (e_graph s) now downtime reports r (latch_rec s r) else latch_rec s r)\<rparr>"
proof -
  let ?g = "e_graph s"
  note m = graph_rules_members [OF engine_okD(3) [OF ok]]
  have rows: "\<forall>r \<in> set (rule_names ?g). dict_get (db_rules (e_db s)) r \<noteq> None"
    unfolding m(1) using engine_okD(4) [OF ok] by blast
  have "run_steps (reconcile_rule now downtime reports) (graph_rules ?g) s =
      run_steps (reconcile_named ?g now downtime reports) (rule_names ?g) s"
    unfolding graph_rules_def run_steps_map
    by (rule run_steps_cong) (use m(3) in \<open>simp add: reconcile_rule_def reconcile_named_def Let_def\<close>)
  with run_latch_steps [OF reconcile_named_step ok m(2) rows] show ?thesis by simp
qed

text \<open>The view startup reconciliation leaves, before anything is sent.\<close>

definition v_start ::
  "rule_graph \<Rightarrow> time \<Rightarrow> (name, observed_event list) dict \<Rightarrow> (name, remote_state) dict \<Rightarrow> view \<Rightarrow> view" where
  "v_start g now downtime reports v = v_forced g now (set (output_names g))
     (v\<lparr>v_latch := (\<lambda>r. if r \<in> set (rule_names g)
        then start_latch g now downtime reports r (v_latch v r) else v_latch v r)\<rparr>)"

definition downtime_answers :: "env \<Rightarrow> engine \<Rightarrow> (name, observed_event list) dict" where
  "downtime_answers env s =
     fold (downtime_of env (e_plugins s) (last_seen_at (e_db s))) (input_names (e_graph s)) []"

definition remote_answers :: "env \<Rightarrow> engine \<Rightarrow> (name, remote_state) dict" where
  "remote_answers env s = fold (report_of env (e_plugins s)) (output_names (e_graph s)) []"

lemma reconcile_refines:
  assumes ok: "engine_ok s"
  shows "\<exists>u t. reconcile env s = Inr t \<and> engine_ok u \<and> core_frame s u \<and>
    e_in_flight u = e_in_flight s \<and> e_dispatched u = e_dispatched s \<and>
    view u = v_start (e_graph s) (env_now env) (downtime_answers env s) (remote_answers env s) (view s) \<and>
    t = (dispatch_due_pushes (env_now env) u)\<lparr>e_ready := True\<rparr> \<and>
    retry_timers s (s\<lparr>e_timers := e_timers u\<rparr>)"
proof -
  let ?now = "env_now env" and ?D = "downtime_answers env s" and ?R = "remote_answers env s" and ?g = "e_graph s"
  obtain s1 where c1: "collect_downtime_events env (last_seen_at (e_db s)) s = (s1, ?D)" and r1: "retry_timers s s1"
    using collect_downtime_fold unfolding downtime_answers_def collect_downtime_events_def by blast
  note f1 = retry_timers_facts [OF r1]
  obtain s2 where c2: "collect_remote_states env s1 = (s2, ?R)" and r2: "retry_timers s1 s2"
    using collect_remote_fold [of env "output_names ?g" s1 "[]"]
    unfolding remote_answers_def collect_remote_states_def f1 by blast
  note f2 = retry_timers_facts [OF r2]
  let ?s3 = "append_event_e ?now DaemonStarted None None [] s2"
  have ok3: "engine_ok ?s3" and v3: "view ?s3 = view s" and d3: "data_step s2 ?s3"
    using ok f1 f2 by simp_all
  have l3: "latch_rec ?s3 = latch_rec s" using arg_cong [OF v3, of v_latch] by (simp only: view_sel)
  have g3: "e_graph ?s3 = ?g" using data_step_fields(1) [OF d3] f1 f2 by simp
  obtain s4 where s4: "run_steps (reconcile_rule ?now ?D ?R) (graph_rules ?g) ?s3 = Inr s4"
    "data_step ?s3 s4" "engine_ok s4" "view s4 = (view s)\<lparr>v_latch := (\<lambda>r. if r \<in> set (rule_names ?g)
      then start_latch ?g ?now ?D ?R r (latch_rec s r) else latch_rec s r)\<rparr>"
    using reconcile_rules_facts [OF ok3, of ?now ?D ?R] unfolding g3 v3 l3 by blast
  have g4: "e_graph s4 = ?g" using data_step_fields(1) [OF s4(2)] g3 by simp
  let ?s5 = "fold (sync_output ?now True) (output_names ?g) s4"
  have s5: "data_step s4 ?s5" "engine_ok ?s5" "view ?s5 = v_start ?g ?now ?D ?R (view s)"
    using force_outputs_facts [OF s4(3), of ?now "output_names ?g"] g4 s4(4)
    by (simp_all add: v_start_def cong: if_cong)
  let ?u = "?s5\<lparr>e_db := write_last_seen_at (e_db ?s5) ?now, e_last_seen_written_at := Some ?now\<rparr>"
  have r: "reconcile env s = Inr ((dispatch_due_pushes ?now ?u)\<lparr>e_ready := True\<rparr>)"
    using f1 f2 c1 c2 s4(1) g3 g4 data_step_fields(1) [OF d3]
    by (simp add: reconcile_def transaction_def Let_def)
  have d: "data_step s2 ?s5" using d3 s4(2) s5(1) data_step_trans by blast
  have "engine_ok (?s5\<lparr>e_db := write_last_seen_at (e_db ?s5) ?now\<rparr>)"
    by (rule engine_ok_db_update) (use s5(2) in \<open>simp_all add: engine_okD(1)\<close>)
  then have "engine_ok ?u" by (simp add: engine_ok_def latch_rec_def fun_eq_iff)
  moreover have "view ?u = view ?s5" by (simp add: view_def latch_rec_def fun_eq_iff)
  moreover have "core_frame s ?u"
    using core_frame_trans [OF core_frame_trans [OF f1(1) f2(1)] data_step_frame [OF d]]
    by (simp add: core_frame_def)
  moreover have "e_in_flight ?u = e_in_flight s" "e_dispatched ?u = e_dispatched s"
    using f1 f2 data_step_fields [OF d] by simp_all
  moreover have "retry_timers s (s\<lparr>e_timers := e_timers ?u\<rparr>)"
    using retry_timers_trans [OF r1 r2] data_step_fields(5) [OF d] by (auto simp: retry_timers_def)
  ultimately show ?thesis using r s5(3) by metis
qed

end
