(* ===== verification/Engine_Invariant.thy ===== *)
theory Engine_Invariant
  imports Engine_Dispatch
begin

text \<open>
  The invariant of the core thread, kept by every handler, by the tick and by every
  iteration of the loop: the cache, the database, the graph and the pending pushes agree.
\<close>

section \<open>The invariant\<close>

text \<open>
  Every output of the graph that has a live instance is settled: it either has a pending
  push of the value its rules call for, or none and that is the value it last confirmed.
\<close>

definition outputs_settled :: "engine \<Rightarrow> bool" where
  "outputs_settled s \<longleftrightarrow>
     (\<forall>i \<in> set (output_names (e_graph s)) \<inter> set (ps_outputs (e_plugins s)). settled s i)"

definition core_inv :: "engine \<Rightarrow> bool" where
  "core_inv s \<longleftrightarrow> engine_ok s \<and> outputs_settled s"

text \<open>A message the engine may be given: a reload carries a configuration already mirrored.\<close>

definition admissible :: "db \<Rightarrow> core_message \<Rightarrow> bool" where
  "admissible d m = (case m of ReloadMessage c _ _ \<Rightarrow> mirrored d c | _ \<Rightarrow> True)"

definition internal :: "core_message \<Rightarrow> bool" where
  "internal m = (case m of ReloadMessage _ _ _ \<Rightarrow> False | _ \<Rightarrow> True)"

lemma internal_admissible: "internal m \<Longrightarrow> admissible d m"
  by (cases m) (simp_all add: internal_def admissible_def)

lemma admissible_rules: "db_rules d = db_rules d' \<Longrightarrow> admissible d m = admissible d' m"
  by (cases m) (simp_all add: admissible_def mirrored_def)

text \<open>What no handler touches, and what it may add to the timers.\<close>

definition handler_frame :: "engine \<Rightarrow> engine \<Rightarrow> bool" where
  "handler_frame s t \<longleftrightarrow> e_queue t = e_queue s \<and> e_settings t = e_settings s \<and>
     db_rules (e_db t) = db_rules (e_db s) \<and> e_dispatched t = e_dispatched s \<and>
     e_in_flight t \<subseteq> e_in_flight s \<and> e_heartbeat t = e_heartbeat s \<and>
     snd ` set (e_timers t) \<subseteq> snd ` set (e_timers s) \<union> Collect internal"

lemma handler_frame_refl [simp]: "handler_frame s s"
  by (simp add: handler_frame_def)

lemma handler_frame_trans: "handler_frame s t \<Longrightarrow> handler_frame t u \<Longrightarrow> handler_frame s u"
  unfolding handler_frame_def by (intro conjI) (simp, simp, simp, simp, blast, simp, blast)

lemma data_step_handler_frame: "data_step s t \<Longrightarrow> handler_frame s t"
  by (simp add: handler_frame_def data_step_fields)

lemma schedule_handler_frame: "internal m \<Longrightarrow> handler_frame s (schedule now d m s)"
  by (auto simp: handler_frame_def schedule_def)

definition kept :: "engine \<Rightarrow> engine outcome \<Rightarrow> bool" where
  "kept s out \<longleftrightarrow> (case out of Inl p \<Rightarrow> p = (OverflowError, e_db s)
     | Inr t \<Rightarrow> core_inv t \<and> handler_frame s t)"

lemma kept_simps [simp]:
  "kept s (Inl p) = (p = (OverflowError, e_db s))"
  "kept s (Inr t) = (core_inv t \<and> handler_frame s t)"
  by (simp_all add: kept_def)

section \<open>Every handler keeps it\<close>

lemma core_invI:
  assumes "engine_ok t" "data_step s t"
    "\<And>i. i \<in> set (output_names (e_graph s)) \<Longrightarrow> i \<in> set (ps_outputs (e_plugins s)) \<Longrightarrow>
       v_settled (e_graph s) (view t) i"
  shows "core_inv t"
  using assms by (auto simp: core_inv_def outputs_settled_def settled_def data_step_fields)

lemma core_inv_move:
  assumes inv: "core_inv s" and step: "data_step s t" "engine_ok t"
    and v: "view t = v_move (e_graph s) now names f (view s)"
  shows "core_inv t"
proof (rule core_invI [OF step(2,1)])
  fix i
  assume "i \<in> set (output_names (e_graph s))" "i \<in> set (ps_outputs (e_plugins s))"
  then have "v_settled (e_graph s) (view s) i"
    using inv by (simp add: core_inv_def outputs_settled_def settled_def)
  then show "v_settled (e_graph s) (view t) i"
    unfolding v by (intro v_settled_move disjI2) (use inv in \<open>simp add: core_inv_def engine_okD(3)\<close>)
qed

lemma core_inv_same_view:
  assumes inv: "core_inv s" and f: "core_frame s t" "engine_ok t" and v: "view t = view s"
  shows "core_inv t"
  using inv f v by (simp add: core_inv_def outputs_settled_def settled_def core_frame_def)

lemma kept_input_event: "core_inv s \<Longrightarrow> kept s (handle_input_event env i e s)"
  using handle_input_event_refines [of s env i e] core_inv_move data_step_handler_frame
  by (fastforce simp: core_inv_def)

lemma run_input_events_kept: "core_inv s \<Longrightarrow> kept s (run_steps (handle_input_event env i) es s)"
proof (induction es arbitrary: s)
  case Nil
  then show ?case by simp
next
  case (Cons e es)
  obtain u where u: "handle_input_event env i e s = Inr u"
    using handle_input_event_refines Cons.prems unfolding core_inv_def by blast
  then have "core_inv u" "handler_frame s u" using kept_input_event [OF Cons.prems, of env i e] by simp_all
  moreover obtain t where "run_steps (handle_input_event env i) es u = Inr t"
    using run_input_events \<open>core_inv u\<close> unfolding core_inv_def by blast
  ultimately show ?case using Cons.IH [of u] u handler_frame_trans [of s u t] by simp
qed

lemma kept_unlatch: 
  assumes inv: "core_inv s"
  shows "kept s (handle_unlatch env i cause s)"
proof -
  obtain t where t: "handle_unlatch env i cause s = Inr t" "data_step s t" "engine_ok t"
    "view t = v_unlatch (e_graph s) (env_now env) i (view s)"
    using handle_unlatch_refines inv unfolding core_inv_def by blast
  have "core_inv t"
  proof (cases "view t = view s")
    case True
    then show ?thesis using core_inv_same_view [OF inv data_step_frame [OF t(2)] t(3)] by simp
  next
    case False
    then have "view t = v_move (e_graph s) (env_now env) (map rule_name (rules_for_output (e_graph s) i))
        (clear_if_set (env_now env) i) (view s)"
      using t(4) by (simp add: v_unlatch_def Let_def split: if_splits)
    then show ?thesis by (rule core_inv_move [OF inv t(2,3)])
  qed
  with t data_step_handler_frame [OF t(2)] show ?thesis by simp
qed

lemma v_settled_synced_one:
  assumes "j \<noteq> i \<Longrightarrow> v_settled g v j" and "\<And>j. j \<noteq> i \<Longrightarrow> v_pending w j = v_pending v j"
    and "\<And>j. j \<noteq> i \<Longrightarrow> v_applied w j = v_applied v j" and "v_latch w = v_latch v"
  shows "v_settled g (v_synced g now {i} w) j"
proof (cases "j = i")
  case True
  then show ?thesis by (simp add: settled_v_synced)
next
  case False
  with assms show ?thesis by (simp add: settled_v_synced_other) (simp add: v_settled_def split: option.splits)
qed

lemma kept_push_result:
  assumes inv: "core_inv s"
  shows "kept s (handle_push_result env i v succeeded err s)"
proof -
  let ?v = "v_push_result (e_graph s) (e_settings s) (env_now env) i v succeeded err (view s)"
  have ok: "engine_ok s" using inv by (simp add: core_inv_def)
  note r = handle_push_result_refines [OF ok, of env i v succeeded err]
  show ?thesis
  proof (cases ?v)
    case (Inl x)
    then have "x = OverflowError"
      by (auto simp: v_push_result_def backoff_seconds_def float_pow2_def Let_def split: if_splits sum.splits)
    with r Inl show ?thesis by simp
  next
    case (Inr w)
    let ?s0 = "s\<lparr>e_in_flight := e_in_flight s - {i}\<rparr>"
    obtain t where t: "handle_push_result env i v succeeded err s = Inr t" "data_step ?s0 t"
      "engine_ok t" "view t = w" using r Inr by auto
    have "v_settled (e_graph s) w j" if "v_settled (e_graph s) (view s) j" for j
      using Inr that
      by (auto simp: v_push_result_def Let_def split: if_splits sum.splits
          intro!: v_settled_synced_one [where v = "view s"])
    then have "core_inv t"
      using inv t by (intro core_invI [of t ?s0]) (auto simp: core_inv_def outputs_settled_def settled_def)
    moreover have "handler_frame s t"
      using data_step_fields [OF t(2)] by (auto simp: handler_frame_def)
    ultimately show ?thesis using t(1) by simp
  qed
qed

lemma kept_reload:
  assumes inv: "core_inv s" and mir: "mirrored (e_db s) c"
  shows "kept s (handle_reload env c ps ack s)"
proof -
  let ?g = "graph_from_configuration c"
  obtain t where t: "handle_reload env c ps ack s = Inr t" "engine_ok t" "e_graph t = ?g"
      "e_settings t = e_settings s" "e_queue t = e_queue s" "e_heartbeat t = e_heartbeat s" "e_in_flight t = e_in_flight s"
      "e_dispatched t = e_dispatched s" "e_timers t = e_timers s" "db_rules (e_db t) = db_rules (e_db s)"
      "view t = v_synced ?g (env_now env) (set (output_names (e_graph s)) \<union> set (output_names ?g)) (view s)"
    using handle_reload_refines [of s c env ps ack] inv mir unfolding core_inv_def by blast
  have "core_inv t"
    using t by (auto simp: core_inv_def outputs_settled_def settled_def settled_v_synced)
  with t show ?thesis by (simp add: handler_frame_def)
qed

lemma kept_poll_health:
  assumes inv: "core_inv s"
  shows "kept s (handle_poll_health env s)"
proof -
  obtain t where t: "handle_poll_health env s = Inr t" "core_frame s t" "engine_ok t" "view t = view s"
      "e_in_flight t = e_in_flight s" "e_dispatched t = e_dispatched s"
      "snd ` set (e_timers t) = insert PollHealthMessage (snd ` set (e_timers s))"
    using handle_poll_health_refines inv unfolding core_inv_def by blast
  moreover have "internal PollHealthMessage" by (simp add: internal_def)
  ultimately show ?thesis
    using core_inv_same_view [OF inv t(2-4)] by (auto simp: handler_frame_def core_frame_def)
qed

lemma core_inv_schedule: "core_inv s \<Longrightarrow> core_inv (schedule now d m s)"
  by (rule core_inv_same_view) (auto simp: core_inv_def)

lemma kept_reconcile_retry:
  assumes inv: "core_inv s"
  shows "kept s (handle_reconcile_retry env i n s)"
proof -
  have ok: "engine_ok s" using inv by (simp add: core_inv_def)
  consider (gone) "i \<notin> set (ps_outputs (e_plugins s))"
    | (unknown) "i \<in> set (ps_outputs (e_plugins s))" "belief (query_output env i) = Unknown"
    | (known) "i \<in> set (ps_outputs (e_plugins s))" "belief (query_output env i) \<noteq> Unknown" by blast
  then show ?thesis
  proof cases
    case gone
    then show ?thesis using inv by (simp add: handle_reconcile_retry_gone)
  next
    case unknown
    then show ?thesis
      using inv by (simp add: handle_reconcile_retry_unknown core_inv_schedule schedule_handler_frame internal_def)
  next
    case known
    from handle_reconcile_retry_refines [OF ok this, of n]
    show ?thesis using core_inv_move [OF inv] data_step_handler_frame by fastforce
  qed
qed

lemma kept_catch_up_retry: "core_inv s \<Longrightarrow> kept s (handle_catch_up_retry env i n since s)"
  by (auto simp: handle_catch_up_retry_cases run_input_events_kept core_inv_schedule schedule_handler_frame
      internal_def split: sum.split)

lemma kept_handle:
  assumes inv: "core_inv s" and adm: "admissible (e_db s) m"
  shows "kept s (handle env m s)"
proof (cases m)
  case (ReloadMessage c ps ack)
  then show ?thesis using adm inv by (simp add: handle_def admissible_def kept_reload)
next
  case ShutdownMessage
  have "core_inv (s\<lparr>e_stopping := True\<rparr>)"
    using inv by (simp add: core_inv_def outputs_settled_def settled_def)
  moreover have "handler_frame s (s\<lparr>e_stopping := True\<rparr>)" by (simp add: handler_frame_def)
  ultimately show ?thesis using ShutdownMessage by (simp add: handle_def)
qed (simp_all add: handle_def inv kept_input_event kept_unlatch kept_push_result kept_reconcile_retry
    kept_catch_up_retry kept_poll_health)

section \<open>Sequences of messages\<close>

interpretation engine_steps: step_system "handle env" "\<lambda>m s. admissible (e_db s) m" core_inv
  for env
proof unfold_locales
  fix s t :: engine and m m' :: core_message
  assume a: "core_inv s" "admissible (e_db s) m" "handle env m s = Inr t"
  then have "core_inv t" "handler_frame s t" using kept_handle [OF a(1,2), of env] by simp_all
  then show "core_inv t" "admissible (e_db s) m' \<Longrightarrow> admissible (e_db t) m'"
    using admissible_rules [of "e_db t" "e_db s"] by (auto simp: handler_frame_def)
qed

lemma handle_frame:
  "core_inv s \<Longrightarrow> admissible (e_db s) m \<Longrightarrow> handle env m s = Inr t \<Longrightarrow> handler_frame s t"
  using kept_handle [of s m env] by simp

lemma run_handlers_frame:
  "core_inv s \<Longrightarrow> \<forall>m \<in> set ms. admissible (e_db s) m \<Longrightarrow> run_steps (handle env) ms s = Inr t \<Longrightarrow> handler_frame s t"
proof (induction ms arbitrary: s)
  case Nil
  then show ?case by simp
next
  case (Cons m ms)
  from Cons.prems(3) obtain u where u: "handle env m s = Inr u" "run_steps (handle env) ms u = Inr t"
    by (auto split: sum.splits)
  have f: "handler_frame s u" "core_inv u"
    using kept_handle [OF Cons.prems(1), of m env] u(1) Cons.prems(2) by simp_all
  then have "\<forall>m \<in> set ms. admissible (e_db u) m"
    using Cons.prems(2) admissible_rules [of "e_db u" "e_db s"] by (simp add: handler_frame_def)
  from handler_frame_trans [OF f(1) Cons.IH [OF f(2) this u(2)]] show ?case .
qed

text \<open>
  The only exception a sequence of messages can end in is the overflow of a retry delay,
  and what is on disk then is the state after a prefix of the messages.
\<close>

lemma run_handlers_raise:
  "core_inv s \<Longrightarrow> \<forall>m \<in> set ms. admissible (e_db s) m \<Longrightarrow> run_steps (handle env) ms s = Inl (x, d) \<Longrightarrow>
   x = OverflowError \<and> (\<exists>n u. n < length ms \<and> run_steps (handle env) (take n ms) s = Inr u \<and> core_inv u \<and> d = e_db u)"
proof (induction ms arbitrary: s)
  case Nil
  then show ?case by simp
next
  case (Cons m ms)
  have k: "kept s (handle env m s)" using kept_handle Cons.prems(1,2) by simp
  show ?case
  proof (cases "handle env m s")
    case (Inl p)
    with k Cons.prems show ?thesis by (intro conjI exI [of _ 0]) auto
  next
    case (Inr u)
    with k have u: "core_inv u" "handler_frame s u" by simp_all
    then have "\<forall>m \<in> set ms. admissible (e_db u) m"
      using Cons.prems(2) admissible_rules [of "e_db u" "e_db s"] by (simp add: handler_frame_def)
    with Cons.IH [OF u(1)] Cons.prems(3) Inr obtain n w where "x = OverflowError" "n < length ms"
      "run_steps (handle env) (take n ms) u = Inr w" "core_inv w" "d = e_db w" by auto
    with Inr show ?thesis by (intro conjI exI [of _ "Suc n"] exI [of _ w]) auto
  qed
qed

section \<open>The tick and the loop\<close>

lemma v_settled_dispatch:
  "i \<in> live \<Longrightarrow> v_settled g v i \<Longrightarrow> v_settled g (v_dispatch g F live due v) i"
  by (auto simp: v_settled_def v_dispatch_def split: option.splits)

lemma core_inv_dispatch:
  assumes inv: "core_inv s"
  shows "core_inv (dispatch_due_pushes now s)"
proof -
  have ok: "engine_ok s" using inv by (simp add: core_inv_def)
  let ?t = "dispatch_due_pushes now s"
  from dispatch_due_pushes_facts [OF ok, of now]
  have t: "engine_ok ?t" "e_graph ?t = e_graph s" "e_plugins ?t = e_plugins s"
    "view ?t = v_dispatch (e_graph s) (e_in_flight s) (set (ps_outputs (e_plugins s))) (set (due_names s now)) (view s)"
    by (auto intro: arg_cong [where f = e_graph, THEN trans] arg_cong [where f = e_plugins, THEN trans])
  with inv show ?thesis
    by (auto simp: core_inv_def outputs_settled_def settled_def v_settled_dispatch)
qed

definition loop_inv :: "engine \<Rightarrow> bool" where
  "loop_inv s \<longleftrightarrow> core_inv s \<and> (\<forall>m \<in> set (e_queue s) \<union> snd ` set (e_timers s). admissible (e_db s) m)"

lemma core_inv_fields [simp]:
  "core_inv (s\<lparr>e_queue := q\<rparr>) = core_inv s" "core_inv (s\<lparr>e_timers := ts\<rparr>) = core_inv s"
  "core_inv (s\<lparr>e_heartbeat := h\<rparr>) = core_inv s" "core_inv (s\<lparr>e_ready := b\<rparr>) = core_inv s"
  "core_inv (s\<lparr>e_last_seen_written_at := w\<rparr>) = core_inv s" "core_inv (s\<lparr>e_stopping := b\<rparr>) = core_inv s"
  by (simp_all add: core_inv_def outputs_settled_def settled_def)

lemma core_inv_last_seen [simp]:
  assumes "core_inv s"
  shows "core_inv (s\<lparr>e_db := write_last_seen_at (e_db s) t\<rparr>)"
proof (rule core_inv_same_view [OF assms])
  have ok: "engine_ok s" using assms by (simp add: core_inv_def)
  show "engine_ok (s\<lparr>e_db := write_last_seen_at (e_db s) t\<rparr>)"
    by (rule engine_ok_db_update) (use ok in \<open>simp_all add: engine_okD(1)\<close>)
qed (simp_all add: core_frame_def view_db_update view_def)

lemma core_inv_maybe_last_seen: "core_inv s \<Longrightarrow> core_inv (maybe_write_last_seen now s)"
proof -
  assume "core_inv s"
  then have "core_inv ((s\<lparr>e_db := write_last_seen_at (e_db s) now\<rparr>)\<lparr>e_last_seen_written_at := Some now\<rparr>)"
    by (simp only: core_inv_fields core_inv_last_seen)
  with \<open>core_inv s\<close> show ?thesis by (simp add: maybe_write_last_seen_def)
qed

lemma dispatch_fields:
  assumes "engine_ok s"
  shows "e_queue (dispatch_due_pushes now s) = e_queue s" "e_timers (dispatch_due_pushes now s) = e_timers s"
    "db_rules (e_db (dispatch_due_pushes now s)) = db_rules (e_db s)"
    "e_stopping (dispatch_due_pushes now s) = e_stopping s" "e_graph (dispatch_due_pushes now s) = e_graph s"
    "e_plugins (dispatch_due_pushes now s) = e_plugins s" "e_settings (dispatch_due_pushes now s) = e_settings s"
proof -
  obtain d l where d: "db_rules d = db_rules (e_db s)"
    and eq: "dispatch_due_pushes now s = s\<lparr>e_db := d, e_latches := l,
      e_in_flight := e_in_flight s \<union> set (to_dispatch s (due_names s now)),
      e_dispatched := e_dispatched s @ map (\<lambda>i. (i, v_update (e_graph s) (latch_rec s) i)) (to_dispatch s (due_names s now))\<rparr>"
    using dispatch_due_pushes_facts [OF assms, of now] by blast
  show "e_queue (dispatch_due_pushes now s) = e_queue s" "e_timers (dispatch_due_pushes now s) = e_timers s"
    "db_rules (e_db (dispatch_due_pushes now s)) = db_rules (e_db s)"
    "e_stopping (dispatch_due_pushes now s) = e_stopping s" "e_graph (dispatch_due_pushes now s) = e_graph s"
    "e_plugins (dispatch_due_pushes now s) = e_plugins s" "e_settings (dispatch_due_pushes now s) = e_settings s"
    by (simp_all add: eq d)
qed

end
