(* ===== verification/Storage_Mirror.thy ===== *)
theory Storage_Mirror
  imports Storage Config_Data
begin

text \<open>
  The half of \<open>storage.py\<close> that mirrors the configuration into the database and the two
  maintenance operations on the mirror: \<open>sync_instances\<close>, \<open>sync_rules\<close>, the listings,
  \<open>rename_rule\<close> and \<open>purge_orphans\<close>; and the mirroring step of the runtime. Each operation
  is one transaction, so an exception leaves the database as it was.
\<close>

section \<open>Mirroring\<close>

definition upsert_instance :: "instance_record \<Rightarrow> db \<Rightarrow> db" where
  "upsert_instance r d = d\<lparr>db_instances := dict_put (db_instances d) (ir_name r) (r\<lparr>ir_orphaned := False\<rparr>)\<rparr>"

definition orphan_instance :: "name \<Rightarrow> db \<Rightarrow> db" where
  "orphan_instance n d = (case dict_get (db_instances d) n of None \<Rightarrow> d
     | Some r \<Rightarrow> d\<lparr>db_instances := dict_put (db_instances d) n (r\<lparr>ir_orphaned := True\<rparr>)\<rparr>)"

definition sync_instances :: "db \<Rightarrow> instance_record list \<Rightarrow> db \<times> name list" where
  "sync_instances d rs =
     (let present = map ir_name rs;
          d1 = fold upsert_instance rs d;
          adopted = dict_keys (filter (\<lambda>p. \<not> ir_orphaned (snd p)) (db_instances d1));
          newly_orphaned = filter (\<lambda>n. n \<notin> set present) adopted in
      (fold orphan_instance newly_orphaned d1, newly_orphaned))"

definition upsert_rule :: "rule_record \<Rightarrow> db \<Rightarrow> db" where
  "upsert_rule r d = d\<lparr>db_rules := dict_put (db_rules d) (rr_name r)
     \<lparr>row_enabled = rr_enabled r, row_orphaned = False\<rparr>\<rparr>"

definition insert_latch_or_ignore :: "name \<Rightarrow> db \<Rightarrow> db" where
  "insert_latch_or_ignore r d = (case latch d r of Some _ \<Rightarrow> d
     | None \<Rightarrow> d\<lparr>db_latches := dict_put (db_latches d) r (fresh_latch r)\<rparr>)"

definition delete_members :: "name \<Rightarrow> db \<Rightarrow> db" where
  "delete_members r d = d\<lparr>db_rule_inputs := filter (\<lambda>p. fst p \<noteq> r) (db_rule_inputs d),
     db_rule_outputs := filter (\<lambda>p. fst p \<noteq> r) (db_rule_outputs d)\<rparr>"

text \<open>The primary key of a member table refuses a pair that is already there.\<close>

definition insert_member :: "name \<Rightarrow> name \<Rightarrow> (name \<times> name) list \<Rightarrow> exn + (name \<times> name) list" where
  "insert_member r i ps = (if (r, i) \<in> set ps then Inl IntegrityError else Inr (ps @ [(r, i)]))"

definition sync_rule :: "rule_record \<Rightarrow> db \<times> name list \<Rightarrow> exn + db \<times> name list" where
  "sync_rule r = (\<lambda>(d, readopted).
     let readopted' = (case dict_get (db_rules d) (rr_name r) of
            Some row \<Rightarrow> if row_orphaned row then readopted @ [rr_name r] else readopted
          | None \<Rightarrow> readopted);
         d1 = delete_members (rr_name r) (insert_latch_or_ignore (rr_name r) (upsert_rule r d)) in
     case run_steps (insert_member (rr_name r)) (rr_inputs r) (db_rule_inputs d1) of
       Inl x \<Rightarrow> Inl x
     | Inr ins \<Rightarrow>
         (case run_steps (insert_member (rr_name r)) (rr_outputs r) (db_rule_outputs d1) of
            Inl x \<Rightarrow> Inl x
          | Inr outs \<Rightarrow> Inr (d1\<lparr>db_rule_inputs := ins, db_rule_outputs := outs\<rparr>, readopted')))"

definition orphan_rule :: "name \<Rightarrow> db \<Rightarrow> db" where
  "orphan_rule n d = (case dict_get (db_rules d) n of None \<Rightarrow> d
     | Some row \<Rightarrow> d\<lparr>db_rules := dict_put (db_rules d) n (row\<lparr>row_orphaned := True\<rparr>)\<rparr>)"

text \<open>\<open>sync_rules\<close>: the database with the rules newly orphaned and those re-adopted.\<close>

definition sync_rules :: "db \<Rightarrow> rule_record list \<Rightarrow> exn + db \<times> name list \<times> name list" where
  "sync_rules d rs =
     (case run_steps sync_rule rs (d, []) of
        Inl x \<Rightarrow> Inl x
      | Inr (d1, readopted) \<Rightarrow>
          (let adopted = dict_keys (filter (\<lambda>p. \<not> row_orphaned (snd p)) (db_rules d1));
               newly_orphaned = filter (\<lambda>n. n \<notin> set (map rr_name rs)) adopted in
           Inr (fold orphan_rule newly_orphaned d1, newly_orphaned, readopted)))"

section \<open>Listings\<close>

definition members_of :: "(name \<times> name) list \<Rightarrow> name \<Rightarrow> name list" where
  "members_of ps r = map snd (filter (\<lambda>p. fst p = r) (sort_key snd ps))"

definition rules :: "db \<Rightarrow> bool \<Rightarrow> rule_record list" where
  "rules d include_orphaned =
     map (\<lambda>(n, row). \<lparr>rr_name = n, rr_enabled = row_enabled row, rr_orphaned = row_orphaned row,
            rr_inputs = members_of (db_rule_inputs d) n, rr_outputs = members_of (db_rule_outputs d) n\<rparr>)
       (sort_key fst (filter (\<lambda>(_, row). include_orphaned \<or> \<not> row_orphaned row) (db_rules d)))"

definition instances :: "db \<Rightarrow> bool \<Rightarrow> instance_record list" where
  "instances d include_orphaned =
     map snd (sort_key fst (filter (\<lambda>(_, r). include_orphaned \<or> \<not> ir_orphaned r) (db_instances d)))"

section \<open>Maintenance\<close>

text \<open>
  \<open>rename_rule\<close>. The primary keys would refuse a latch or member already under the new
  name; the foreign keys leave none there when there is no such rule.
\<close>

definition rename_pairs :: "name \<Rightarrow> name \<Rightarrow> (name \<times> 'a) list \<Rightarrow> (name \<times> 'a) list" where
  "rename_pairs old new = map (\<lambda>(r, x). (if r = old then new else r, x))"

definition rename_rule :: "db \<Rightarrow> name \<Rightarrow> name \<Rightarrow> db result" where
  "rename_rule d old new =
     (case dict_get (db_rules d) old of
        None \<Rightarrow> Inl (NoSuchRule old)
      | Some row \<Rightarrow>
          if dict_get (db_rules d) new \<noteq> None then Inl (RuleExists new)
          else
            let rules1 = dict_put (db_rules d) new \<lparr>row_enabled = row_enabled row, row_orphaned = False\<rparr>;
                latches1 = map (\<lambda>(r, l). if r = old then (new, l\<lparr>lr_rule := new\<rparr>) else (r, l)) (db_latches d);
                ins = rename_pairs old new (db_rule_inputs d);
                outs = rename_pairs old new (db_rule_outputs d) in
            if \<not> dict_ok latches1 \<or> \<not> distinct ins \<or> \<not> distinct outs then Inl IntegrityError
            else Inr (d\<lparr>db_rules := dict_del rules1 old, db_latches := latches1,
                        db_rule_inputs := ins, db_rule_outputs := outs\<rparr>))"

definition purge_rule :: "name \<Rightarrow> db \<Rightarrow> db" where
  "purge_rule n d = (delete_members n (d\<lparr>db_latches := dict_del (db_latches d) n\<rparr>))
     \<lparr>db_rules := dict_del (db_rules d) n\<rparr>"

definition purge_instance :: "name \<Rightarrow> db \<Rightarrow> db" where
  "purge_instance n d = d\<lparr>
     db_plugin_kv := filter (\<lambda>p. fst (fst p) \<noteq> n) (db_plugin_kv d),
     db_output_state := dict_del (db_output_state d) n,
     db_pending := dict_del (db_pending d) n,
     db_health := dict_del (db_health d) n,
     db_instances := dict_del (db_instances d) n\<rparr>"

definition purge_orphans :: "db \<Rightarrow> db \<times> name list \<times> name list" where
  "purge_orphans d =
     (let purged_rules = sort (dict_keys (filter (\<lambda>p. row_orphaned (snd p)) (db_rules d)));
          purged_instances = sort (dict_keys (filter (\<lambda>p. ir_orphaned (snd p)) (db_instances d))) in
      (fold purge_instance purged_instances (fold purge_rule purged_rules d), purged_rules, purged_instances))"

section \<open>Mirroring a configuration\<close>

text \<open>\<open>Daemon._mirror_configuration\<close>.\<close>

definition instance_records :: "configuration \<Rightarrow> instance_record list" where
  "instance_records c = map (\<lambda>(_, i). \<lparr>ir_name = ic_name i, ir_plugin = ic_plugin i,
     ir_enabled = ic_enabled i, ir_orphaned = False\<rparr>) (c_instances c)"

definition rule_records :: "configuration \<Rightarrow> rule_record list" where
  "rule_records c = map (\<lambda>(_, r). \<lparr>rr_name = rc_name r, rr_enabled = rc_enabled r, rr_orphaned = False,
     rr_inputs = rc_inputs r, rr_outputs = rc_outputs r\<rparr>) (c_rules c)"

definition mirror_configuration :: "db \<Rightarrow> configuration \<Rightarrow> db result" where
  "mirror_configuration d c =
     (case sync_rules (fst (sync_instances d (instance_records c))) (rule_records c) of
        Inl x \<Rightarrow> Inl x
      | Inr (d', _, _) \<Rightarrow> Inr d')"

section \<open>What mirroring leaves alone\<close>

text \<open>
  Mirroring rewrites the configuration tables. Of the state it only ever adds the blank
  latch of a rule that had none, and it removes no rule.
\<close>

definition mirror_step :: "db \<Rightarrow> db \<Rightarrow> bool" where
  "mirror_step d d' \<longleftrightarrow> db_output_state d' = db_output_state d \<and> db_plugin_kv d' = db_plugin_kv d \<and>
     db_pending d' = db_pending d \<and> db_health d' = db_health d \<and> db_event_log d' = db_event_log d \<and>
     db_event_seq d' = db_event_seq d \<and> db_daemon_state d' = db_daemon_state d \<and>
     (\<forall>r. latch d' r = latch d r \<or> latch d r = None \<and> latch d' r = Some (fresh_latch r)) \<and>
     (\<forall>r. dict_get (db_rules d) r \<noteq> None \<longrightarrow> dict_get (db_rules d') r \<noteq> None)"

lemma mirror_step_refl [simp]: "mirror_step d d"
  by (simp add: mirror_step_def)

lemma mirror_step_trans:
  assumes "mirror_step d e" "mirror_step e f"
  shows "mirror_step d f"
proof -
  have "latch f r = latch d r \<or> latch d r = None \<and> latch f r = Some (fresh_latch r)" for r
  proof -
    have "latch e r = latch d r \<or> latch d r = None \<and> latch e r = Some (fresh_latch r)"
      "latch f r = latch e r \<or> latch e r = None \<and> latch f r = Some (fresh_latch r)"
      using assms by (auto simp: mirror_step_def)
    then show ?thesis by auto
  qed
  with assms show ?thesis by (simp add: mirror_step_def)
qed

lemma fold_mirror_step:
  assumes "\<And>x d. db_ok d \<Longrightarrow> mirror_step d (f x d) \<and> db_ok (f x d)"
  shows "db_ok d \<Longrightarrow> mirror_step d (fold f xs d) \<and> db_ok (fold f xs d)"
proof (induction xs arbitrary: d)
  case Nil
  then show ?case by simp
next
  case (Cons x xs)
  with assms [of d x] Cons.IH [of "f x d"] mirror_step_trans show ?case by auto
qed

lemma upsert_instance_step: "db_ok d \<Longrightarrow> mirror_step d (upsert_instance r d) \<and> db_ok (upsert_instance r d)"
  by (auto simp: mirror_step_def upsert_instance_def db_ok_def storage_reads log_ok_def)

lemma orphan_instance_step: "db_ok d \<Longrightarrow> mirror_step d (orphan_instance n d) \<and> db_ok (orphan_instance n d)"
  by (auto simp: mirror_step_def orphan_instance_def db_ok_def storage_reads log_ok_def split: option.split)

lemma upsert_rule_step: "db_ok d \<Longrightarrow> mirror_step d (upsert_rule r d) \<and> db_ok (upsert_rule r d)"
  by (auto simp: mirror_step_def upsert_rule_def db_ok_def storage_reads log_ok_def)

lemma orphan_rule_step: "db_ok d \<Longrightarrow> mirror_step d (orphan_rule n d) \<and> db_ok (orphan_rule n d)"
  by (auto simp: mirror_step_def orphan_rule_def db_ok_def storage_reads log_ok_def split: option.split)

lemma insert_latch_step:
  "db_ok d \<Longrightarrow> dict_get (db_rules d) r \<noteq> None \<Longrightarrow>
   mirror_step d (insert_latch_or_ignore r d) \<and> db_ok (insert_latch_or_ignore r d)"
  by (auto simp: mirror_step_def insert_latch_or_ignore_def db_ok_def storage_reads log_ok_def fresh_latch_def
      split: option.split)

lemma delete_members_step: "db_ok d \<Longrightarrow> mirror_step d (delete_members r d) \<and> db_ok (delete_members r d)"
  by (auto simp: mirror_step_def delete_members_def db_ok_def storage_reads log_ok_def)

lemma sync_instances_step:
  assumes "db_ok d"
  shows "mirror_step d (fst (sync_instances d rs)) \<and> db_ok (fst (sync_instances d rs))"
proof -
  let ?d1 = "fold upsert_instance rs d"
  have 1: "mirror_step d ?d1 \<and> db_ok ?d1" by (rule fold_mirror_step [OF upsert_instance_step assms])
  have "mirror_step ?d1 (fold orphan_instance ns ?d1) \<and> db_ok (fold orphan_instance ns ?d1)" for ns
    by (rule fold_mirror_step [OF orphan_instance_step]) (simp_all add: 1)
  with 1 mirror_step_trans show ?thesis unfolding sync_instances_def Let_def fst_conv by blast
qed

section \<open>Members\<close>

lemma insert_members_Inr:
  "run_steps (insert_member r) is ps = Inr qs \<Longrightarrow> qs = ps @ map (Pair r) is"
  by (induction "is" arbitrary: ps) (fastforce simp: insert_member_def split: if_splits)+

lemma insert_members_ok:
  "distinct is \<Longrightarrow> \<forall>i \<in> set is. (r, i) \<notin> set ps \<Longrightarrow> run_steps (insert_member r) is ps = Inr (ps @ map (Pair r) is)"
proof (induction "is" arbitrary: ps)
  case Nil
  then show ?case by simp
next
  case (Cons i "is")
  have "\<forall>j \<in> set is. (r, j) \<notin> set (ps @ [(r, i)])" using Cons.prems by auto
  then have "run_steps (insert_member r) is (ps @ [(r, i)]) = Inr ((ps @ [(r, i)]) @ map (Pair r) is)"
    using Cons.IH Cons.prems(1) by simp
  then show ?case using Cons.prems(2) by (simp add: insert_member_def [of r i ps])
qed

lemma insert_members_distinct:
  "distinct ps \<Longrightarrow> run_steps (insert_member r) is ps = Inr qs \<Longrightarrow> distinct qs"
proof (induction "is" arbitrary: ps)
  case Nil
  then show ?case by simp
next
  case (Cons i "is")
  then show ?case using Cons.IH [of "ps @ [(r, i)]"] by (simp add: insert_member_def [of r i ps] split: if_splits)
qed

lemma insert_members_raise:
  "run_steps (insert_member r) is ps = Inl x \<Longrightarrow> x = IntegrityError"
  by (induction "is" arbitrary: ps) (auto simp: insert_member_def split: if_splits)

text \<open>The tables a rule is mirrored into, before its members are written.\<close>

definition rule_base :: "rule_record \<Rightarrow> db \<Rightarrow> db" where
  "rule_base r d = delete_members (rr_name r) (insert_latch_or_ignore (rr_name r) (upsert_rule r d))"

lemma rule_base_step:
  assumes "db_ok d"
  shows "mirror_step d (rule_base r d) \<and> db_ok (rule_base r d) \<and>
    db_rules (rule_base r d) = dict_put (db_rules d) (rr_name r) \<lparr>row_enabled = rr_enabled r, row_orphaned = False\<rparr> \<and>
    latch (rule_base r d) (rr_name r) \<noteq> None \<and>
    (\<forall>q. q \<noteq> rr_name r \<longrightarrow> latch (rule_base r d) q = latch d q)"
proof -
  have u: "mirror_step d (upsert_rule r d)" "db_ok (upsert_rule r d)"
    using upsert_rule_step [OF assms] by auto
  have "dict_get (db_rules (upsert_rule r d)) (rr_name r) \<noteq> None" by (simp add: upsert_rule_def)
  note l = insert_latch_step [OF u(2) this]
  note m = delete_members_step [OF conjunct2 [OF l], of "rr_name r"]
  have "mirror_step d (rule_base r d) \<and> db_ok (rule_base r d)"
    unfolding rule_base_def using u l m mirror_step_trans by blast
  moreover have "db_rules (rule_base r d) =
      dict_put (db_rules d) (rr_name r) \<lparr>row_enabled = rr_enabled r, row_orphaned = False\<rparr>"
    by (simp add: rule_base_def delete_members_def insert_latch_or_ignore_def upsert_rule_def split: option.split)
  moreover have "latch (rule_base r d) (rr_name r) \<noteq> None"
    "\<forall>q. q \<noteq> rr_name r \<longrightarrow> latch (rule_base r d) q = latch d q"
    by (simp_all add: rule_base_def delete_members_def insert_latch_or_ignore_def upsert_rule_def latch_def
        split: option.split)
  ultimately show ?thesis by blast
qed

lemma sync_rule_step:
  assumes ok: "db_ok d" and s: "sync_rule r (d, ra) = Inr (d', ra')"
  shows "mirror_step d d' \<and> db_ok d' \<and>
    db_rules d' = dict_put (db_rules d) (rr_name r) \<lparr>row_enabled = rr_enabled r, row_orphaned = False\<rparr> \<and>
    latch d' (rr_name r) \<noteq> None \<and> (\<forall>q. q \<noteq> rr_name r \<longrightarrow> latch d' q = latch d q)"
proof -
  let ?d1 = "rule_base r d"
  note b = rule_base_step [OF ok, of r]
  obtain ins outs where i: "run_steps (insert_member (rr_name r)) (rr_inputs r) (db_rule_inputs ?d1) = Inr ins"
    and o: "run_steps (insert_member (rr_name r)) (rr_outputs r) (db_rule_outputs ?d1) = Inr outs"
    and d': "d' = ?d1\<lparr>db_rule_inputs := ins, db_rule_outputs := outs\<rparr>"
    using s by (auto simp: sync_rule_def rule_base_def Let_def split: sum.splits)
  have okb: "db_ok ?d1" using b by blast
  have old: "\<forall>p \<in> set (db_rule_inputs ?d1) \<union> set (db_rule_outputs ?d1). dict_get (db_rules ?d1) (fst p) \<noteq> None"
    using okb unfolding db_ok_def by blast
  have "dict_get (db_rules ?d1) (rr_name r) \<noteq> None" using b by simp
  moreover have "p \<in> set (db_rule_inputs ?d1) \<union> set (db_rule_outputs ?d1) \<or> fst p = rr_name r"
    if "p \<in> set ins \<union> set outs" for p
    using that unfolding insert_members_Inr [OF i] insert_members_Inr [OF o] by auto
  ultimately have "\<forall>p \<in> set ins \<union> set outs. dict_get (db_rules ?d1) (fst p) \<noteq> None"
    using old by metis
  moreover have "distinct (db_rule_inputs ?d1)" "distinct (db_rule_outputs ?d1)"
    using okb unfolding db_ok_def by blast+
  then have "distinct ins" "distinct outs"
    using insert_members_distinct [OF _ i] insert_members_distinct [OF _ o] by blast+
  ultimately have "db_ok d'" using okb by (simp add: db_ok_def d' storage_reads log_ok_def)
  with b show ?thesis by (simp add: d' mirror_step_def latch_def)
qed

definition was_orphaned :: "db \<Rightarrow> name \<Rightarrow> bool" where
  "was_orphaned d n = (case dict_get (db_rules d) n of None \<Rightarrow> False | Some row \<Rightarrow> row_orphaned row)"

lemma sync_rule_ok:
  assumes "distinct (rr_inputs r)" "distinct (rr_outputs r)"
  shows "\<exists>d'. sync_rule r (d, ra) = Inr (d', if was_orphaned d (rr_name r) then ra @ [rr_name r] else ra)"
proof -
  let ?d1 = "rule_base r d"
  have "run_steps (insert_member (rr_name r)) (rr_inputs r) (db_rule_inputs ?d1) =
      Inr (db_rule_inputs ?d1 @ map (Pair (rr_name r)) (rr_inputs r))"
    "run_steps (insert_member (rr_name r)) (rr_outputs r) (db_rule_outputs ?d1) =
      Inr (db_rule_outputs ?d1 @ map (Pair (rr_name r)) (rr_outputs r))"
    by (rule insert_members_ok; use assms in \<open>auto simp: rule_base_def delete_members_def\<close>)+
  then show ?thesis
    by (simp add: sync_rule_def rule_base_def was_orphaned_def Let_def split: option.split)
qed

lemma run_sync_rules:
  "db_ok d \<Longrightarrow> distinct (map rr_name rs) \<Longrightarrow>
   \<forall>r \<in> set rs. distinct (rr_inputs r) \<and> distinct (rr_outputs r) \<Longrightarrow>
   \<exists>d'. run_steps sync_rule rs (d, ra) = Inr (d', ra @ filter (was_orphaned d) (map rr_name rs)) \<and>
     mirror_step d d' \<and> db_ok d' \<and>
     (\<forall>q. dict_get (db_rules d') q = (if q \<in> set (map rr_name rs)
        then map_option (\<lambda>e. \<lparr>row_enabled = e, row_orphaned = False\<rparr>) (map_of (map (\<lambda>r. (rr_name r, rr_enabled r)) rs) q)
        else dict_get (db_rules d) q)) \<and>
     (\<forall>q. latch d' q = (if latch d q = None \<and> q \<in> set (map rr_name rs) then Some (fresh_latch q) else latch d q))"
proof (induction rs arbitrary: d ra)
  case Nil
  then show ?case by simp
next
  case (Cons r rs)
  let ?ra = "if was_orphaned d (rr_name r) then ra @ [rr_name r] else ra"
  obtain e where e: "sync_rule r (d, ra) = Inr (e, ?ra)" using sync_rule_ok [of r d ra] Cons.prems(3) by auto
  note st = sync_rule_step [OF Cons.prems(1) e]
  have pr: "distinct (map rr_name rs)" "\<forall>r \<in> set rs. distinct (rr_inputs r) \<and> distinct (rr_outputs r)"
    using Cons.prems(2,3) by simp_all
  obtain f where f: "run_steps sync_rule rs (e, ?ra) = Inr (f, ?ra @ filter (was_orphaned e) (map rr_name rs))"
    "mirror_step e f" "db_ok f"
    "\<And>q. dict_get (db_rules f) q = (if q \<in> set (map rr_name rs)
        then map_option (\<lambda>e. \<lparr>row_enabled = e, row_orphaned = False\<rparr>) (map_of (map (\<lambda>r. (rr_name r, rr_enabled r)) rs) q)
        else dict_get (db_rules e) q)"
    "\<And>q. latch f q = (if latch e q = None \<and> q \<in> set (map rr_name rs) then Some (fresh_latch q) else latch e q)"
    using Cons.IH [of e ?ra] st pr by blast
  have "filter (was_orphaned e) (map rr_name rs) = filter (was_orphaned d) (map rr_name rs)"
  proof (rule filter_cong [OF refl])
    fix q
    assume "q \<in> set (map rr_name rs)"
    then have "q \<noteq> rr_name r" using Cons.prems(2) by (metis distinct.simps(2) list.simps(9))
    then show "was_orphaned e q = was_orphaned d q" using st by (simp add: was_orphaned_def)
  qed
  moreover have "mirror_step d f" using st f(2) mirror_step_trans by blast
  moreover have "latch f q = (if latch d q = None \<and> q \<in> set (map rr_name (r # rs)) then Some (fresh_latch q) else latch d q)" for q
  proof (cases "q = rr_name r")
    case True
    have "latch e q = latch d q \<or> latch d q = None \<and> latch e q = Some (fresh_latch q)"
      using st by (simp add: mirror_step_def)
    with True show ?thesis using st f(5) [of q] by auto
  next
    case False
    with st have "latch e q = latch d q" by blast
    with False show ?thesis by (simp add: f(5))
  qed
  moreover have "dict_get (db_rules f) q = (if q \<in> set (map rr_name (r # rs))
      then map_option (\<lambda>e. \<lparr>row_enabled = e, row_orphaned = False\<rparr>) (map_of (map (\<lambda>r. (rr_name r, rr_enabled r)) (r # rs)) q)
      else dict_get (db_rules d) q)" for q
    using st f(4) [of q] Cons.prems(2) by auto
  ultimately show ?case using e f(1,3) by auto
qed

lemma get_fold_orphan:
  "dict_get (db_rules (fold orphan_rule ns d)) q =
     (if q \<in> set ns then map_option (\<lambda>row. row\<lparr>row_orphaned := True\<rparr>) (dict_get (db_rules d) q)
      else dict_get (db_rules d) q)"
proof (induction ns arbitrary: d)
  case Nil
  then show ?case by simp
next
  case (Cons n ns)
  have "dict_get (db_rules (orphan_rule n d)) q =
      (if q = n then map_option (\<lambda>row. row\<lparr>row_orphaned := True\<rparr>) (dict_get (db_rules d) q)
       else dict_get (db_rules d) q)"
    by (auto simp: orphan_rule_def split: option.split)
  with Cons.IH [of "orphan_rule n d"] show ?case by (auto simp: option.map_comp comp_def)
qed

lemma latch_fold_orphan: "latch (fold orphan_rule ns d) = latch d"
proof (induction ns arbitrary: d)
  case (Cons n ns)
  have "latch (orphan_rule n d) = latch d" by (auto simp: orphan_rule_def latch_def split: option.split)
  with Cons show ?case by simp
qed simp

lemma mem_dict_keys_filter:
  assumes "dict_ok d"
  shows "n \<in> set (dict_keys (filter (\<lambda>p. P (snd p)) d)) \<longleftrightarrow> (\<exists>v. dict_get d n = Some v \<and> P v)"
  using dict_get_mem [OF assms] by force

section \<open>Properties\<close>

text \<open>
  C8. Mirroring the rules never changes a latch: the record of every rule is what it was,
  configured or not, and a configured rule that had none gets a blank one. A rule is
  orphaned afterwards exactly when configuration does not define it; what is reported as
  newly orphaned and as re-adopted is exactly what changed.
\<close>

theorem sync_rules_correct:
  assumes ok: "db_ok d" and names: "distinct (map rr_name rs)"
    and members: "\<forall>r \<in> set rs. distinct (rr_inputs r) \<and> distinct (rr_outputs r)"
  shows "\<exists>d' newly readopted. sync_rules d rs = Inr (d', newly, readopted) \<and> db_ok d' \<and>
    (\<forall>q. latch d' q = (case latch d q of Some l \<Rightarrow> Some l
       | None \<Rightarrow> if q \<in> rr_name ` set rs then Some (fresh_latch q) else None)) \<and>
    (\<forall>q row. dict_get (db_rules d') q = Some row \<longrightarrow> (row_orphaned row \<longleftrightarrow> q \<notin> rr_name ` set rs)) \<and>
    (\<forall>q. q \<in> set newly \<longleftrightarrow> q \<notin> rr_name ` set rs \<and> dict_get (db_rules d) q \<noteq> None \<and> \<not> was_orphaned d q) \<and>
    readopted = filter (was_orphaned d) (map rr_name rs)"
proof -
  obtain e where e: "run_steps sync_rule rs (d, []) = Inr (e, filter (was_orphaned d) (map rr_name rs))"
    "mirror_step d e" "db_ok e"
    "\<And>q. dict_get (db_rules e) q = (if q \<in> set (map rr_name rs)
        then map_option (\<lambda>e. \<lparr>row_enabled = e, row_orphaned = False\<rparr>) (map_of (map (\<lambda>r. (rr_name r, rr_enabled r)) rs) q)
        else dict_get (db_rules d) q)"
    "\<And>q. latch e q = (if latch d q = None \<and> q \<in> set (map rr_name rs) then Some (fresh_latch q) else latch d q)"
    using run_sync_rules [OF ok names members, of "[]"] by auto
  let ?newly = "filter (\<lambda>n. n \<notin> set (map rr_name rs)) (dict_keys (filter (\<lambda>p. \<not> row_orphaned (snd p)) (db_rules e)))"
  let ?d = "fold orphan_rule ?newly e"
  have newly: "q \<in> set ?newly \<longleftrightarrow> q \<notin> set (map rr_name rs) \<and>
      (\<exists>row. dict_get (db_rules e) q = Some row \<and> \<not> row_orphaned row)" for q
    using e(3) mem_dict_keys_filter [of "db_rules e" q "\<lambda>row. \<not> row_orphaned row"] by (auto simp: db_ok_def)
  have "db_ok ?d" using fold_mirror_step [where f = orphan_rule, OF orphan_rule_step e(3)] by blast
  moreover have "sync_rules d rs = Inr (?d, ?newly, filter (was_orphaned d) (map rr_name rs))"
    by (simp add: sync_rules_def e(1) Let_def)
  moreover have "latch ?d q = (case latch d q of Some l \<Rightarrow> Some l
       | None \<Rightarrow> if q \<in> rr_name ` set rs then Some (fresh_latch q) else None)" for q
    by (simp add: latch_fold_orphan e(5) split: option.split)
  moreover have "row_orphaned row \<longleftrightarrow> q \<notin> rr_name ` set rs" if "dict_get (db_rules ?d) q = Some row" for q row
    using that newly [of q] unfolding get_fold_orphan by (auto simp: e(4) split: if_splits)
  moreover have "q \<in> set ?newly \<longleftrightarrow> q \<notin> rr_name ` set rs \<and> dict_get (db_rules d) q \<noteq> None \<and> \<not> was_orphaned d q" for q
    unfolding newly by (auto simp: e(4) was_orphaned_def split: option.splits)
  ultimately show ?thesis by blast
qed

theorem sync_rules_correct_witness:
  "\<exists>d' newly readopted. sync_rules empty_db [\<lparr>rr_name = ''r'', rr_enabled = True, rr_orphaned = False,
      rr_inputs = [''i''], rr_outputs = [''o'']\<rparr>] = Inr (d', newly, readopted) \<and>
    latch d' ''r'' = Some (fresh_latch ''r'')"
  using sync_rules_correct [OF db_ok_empty, of "[\<lparr>rr_name = ''r'', rr_enabled = True, rr_orphaned = False,
      rr_inputs = [''i''], rr_outputs = [''o'']\<rparr>]"]
  by (fastforce simp: latch_def empty_db_def)

section \<open>Renaming\<close>

lemma get_rename_pairs:
  assumes "new \<notin> fst ` set ps" "old \<noteq> new"
  shows "map_of (map (\<lambda>(r, l). if r = old then (new, f l) else (r, l)) ps) q =
    (if q = new then map_option f (map_of ps old) else if q = old then None else map_of ps q)"
  using assms by (induction ps) auto

lemma keys_rename:
  assumes "distinct (map fst ps)" "new \<notin> fst ` set ps"
  shows "distinct (map fst (map (\<lambda>(r, l). if r = old then (new, f l) else (r, l)) ps))"
proof -
  have "map fst (map (\<lambda>(r, l). if r = old then (new, f l) else (r, l)) ps) =
      map (\<lambda>k. if k = old then new else k) (map fst ps)" by (induction ps) auto
  then show ?thesis using assms by (auto simp only: distinct_map [of "\<lambda>k. if k = old then new else k"] inj_on_def
      set_map split: if_splits)
qed

lemma distinct_rename_pairs:
  assumes "distinct ps" "\<forall>p \<in> set ps. fst p \<noteq> new"
  shows "distinct (rename_pairs old new ps)"
  using assms by (induction ps) (auto simp: rename_pairs_def split: if_splits)

lemma set_rename_pairs:
  "set (rename_pairs old new ps) = (\<lambda>(r, x). (if r = old then new else r, x)) ` set ps"
  by (simp add: rename_pairs_def)

lemma rename_rule_effect:
  assumes ok: "db_ok d" and row: "dict_get (db_rules d) old = Some row" and new: "dict_get (db_rules d) new = None"
  shows "\<exists>d'. rename_rule d old new = Inr d' \<and> db_ok d' \<and>
    (\<forall>q. latch d' q = (if q = new then map_option (\<lambda>l. l\<lparr>lr_rule := new\<rparr>) (latch d old)
       else if q = old then None else latch d q)) \<and>
    (\<forall>q. dict_get (db_rules d') q = (if q = old then None
       else if q = new then Some \<lparr>row_enabled = row_enabled row, row_orphaned = False\<rparr> else dict_get (db_rules d) q)) \<and>
    (\<forall>i. (new, i) \<in> set (db_rule_inputs d') \<longleftrightarrow> (old, i) \<in> set (db_rule_inputs d)) \<and>
    (\<forall>i. (new, i) \<in> set (db_rule_outputs d') \<longleftrightarrow> (old, i) \<in> set (db_rule_outputs d))"
proof -
  have ne: "old \<noteq> new" using row new by auto
  have nl: "new \<notin> fst ` set (db_latches d)"
  proof -
    have "latch d new = None" using ok new unfolding db_ok_def by (metis not_Some_eq)
    then show ?thesis by (simp add: latch_def map_of_eq_None_iff)
  qed
  have mem: "\<forall>p \<in> set (db_rule_inputs d) \<union> set (db_rule_outputs d). dict_get (db_rules d) (fst p) \<noteq> None"
    and lr: "\<And>q l. latch d q = Some l \<Longrightarrow> lr_rule l = q \<and> dict_get (db_rules d) q \<noteq> None"
    using ok unfolding db_ok_def by blast+
  have nm: "\<forall>p \<in> set (db_rule_inputs d). fst p \<noteq> new" "\<forall>p \<in> set (db_rule_outputs d). fst p \<noteq> new"
    using mem new by blast+
  let ?L = "map (\<lambda>(r, l). if r = old then (new, l\<lparr>lr_rule := new\<rparr>) else (r, l)) (db_latches d)"
  let ?d' = "d\<lparr>db_rules := dict_del (dict_put (db_rules d) new \<lparr>row_enabled = row_enabled row, row_orphaned = False\<rparr>) old,
     db_latches := ?L, db_rule_inputs := rename_pairs old new (db_rule_inputs d),
     db_rule_outputs := rename_pairs old new (db_rule_outputs d)\<rparr>"
  have dl: "dict_ok ?L" by (rule keys_rename [OF _ nl]) (use ok in \<open>simp add: db_ok_def\<close>)
  have dm: "distinct (rename_pairs old new (db_rule_inputs d))" "distinct (rename_pairs old new (db_rule_outputs d))"
    using distinct_rename_pairs nm ok by (auto simp: db_ok_def)
  have r: "rename_rule d old new = Inr ?d'"
    using row new dl dm by (simp add: rename_rule_def Let_def)
  have L: "latch ?d' q = (if q = new then map_option (\<lambda>l. l\<lparr>lr_rule := new\<rparr>) (latch d old)
      else if q = old then None else latch d q)" for q
    by (simp add: latch_def get_rename_pairs [OF nl ne])
  have R: "dict_get (db_rules ?d') q = (if q = old then None
      else if q = new then Some \<lparr>row_enabled = row_enabled row, row_orphaned = False\<rparr> else dict_get (db_rules d) q)" for q
    by simp
  have "\<forall>p \<in> set (rename_pairs old new (db_rule_inputs d)) \<union> set (rename_pairs old new (db_rule_outputs d)).
      dict_get (db_rules ?d') (fst p) \<noteq> None"
    using mem ne unfolding R set_rename_pairs by (auto split: if_splits)
  moreover have "\<forall>q l. latch ?d' q = Some l \<longrightarrow> lr_rule l = q \<and> dict_get (db_rules ?d') q \<noteq> None"
    using lr ne unfolding L R by auto
  ultimately have "db_ok ?d'"
    using ok dl dm unfolding db_ok_def by (simp add: pending_push_of_def output_state_def log_ok_def)
  moreover have moved: "(new, i) \<in> set (rename_pairs old new ps) \<longleftrightarrow> (old, i) \<in> set ps"
    if "\<forall>p \<in> set ps. fst p \<noteq> new" for i ps
    using that ne by (force simp: set_rename_pairs split: if_splits)
  ultimately show ?thesis
    unfolding r using L R by (simp add: moved [OF nm(1)] moved [OF nm(2)])
qed

text \<open>
  Renaming a rule either refuses, saying why, and then nothing was wrong with the
  tables, or moves the rule with its whole latch record and its members to the new name:
  no other latch changes and the old name is gone.
\<close>

theorem rename_rule_moves_latch:
  assumes ok: "db_ok d"
  shows "case rename_rule d old new of
      Inl x \<Rightarrow> x = NoSuchRule old \<and> dict_get (db_rules d) old = None \<or>
               x = RuleExists new \<and> dict_get (db_rules d) new \<noteq> None
    | Inr d' \<Rightarrow> db_ok d' \<and>
        latch d' new = map_option (\<lambda>l. l\<lparr>lr_rule := new\<rparr>) (latch d old) \<and> latch d' old = None \<and>
        (\<forall>q. q \<noteq> old \<and> q \<noteq> new \<longrightarrow> latch d' q = latch d q) \<and>
        dict_get (db_rules d') old = None \<and>
        map_option row_enabled (dict_get (db_rules d') new) = map_option row_enabled (dict_get (db_rules d) old) \<and>
        (\<forall>i. (new, i) \<in> set (db_rule_inputs d') \<longleftrightarrow> (old, i) \<in> set (db_rule_inputs d)) \<and>
        (\<forall>i. (new, i) \<in> set (db_rule_outputs d') \<longleftrightarrow> (old, i) \<in> set (db_rule_outputs d))"
proof (cases "dict_get (db_rules d) old = None \<or> dict_get (db_rules d) new \<noteq> None")
  case True
  then show ?thesis by (auto simp: rename_rule_def split: option.split)
next
  case False
  then obtain row where row: "dict_get (db_rules d) old = Some row" and new: "dict_get (db_rules d) new = None"
    by auto
  then have "old \<noteq> new" by auto
  with rename_rule_effect [OF ok row new] row show ?thesis by auto
qed

text \<open>The rule ''r'' of a small database, latched, as it is after it was renamed to ''s''.\<close>

definition example_db :: db where
  "example_db = empty_db\<lparr>db_rules := [(''r'', \<lparr>row_enabled = True, row_orphaned = False\<rparr>)],
     db_latches := [(''r'', (fresh_latch ''r'')\<lparr>lr_state := True, lr_trigger_count := 3\<rparr>)]\<rparr>"

lemma db_ok_example: "db_ok example_db"
  by (auto simp: db_ok_def example_db_def empty_db_def storage_reads log_ok_def fresh_latch_def)

theorem rename_rule_moves_latch_witness:
  "\<exists>d'. rename_rule example_db ''r'' ''s'' = Inr d' \<and>
     latch d' ''s'' = Some ((fresh_latch ''s'')\<lparr>lr_state := True, lr_trigger_count := 3\<rparr>)"
  using rename_rule_moves_latch [OF db_ok_example, of "''r''" "''s''"]
  by (auto simp: example_db_def empty_db_def latch_def fresh_latch_def split: sum.splits)

section \<open>Purging\<close>

lemma purge_rule_facts:
  assumes "db_ok d"
  shows "db_ok (purge_rule n d) \<and>
    (\<forall>q. dict_get (db_rules (purge_rule n d)) q = (if q = n then None else dict_get (db_rules d) q)) \<and>
    (\<forall>q. latch (purge_rule n d) q = (if q = n then None else latch d q)) \<and>
    db_instances (purge_rule n d) = db_instances d \<and> db_plugin_kv (purge_rule n d) = db_plugin_kv d \<and>
    db_pending (purge_rule n d) = db_pending d \<and> db_output_state (purge_rule n d) = db_output_state d"
  using assms
  by (auto simp: purge_rule_def delete_members_def db_ok_def storage_reads log_ok_def)

lemma purge_rules_facts:
  "db_ok d \<Longrightarrow> db_ok (fold purge_rule ns d) \<and>
    (\<forall>q. dict_get (db_rules (fold purge_rule ns d)) q = (if q \<in> set ns then None else dict_get (db_rules d) q)) \<and>
    (\<forall>q. latch (fold purge_rule ns d) q = (if q \<in> set ns then None else latch d q)) \<and>
    db_instances (fold purge_rule ns d) = db_instances d \<and> db_plugin_kv (fold purge_rule ns d) = db_plugin_kv d \<and>
    db_pending (fold purge_rule ns d) = db_pending d \<and> db_output_state (fold purge_rule ns d) = db_output_state d"
proof (induction ns arbitrary: d)
  case Nil
  then show ?case by simp
next
  case (Cons n ns)
  note p = purge_rule_facts [OF Cons.prems, of n]
  with Cons.IH [of "purge_rule n d"] show ?case by simp
qed

lemma purge_instance_facts:
  assumes "db_ok d"
  shows "db_ok (purge_instance n d) \<and> db_rules (purge_instance n d) = db_rules d \<and>
    latch (purge_instance n d) = latch d \<and>
    (\<forall>q. dict_get (db_instances (purge_instance n d)) q = (if q = n then None else dict_get (db_instances d) q)) \<and>
    (\<forall>q k. kv_get (purge_instance n d) q k = (if q = n then None else kv_get d q k)) \<and>
    (\<forall>q. pending_push_of (purge_instance n d) q = (if q = n then None else pending_push_of d q)) \<and>
    (\<forall>q. output_state (purge_instance n d) q = (if q = n then None else output_state d q))"
proof -
  have "kv_get (purge_instance n d) q k = (if q = n then None else kv_get d q k)" for q k
    using map_of_filter_key [of "\<lambda>p. fst p \<noteq> n" "db_plugin_kv d" "(q, k)"]
    by (simp add: kv_get_def purge_instance_def)
  moreover have "latch (purge_instance n d) = latch d" by (rule latch_cong) (simp add: purge_instance_def)
  moreover have "db_ok (purge_instance n d)"
    using assms by (auto simp: purge_instance_def db_ok_def storage_reads log_ok_def)
  ultimately show ?thesis by (simp add: purge_instance_def pending_push_of_def output_state_def)
qed

lemma purge_instances_facts:
  "db_ok d \<Longrightarrow> db_ok (fold purge_instance ns d) \<and> db_rules (fold purge_instance ns d) = db_rules d \<and>
    latch (fold purge_instance ns d) = latch d \<and>
    (\<forall>q. dict_get (db_instances (fold purge_instance ns d)) q = (if q \<in> set ns then None else dict_get (db_instances d) q)) \<and>
    (\<forall>q k. kv_get (fold purge_instance ns d) q k = (if q \<in> set ns then None else kv_get d q k)) \<and>
    (\<forall>q. pending_push_of (fold purge_instance ns d) q = (if q \<in> set ns then None else pending_push_of d q)) \<and>
    (\<forall>q. output_state (fold purge_instance ns d) q = (if q \<in> set ns then None else output_state d q))"
proof (induction ns arbitrary: d)
  case Nil
  then show ?case by simp
next
  case (Cons n ns)
  note p = purge_instance_facts [OF Cons.prems, of n]
  with Cons.IH [of "purge_instance n d"] show ?case by simp
qed

definition instance_orphaned :: "db \<Rightarrow> name \<Rightarrow> bool" where
  "instance_orphaned d n = (case dict_get (db_instances d) n of None \<Rightarrow> False | Some r \<Rightarrow> ir_orphaned r)"

text \<open>
  Purging removes exactly what is orphaned: an orphaned rule goes with its latch and an
  orphaned instance with its scratch storage, its pending push and its output state;
  nothing that belongs to a rule or an instance still configured changes.
\<close>

theorem purge_orphans_exact:
  assumes ok: "db_ok d"
  defines "d' \<equiv> fst (purge_orphans d)"
  shows "db_ok d' \<and>
    set (fst (snd (purge_orphans d))) = Collect (was_orphaned d) \<and>
    set (snd (snd (purge_orphans d))) = Collect (instance_orphaned d) \<and>
    (\<forall>q. latch d' q = (if was_orphaned d q then None else latch d q)) \<and>
    (\<forall>q. dict_get (db_rules d') q = (if was_orphaned d q then None else dict_get (db_rules d) q)) \<and>
    (\<forall>i key. kv_get d' i key = (if instance_orphaned d i then None else kv_get d i key)) \<and>
    (\<forall>i. pending_push_of d' i = (if instance_orphaned d i then None else pending_push_of d i)) \<and>
    (\<forall>i. output_state d' i = (if instance_orphaned d i then None else output_state d i))"
proof -
  let ?rs = "fst (snd (purge_orphans d))" and ?is = "snd (snd (purge_orphans d))"
  let ?e = "fold purge_rule ?rs d"
  have d': "d' = fold purge_instance ?is ?e" by (simp add: d'_def purge_orphans_def Let_def)
  have keys: "dict_ok (db_rules d)" "dict_ok (db_instances d)" using ok by (simp_all add: db_ok_def)
  have "n \<in> set ?rs \<longleftrightarrow> was_orphaned d n" for n
    using mem_dict_keys_filter [OF keys(1), of n row_orphaned]
    by (auto simp: purge_orphans_def was_orphaned_def Let_def split: option.splits)
  then have rs: "set ?rs = Collect (was_orphaned d)" by blast
  have "n \<in> set ?is \<longleftrightarrow> instance_orphaned d n" for n
    using mem_dict_keys_filter [OF keys(2), of n ir_orphaned]
    by (auto simp: purge_orphans_def instance_orphaned_def Let_def split: option.splits)
  then have "is": "set ?is = Collect (instance_orphaned d)" by blast
  note r = purge_rules_facts [OF ok, of ?rs]
  note i = purge_instances_facts [OF conjunct1 [OF r], of ?is]
  show ?thesis
    using r i unfolding d' [symmetric] rs "is" by (simp add: kv_get_def pending_push_of_def output_state_def)
qed

theorem purge_orphans_exact_witness:
  "latch (fst (purge_orphans example_db)) ''r'' = latch example_db ''r''"
  using purge_orphans_exact [OF db_ok_example]
  by (simp add: was_orphaned_def example_db_def)

section \<open>Mirroring a configuration\<close>

lemma latch_sync_instances: "latch (fst (sync_instances d rs)) = latch d"
proof -
  have "latch (fold upsert_instance xs e) = latch e" for xs e
    by (induction xs arbitrary: e) (simp_all add: upsert_instance_def latch_def fun_eq_iff)
  moreover have "latch (fold orphan_instance xs e) = latch e" for xs e
    by (induction xs arbitrary: e) (simp_all add: orphan_instance_def latch_def fun_eq_iff split: option.split)
  ultimately show ?thesis by (simp add: sync_instances_def Let_def)
qed

lemma mirror_configuration_ok:
  assumes ok: "db_ok d" and keyed: "config_keyed c"
  shows "\<exists>d'. mirror_configuration d c = Inr d' \<and> db_ok d' \<and> mirror_step d d' \<and>
    (\<forall>r \<in> snd ` set (c_rules c). dict_get (db_rules d') (rc_name r) \<noteq> None) \<and>
    (\<forall>q. latch d' q = (if latch d q = None \<and> q \<in> set (dict_keys (c_rules c)) then Some (fresh_latch q) else latch d q))"
proof -
  let ?e = "fst (sync_instances d (instance_records c))" and ?rs = "rule_records c"
  have le: "latch ?e = latch d" by (rule latch_sync_instances)
  have e: "mirror_step d ?e" "db_ok ?e" using sync_instances_step [OF ok] by auto
  have n: "map rr_name ?rs = dict_keys (c_rules c)"
    using keyed by (simp add: rule_records_def config_keyed_def case_prod_beta)
  have names: "distinct (map rr_name ?rs)" using keyed by (simp only: n config_keyed_def)
  have members: "\<forall>r \<in> set ?rs. distinct (rr_inputs r) \<and> distinct (rr_outputs r)"
    using keyed by (auto simp: rule_records_def config_keyed_def)
  obtain f where f: "run_steps sync_rule ?rs (?e, []) = Inr (f, filter (was_orphaned ?e) (map rr_name ?rs))"
    "mirror_step ?e f" "db_ok f"
    and rows: "\<And>q. q \<in> set (map rr_name ?rs) \<Longrightarrow> dict_get (db_rules f) q \<noteq> None"
    and lf: "\<And>q. latch f q = (if latch d q = None \<and> q \<in> set (map rr_name ?rs) then Some (fresh_latch q) else latch d q)"
  proof -
    obtain f where "run_steps sync_rule ?rs (?e, []) = Inr (f, filter (was_orphaned ?e) (map rr_name ?rs))"
      "mirror_step ?e f" "db_ok f"
      "\<And>q. dict_get (db_rules f) q = (if q \<in> set (map rr_name ?rs)
        then map_option (\<lambda>e. \<lparr>row_enabled = e, row_orphaned = False\<rparr>) (map_of (map (\<lambda>r. (rr_name r, rr_enabled r)) ?rs) q)
        else dict_get (db_rules ?e) q)"
      "\<And>q. latch f q = (if latch ?e q = None \<and> q \<in> set (map rr_name ?rs) then Some (fresh_latch q) else latch ?e q)"
      using run_sync_rules [OF e(2) names members, of "[]"] by auto
    moreover from this have "dict_get (db_rules f) q \<noteq> None" if "q \<in> set (map rr_name ?rs)" for q
      using that by (auto simp: map_of_eq_None_iff image_image)
    ultimately show thesis using that le by simp
  qed
  let ?newly = "filter (\<lambda>n. n \<notin> set (map rr_name ?rs)) (dict_keys (filter (\<lambda>p. \<not> row_orphaned (snd p)) (db_rules f)))"
  let ?g = "fold orphan_rule ?newly f"
  have g: "mirror_step f ?g" "db_ok ?g"
    using fold_mirror_step [where f = orphan_rule, OF orphan_rule_step f(3)] by auto
  have "mirror_configuration d c = Inr ?g"
    by (simp add: mirror_configuration_def sync_rules_def f(1) Let_def)
  moreover have "mirror_step d ?g" using e(1) f(2) g(1) mirror_step_trans by blast
  moreover have "\<forall>r \<in> snd ` set (c_rules c). dict_get (db_rules ?g) (rc_name r) \<noteq> None"
  proof
    fix r
    assume "r \<in> snd ` set (c_rules c)"
    then have "rc_name r \<in> set (map rr_name ?rs)" using keyed unfolding n config_keyed_def by force
    then have "dict_get (db_rules f) (rc_name r) \<noteq> None" by (rule rows)
    then show "dict_get (db_rules ?g) (rc_name r) \<noteq> None" using g(1) unfolding mirror_step_def by blast
  qed
  moreover have "latch ?g q = (if latch d q = None \<and> q \<in> set (dict_keys (c_rules c)) then Some (fresh_latch q) else latch d q)" for q
    by (simp only: latch_fold_orphan lf n)
  ultimately show ?thesis using g(2) by blast
qed

end
