(* ===== verification/Engine_Run.thy ===== *)
theory Engine_Run
  imports Engine_Invariant Storage_Mirror
begin

text \<open>
  The core thread among the others: the tick, the loop and \<open>drain\<close> under the invariant, and
  the daemon as a transition system in which other threads submit messages, plugins write
  their scratch storage and the reload thread mirrors a configuration.
\<close>

section \<open>The tick\<close>

lemma loop_inv_admissible:
  assumes "loop_inv s" "core_inv t" "db_rules (e_db t) = db_rules (e_db s)"
    "set (e_queue t) \<subseteq> set (e_queue s)"
    "snd ` set (e_timers t) \<subseteq> snd ` set (e_timers s) \<union> Collect internal"
  shows "loop_inv t"
proof -
  have "admissible (e_db t) m" if "m \<in> set (e_queue t) \<union> snd ` set (e_timers t)" for m
  proof -
    have "m \<in> set (e_queue s) \<union> snd ` set (e_timers s) \<or> internal m" using that assms(4,5) by blast
    then have "admissible (e_db s) m" using assms(1) internal_admissible unfolding loop_inv_def by blast
    then show ?thesis by (simp only: admissible_rules [OF assms(3)])
  qed
  with assms(2) show ?thesis by (simp add: loop_inv_def)
qed

lemma fire_due_timers_inv:
  assumes inv: "loop_inv s"
  shows "case fire_due_timers env now s of
      Inl (x, d) \<Rightarrow> x = OverflowError \<and> db_ok d
    | Inr t \<Rightarrow> loop_inv t \<and> handler_frame s t"
proof -
  let ?ms = "map snd (filter (\<lambda>t. fst t \<le> now) (e_timers s))"
  let ?s = "s\<lparr>e_timers := filter (\<lambda>t. \<not> fst t \<le> now) (e_timers s)\<rparr>"
  have c: "core_inv ?s" using inv by (simp add: loop_inv_def)
  have a: "\<forall>m \<in> set ?ms. admissible (e_db ?s) m" using inv by (auto simp: loop_inv_def)
  show ?thesis
  proof (cases "run_steps (handle env) ?ms ?s")
    case (Inl p)
    obtain x d where p: "p = (x, d)" by (cases p)
    from run_handlers_raise [OF c a Inl [unfolded p]] obtain u where "x = OverflowError" "core_inv u" "d = e_db u"
      by blast
    with Inl p show ?thesis by (simp add: fire_due_timers_def core_inv_def engine_okD(1))
  next
    case (Inr t)
    have f: "handler_frame ?s t" by (rule run_handlers_frame [OF c a Inr])
    have "core_inv t" by (rule engine_steps.inv_run [OF c a Inr])
    moreover have "handler_frame s t" using f by (auto simp: handler_frame_def)
    ultimately have "loop_inv t"
      by (intro loop_inv_admissible [OF inv]) (simp_all add: handler_frame_def)
    with Inr \<open>handler_frame s t\<close> show ?thesis by (simp add: fire_due_timers_def)
  qed
qed

lemma maybe_write_last_seen_fields [simp]:
  "e_queue (maybe_write_last_seen now s) = e_queue s" "e_timers (maybe_write_last_seen now s) = e_timers s"
  "e_stopping (maybe_write_last_seen now s) = e_stopping s"
  "db_rules (e_db (maybe_write_last_seen now s)) = db_rules (e_db s)"
  by (simp_all add: maybe_write_last_seen_def)

lemma tick_inv:
  assumes inv: "loop_inv s"
  shows "case tick env s of
      Inl (x, d) \<Rightarrow> x = OverflowError \<and> db_ok d
    | Inr t \<Rightarrow> loop_inv t \<and> e_queue t = e_queue s"
proof -
  let ?now = "env_now env" and ?s = "s\<lparr>e_heartbeat := Some (env_now env)\<rparr>"
  have i: "loop_inv ?s" using inv by (simp add: loop_inv_def)
  note f = fire_due_timers_inv [OF i, of env ?now]
  show ?thesis
  proof (cases "fire_due_timers env ?now ?s")
    case (Inl p)
    with f show ?thesis by (cases p) (simp add: tick_def)
  next
    case (Inr u)
    with f have u: "loop_inv u" "handler_frame ?s u" by simp_all
    then have ok: "engine_ok u" by (simp add: loop_inv_def core_inv_def)
    let ?t = "maybe_write_last_seen ?now (dispatch_due_pushes ?now u)"
    have "core_inv ?t"
      using u(1) by (simp add: loop_inv_def core_inv_dispatch core_inv_maybe_last_seen)
    moreover have "e_queue ?t = e_queue s" using u(2) by (simp add: dispatch_fields [OF ok] handler_frame_def)
    ultimately show ?thesis
      using Inr loop_inv_admissible [OF u(1), of ?t] u(2)
      by (simp add: tick_def dispatch_fields [OF ok] handler_frame_def Let_def)
  qed
qed

section \<open>The loop\<close>

lemma loop_step_inv:
  assumes inv: "loop_inv s"
  shows "case loop_step env s of
      Inl (x, d) \<Rightarrow> x = OverflowError \<and> db_ok d
    | Inr t \<Rightarrow> loop_inv t \<and> e_queue t = tl (e_queue s)"
proof (cases "e_queue s")
  case Nil
  then show ?thesis using tick_inv [OF inv, of env] by (auto simp: loop_step_def split: sum.splits)
next
  case (Cons m ms)
  let ?s = "s\<lparr>e_queue := ms\<rparr>"
  have c: "core_inv ?s" and a: "admissible (e_db ?s) m" using inv Cons by (auto simp: loop_inv_def)
  have k: "kept ?s (handle env m ?s)" by (rule kept_handle [OF c a])
  show ?thesis
  proof (cases "handle env m ?s")
    case (Inl p)
    with k c Cons show ?thesis by (simp add: loop_step_def core_inv_def engine_okD(1))
  next
    case (Inr u)
    with k have u: "core_inv u" "handler_frame ?s u" by simp_all
    then have q: "e_queue u = ms" by (simp add: handler_frame_def)
    have iu: "loop_inv u"
      by (rule loop_inv_admissible [OF inv u(1)]) (use u(2) Cons in \<open>auto simp: handler_frame_def\<close>)
    show ?thesis
      using tick_inv [OF iu, of env] iu q Cons Inr by (auto simp: loop_step_def split: sum.splits)
  qed
qed

section \<open>Draining\<close>

lemma drain_queue_inv:
  assumes inv: "loop_inv s"
  shows "case drain_queue env s of
      Inl (x, d) \<Rightarrow> x = OverflowError \<and> db_ok d
    | Inr t \<Rightarrow> loop_inv t \<and> e_queue t = []"
proof -
  let ?s = "s\<lparr>e_queue := []\<rparr>"
  have c: "core_inv ?s" and a: "\<forall>m \<in> set (e_queue s). admissible (e_db ?s) m"
    using inv by (auto simp: loop_inv_def)
  show ?thesis
  proof (cases "run_steps (handle env) (e_queue s) ?s")
    case (Inl p)
    obtain x d where p: "p = (x, d)" by (cases p)
    from run_handlers_raise [OF c a Inl [unfolded p]] obtain u where "x = OverflowError" "core_inv u" "d = e_db u"
      by blast
    with Inl p show ?thesis by (simp add: drain_queue_def core_inv_def engine_okD(1))
  next
    case (Inr t)
    have f: "handler_frame ?s t" by (rule run_handlers_frame [OF c a Inr])
    moreover have "core_inv t" by (rule engine_steps.inv_run [OF c a Inr])
    ultimately have "loop_inv t"
      by (intro loop_inv_admissible [OF inv]) (auto simp: handler_frame_def)
    with Inr f show ?thesis by (simp add: drain_queue_def handler_frame_def)
  qed
qed

text \<open>Draining never takes more than two rounds: the second finds the queue empty.\<close>

lemma drain_rounds_empty:
  assumes inv: "loop_inv s" and empty: "e_queue s = []"
  shows "case drain_rounds (Suc n) env k s of
      Inl (x, d) \<Rightarrow> x = OverflowError \<and> db_ok d
    | Inr (m, settled_down, t) \<Rightarrow> m = k \<and> settled_down \<and> loop_inv t \<and> e_queue t = []"
proof -
  have d: "drain_queue env s = Inr (s\<lparr>e_queue := []\<rparr>)" by (simp add: drain_queue_def empty)
  have i: "loop_inv (s\<lparr>e_queue := []\<rparr>)" using inv by (auto simp: loop_inv_def)
  show ?thesis using tick_inv [OF i, of env] by (auto simp: d empty split: sum.splits)
qed

lemma drain_unfold:
  "drain env s =
     (case drain_queue env s of Inl x \<Rightarrow> Inl x
      | Inr s1 \<Rightarrow> (case tick env s1 of Inl x \<Rightarrow> Inl x
           | Inr s2 \<Rightarrow> if e_queue s = [] \<and> e_queue s2 = [] then Inr (0, True, s2)
               else drain_rounds (Suc 98) env (0 + length (e_queue s)) s2))"
proof -
  have rounds: "max_drain_rounds = Suc (Suc 98)" by (simp add: max_drain_rounds_def)
  show ?thesis unfolding drain_def rounds drain_rounds.simps(2) [of "Suc 98"] ..
qed

lemma drain_inv:
  assumes inv: "loop_inv s"
  shows "case drain env s of
      Inl (x, d) \<Rightarrow> x = OverflowError \<and> db_ok d
    | Inr (m, settled_down, t) \<Rightarrow> m = length (e_queue s) \<and> settled_down \<and> loop_inv t \<and> e_queue t = []"
proof (cases "e_queue s = []")
  case True
  have "max_drain_rounds = Suc 99" by (simp add: max_drain_rounds_def)
  with drain_rounds_empty [OF inv True, where k = 0 and n = 99 and env = env] True show ?thesis by (simp only: drain_def list.size(3))
next
  case False
  note q = drain_queue_inv [OF inv, of env]
  show ?thesis
  proof (cases "drain_queue env s")
    case (Inl p)
    with q show ?thesis by (cases p) (simp add: drain_unfold)
  next
    case (Inr u)
    with q have u: "loop_inv u" "e_queue u = []" by simp_all
    note t = tick_inv [OF u(1), of env]
    show ?thesis
    proof (cases "tick env u")
      case (Inl p)
      with t Inr show ?thesis by (cases p) (simp add: drain_unfold)
    next
      case (Inr v)
      with t u have v: "loop_inv v" "e_queue v = []" by simp_all
      have "drain env s = drain_rounds (Suc 98) env (length (e_queue s)) v"
        using \<open>drain_queue env s = Inr u\<close> Inr False
        by (simp only: drain_unfold sum.case if_False add_0 simp_thms)
      then show ?thesis using drain_rounds_empty [OF v, where k = "length (e_queue s)" and n = 98 and env = env] by simp
    qed
  qed
qed

section \<open>The daemon as a transition system\<close>

text \<open>
  Other threads submit messages; a plugin writes or deletes a scratch value of its own; the
  reload thread mirrors a configuration and rereads the latches, and only afterwards
  submits the reload; the core takes its iterations until it is told to stop. The core's
  iteration, a submission and a transaction are each atomic. An iteration that raises ends
  the run, which no step continues.
\<close>

inductive core_step :: "engine \<Rightarrow> engine \<Rightarrow> bool" where
  submitted: "internal m \<Longrightarrow> core_step s (submit m s)"
| scratch_set: "core_step s (s\<lparr>e_db := kv_set (e_db s) i key v\<rparr>)"
| scratch_delete: "core_step s (s\<lparr>e_db := kv_delete (e_db s) i key\<rparr>)"
| mirroring: "config_keyed c \<Longrightarrow> mirror_configuration (e_db s) c = Inr d \<Longrightarrow>
    core_step s (reload_latches (s\<lparr>e_db := d\<rparr>))"
| reloading: "mirrored (e_db s) c \<Longrightarrow> core_step s (submit (ReloadMessage c ps ack) s)"
| iterate: "\<not> e_stopping s \<Longrightarrow> loop_step env s = Inr t \<Longrightarrow> core_step s t"

inductive_cases core_step_cases: "core_step s t"

lemma loop_inv_db:
  assumes inv: "loop_inv s" and d: "db_ok d" "db_rules d = db_rules (e_db s)" "latch d = latch (e_db s)"
    "pending_push_of d = pending_push_of (e_db s)" "last_applied d = last_applied (e_db s)"
  shows "loop_inv (s\<lparr>e_db := d\<rparr>)"
proof -
  have "engine_ok (s\<lparr>e_db := d\<rparr>)" by (rule engine_ok_db_update) (use inv d in \<open>simp_all add: loop_inv_def core_inv_def\<close>)
  moreover have "view (s\<lparr>e_db := d\<rparr>) = view s" by (simp add: view_def d)
  ultimately have "core_inv (s\<lparr>e_db := d\<rparr>)"
    using inv core_inv_same_view [of s "s\<lparr>e_db := d\<rparr>"] d(2) by (simp add: loop_inv_def core_frame_def)
  then show ?thesis by (rule loop_inv_admissible [OF inv]) (simp_all add: d)
qed

lemma loop_inv_mirror:
  assumes inv: "loop_inv s" and keyed: "config_keyed c" and m: "mirror_configuration (e_db s) c = Inr d"
  shows "loop_inv (reload_latches (s\<lparr>e_db := d\<rparr>))"
proof -
  let ?t = "reload_latches (s\<lparr>e_db := d\<rparr>)"
  have ok: "engine_ok s" using inv by (simp add: loop_inv_def core_inv_def)
  have d: "db_ok d" "mirror_step (e_db s) d"
    using mirror_configuration_ok [OF engine_okD(1) [OF ok] keyed] m by auto
  have "db_latch d r = db_latch (e_db s) r" for r
  proof -
    have "latch d r = latch (e_db s) r \<or> latch (e_db s) r = None \<and> latch d r = Some (fresh_latch r)"
      using d(2) unfolding mirror_step_def by blast
    then show ?thesis by (auto simp: db_latch_def)
  qed
  then have l: "latch_rec ?t = db_latch (e_db s)" "db_latch d = db_latch (e_db s)"
    using reload_latches_rec [of "s\<lparr>e_db := d\<rparr>"] d(1) by auto
  have fields: "e_db ?t = d" "e_graph ?t = e_graph s" "e_plugins ?t = e_plugins s" "e_queue ?t = e_queue s"
    "e_timers ?t = e_timers s" by (simp_all add: reload_latches_def)
  have rows: "dict_get (db_rules d) r \<noteq> None" if "dict_get (db_rules (e_db s)) r \<noteq> None" for r
    using that d(2) unfolding mirror_step_def by blast
  have "engine_ok ?t"
    using d(1) l rows engine_okD [OF ok] unfolding engine_ok_def fields by simp
  moreover have "view ?t = view s"
  proof -
    have "pending_push_of d = pending_push_of (e_db s)" "last_applied d = last_applied (e_db s)"
      using d(2) by (auto simp: mirror_step_def fun_eq_iff pending_push_of_def last_applied_def output_state_def)
    then show ?thesis using l(1) engine_okD(2) [OF ok] by (simp add: view_def fields)
  qed
  ultimately have "core_inv ?t"
    using inv by (simp add: loop_inv_def core_inv_def outputs_settled_def settled_def fields)
  moreover have "admissible d msg" if "admissible (e_db s) msg" for msg
    using that rows by (cases msg) (auto simp: admissible_def mirrored_def)
  ultimately show ?thesis using inv by (auto simp: loop_inv_def fields)
qed

lemma core_step_inv: "core_step s t \<Longrightarrow> loop_inv s \<Longrightarrow> loop_inv t"
proof (induction rule: core_step.induct)
  case (submitted m s)
  then show ?case by (auto simp: submit_def loop_inv_def internal_admissible)
next
  case (scratch_set s i key v)
  then have "db_ok (e_db s)" by (simp add: loop_inv_def core_inv_def engine_okD(1))
  then show ?case
    by (intro loop_inv_db [OF scratch_set] db_ok_kv_set)
      (simp_all add: kv_set_def fun_eq_iff latch_def pending_push_of_def last_applied_def output_state_def)
next
  case (scratch_delete s i key)
  then have "db_ok (e_db s)" by (simp add: loop_inv_def core_inv_def engine_okD(1))
  then have "db_ok (kv_delete (e_db s) i key)"
    by (auto simp: db_ok_def kv_delete_def storage_reads log_ok_def)
  then show ?case
    by (intro loop_inv_db [OF scratch_delete])
      (simp_all add: kv_delete_def fun_eq_iff latch_def pending_push_of_def last_applied_def output_state_def)
next
  case (mirroring c s d)
  then show ?case by (simp add: loop_inv_mirror)
next
  case (reloading s c ps ack)
  then show ?case by (auto simp: submit_def loop_inv_def admissible_def)
next
  case (iterate s env t)
  then show ?case using loop_step_inv [of s env] by simp
qed

lemma reachable_inv: "core_step\<^sup>*\<^sup>* s t \<Longrightarrow> loop_inv s \<Longrightarrow> loop_inv t"
  by (induction rule: rtranclp_induct) (auto intro: core_step_inv)

end
