(* ===== verification/Engine_Start.thy ===== *)
theory Engine_Start
  imports Engine_Run
begin

text \<open>
  The state the daemon starts the core in satisfies the invariant, so every state it
  reaches does; and the small configuration the witnesses of the engine's properties run on.
\<close>

lemma engine_ok_init:
  assumes "db_ok d" "graph_ok g"
    "\<And>r. r \<in> graph_members g \<Longrightarrow> dict_get (db_rules d) (rule_name r) \<noteq> None"
  shows "engine_ok (init_engine now d g ps st)"
proof -
  let ?s = "\<lparr>e_db = d, e_graph = g, e_plugins = ps, e_settings = st, e_queue = [], e_timers = [],
        e_in_flight = {}, e_latches = [], e_stopping = False, e_ready = False,
        e_last_seen_written_at = None, e_heartbeat = None, e_dispatched = [], e_acknowledged = []\<rparr>"
  have "latch_rec (reload_latches ?s) = db_latch d" using reload_latches_rec [of ?s] assms(1) by simp
  moreover have "e_db (reload_latches ?s) = d" "e_graph (reload_latches ?s) = g"
    by (simp_all add: reload_latches_def)
  ultimately have "engine_ok (reload_latches ?s)" using assms by (simp add: engine_ok_def)
  then show ?thesis by (simp add: init_engine_def)
qed

text \<open>\<open>Daemon.start\<close> up to the first drain: mirrored database, graph, no live plugin yet.\<close>

definition started :: "time \<Rightarrow> db \<Rightarrow> configuration \<Rightarrow> engine" where
  "started now d c = init_engine now d (graph_from_configuration c) empty_plugin_set (c_daemon c)"

lemma mirrored_rows:
  assumes "config_keyed c" "\<forall>r \<in> snd ` set (c_rules c). dict_get (db_rules d) (rc_name r) \<noteq> None"
  shows "mirrored d c"
  using assms by (auto simp: mirrored_def set_enabled_rules)

lemma engine_ok_configuration:
  assumes "db_ok d" "mirrored d c"
  shows "engine_ok (init_engine now d (graph_from_configuration c) ps st)"
proof (rule engine_ok_init [OF assms(1)])
  have k: "config_keyed c" using assms(2) by (simp add: mirrored_def)
  show "graph_ok (graph_from_configuration c)" by (rule graph_ok_configuration [OF k])
  fix r
  assume "r \<in> graph_members (graph_from_configuration c)"
  then show "dict_get (db_rules d) (rule_name r) \<noteq> None"
    using assms(2) by (auto simp: members_configuration [OF k] rules_of_configuration_def mirrored_def)
qed

lemma started_inv:
  assumes ok: "db_ok d" and keyed: "config_keyed c" and m: "mirror_configuration d c = Inr d'"
  shows "loop_inv (started now d' c)"
proof -
  have d': "db_ok d'" "mirrored d' c"
    using mirror_configuration_ok [OF ok keyed] m mirrored_rows [OF keyed] by auto
  have "core_inv (started now d' c)"
    using engine_ok_configuration [OF d']
    by (simp add: started_def core_inv_def outputs_settled_def init_engine_def schedule_def reload_latches_def
        empty_plugin_set_def)
  moreover have "internal PollHealthMessage" by (simp add: internal_def)
  ultimately show ?thesis
    by (auto simp: loop_inv_def started_def init_engine_def schedule_def reload_latches_def
        intro: internal_admissible)
qed

section \<open>An example\<close>

definition ex_db :: db where
  "ex_db = (case mirror_configuration empty_db ex_config of Inr d \<Rightarrow> d | Inl _ \<Rightarrow> empty_db)"

definition ex_plugins :: plugin_set where
  "ex_plugins = \<lparr>ps_inputs = [''mail'', ''web''], ps_outputs = [''pager'', ''lamp'']\<rparr>"

definition ex_engine :: engine where
  "ex_engine = init_engine 0 ex_db (graph_from_configuration ex_config) ex_plugins default_daemon_settings"

definition ex_env :: "time \<Rightarrow> env" where
  "ex_env now = \<lparr>env_now = now, env_catch_up = (\<lambda>_ _. Inr []),
     env_query = (\<lambda>_. Inr \<lparr>belief = Unknown, rs_cleared_at = None\<rparr>),
     env_input_health = (\<lambda>_. Inr \<lparr>ph_status = HsOk, ph_detail = []\<rparr>),
     env_output_health = (\<lambda>_. Inr \<lparr>ph_status = HsOk, ph_detail = []\<rparr>)\<rparr>"

lemma ex_mirror: "mirror_configuration empty_db ex_config = Inr ex_db"
  using mirror_configuration_ok [OF db_ok_empty ex_keyed] by (auto simp: ex_db_def)

lemma ex_mirrored: "db_ok ex_db" "mirrored ex_db ex_config"
  using mirror_configuration_ok [OF db_ok_empty ex_keyed] ex_mirror mirrored_rows [OF ex_keyed] by auto

lemma ex_engine_ok: "engine_ok ex_engine"
  unfolding ex_engine_def by (rule engine_ok_configuration [OF ex_mirrored])

lemma ex_started: "loop_inv (started 0 ex_db ex_config)"
  by (rule started_inv [OF db_ok_empty ex_keyed ex_mirror])

lemma ex_graph: "graph_members (e_graph ex_engine) =
    {\<lparr>rule_name = ''outage'', rule_inputs = [''mail'', ''web''], rule_outputs = [''pager'']\<rparr>,
     \<lparr>rule_name = ''visitor'', rule_inputs = [''web''], rule_outputs = [''lamp'']\<rparr>}"
proof -
  have "e_graph ex_engine = graph_from_configuration ex_config"
    by (simp add: ex_engine_def init_engine_def schedule_def reload_latches_def)
  moreover have "set (map ic_name (enabled_instances ex_config)) = {''mail'', ''web'', ''pager'', ''lamp''}"
  proof -
    have "\<forall>i \<in> snd ` set (c_instances ex_config). ic_enabled i" by (simp add: ex_config_def ex_instance_def)
    then have "set (enabled_instances ex_config) = snd ` set (c_instances ex_config)"
      unfolding set_enabled_instances by blast
    then show ?thesis by (simp add: ex_config_def ex_instance_def)
  qed
  moreover have "set (enabled_rules ex_config) = {snd (ex_rule ''outage'' [''mail'', ''web''] [''pager'']),
      snd (ex_rule ''visitor'' [''web''] [''lamp''])}"
  proof -
    have "\<forall>r \<in> snd ` set (c_rules ex_config). rc_enabled r" by (simp add: ex_config_def ex_rule_def)
    then have "set (enabled_rules ex_config) = snd ` set (c_rules ex_config)"
      unfolding set_enabled_rules by blast
    then show ?thesis by (simp add: ex_config_def)
  qed
  ultimately show ?thesis
    unfolding members_configuration [OF ex_keyed] rules_of_configuration_def Let_def
    by (simp only: members_configuration [OF ex_keyed] rules_of_configuration_def Let_def set_map image_insert
        image_empty) (simp add: ex_rule_def)
qed

end
