(* ===== verification/Engine_Properties.thy ===== *)
theory Engine_Properties
  imports Engine_Start
begin

text \<open>
  The properties of the core thread: what each handler does to the latches, what is
  dispatched, what startup leaves, what can escape, and the invariant of every reachable
  state. Each is a few steps over the refinement lemmas of the handlers.
\<close>

section \<open>Which rules and outputs a message concerns\<close>

definition fed_by :: "engine \<Rightarrow> name \<Rightarrow> name \<Rightarrow> bool" where
  "fed_by s i r \<longleftrightarrow> (\<exists>R \<in> graph_members (e_graph s). rule_name R = r \<and> i \<in> set (rule_inputs R))"

definition drives :: "engine \<Rightarrow> name \<Rightarrow> name \<Rightarrow> bool" where
  "drives s r i \<longleftrightarrow> (\<exists>R \<in> graph_members (e_graph s). rule_name R = r \<and> i \<in> set (rule_outputs R))"

lemma input_names_fed: "engine_ok s \<Longrightarrow> r \<in> set (input_names_of s i) \<longleftrightarrow> fed_by s i r"
  by (auto simp: input_names_of_def fed_by_def graph.for_input_law [OF engine_okD(3)])

lemma output_names_drive: "engine_ok s \<Longrightarrow> r \<in> set (map rule_name (rules_for_output (e_graph s) i)) \<longleftrightarrow> drives s r i"
  by (auto simp: drives_def graph.for_output_law [OF engine_okD(3)])

lemma affected_drives:
  "engine_ok s \<Longrightarrow> j \<in> set (outputs_affected_by (e_graph s) ns) \<longleftrightarrow> (\<exists>r \<in> set ns. drives s r j)"
  by (auto simp: drives_def graph.affected_law [OF engine_okD(3)])

lemma v_move_effect:
  assumes v: "view t = v_move (e_graph s) now ns f (view s)" and g: "e_graph t = e_graph s"
  shows "latch_rec t r = (if r \<in> set ns then f r (latch_rec s r) else latch_rec s r)"
    "last_applied (e_db t) = last_applied (e_db s)"
    "j \<in> set (outputs_affected_by (e_graph s) ns) \<Longrightarrow> settled t j"
    "j \<notin> set (outputs_affected_by (e_graph s) ns) \<Longrightarrow> pending_push_of (e_db t) j = pending_push_of (e_db s) j"
proof -
  show "latch_rec t r = (if r \<in> set ns then f r (latch_rec s r) else latch_rec s r)"
    using arg_cong [OF v, of v_latch] by simp
  show "last_applied (e_db t) = last_applied (e_db s)" using arg_cong [OF v, of v_applied] by simp
  show "j \<in> set (outputs_affected_by (e_graph s) ns) \<Longrightarrow> settled t j"
    by (simp add: settled_def v g v_move_def settled_v_synced)
  show "j \<notin> set (outputs_affected_by (e_graph s) ns) \<Longrightarrow> pending_push_of (e_db t) j = pending_push_of (e_db s) j"
    using arg_cong [OF v, of v_pending] by (simp add: v_move_def v_synced_def)
qed

section \<open>Events and clears\<close>

text \<open>
  C2. An event always goes through, and sets the latch of exactly the rules its input feeds:
  their records carry the event's time, its input and its summary and one more trigger,
  whether they were set or not, in the cache and on disk; no other latch changes; the outputs of those
  rules end up in agreement with the latches, and the pending pushes of all others stay.
\<close>

theorem input_event_effect:
  assumes ok: "engine_ok s"
  shows "\<exists>t. handle_input_event env i e s = Inr t \<and> engine_ok t \<and>
    (\<forall>r. latch_rec t r = (if fed_by s i r
       then (latch_rec s r)\<lparr>lr_state := True, lr_set_at := Some (occurred_at e),
          lr_trigger_count := lr_trigger_count (latch_rec s r) + 1,
          lr_last_cause := Some i, lr_last_detail := Some (event_summary e)\<rparr>
       else latch_rec s r)) \<and>
    (\<forall>r. fed_by s i r \<longrightarrow> latch (e_db t) r = Some (latch_rec t r)) \<and>
    (\<forall>j. if \<exists>r. fed_by s i r \<and> drives s r j then settled t j
       else pending_push_of (e_db t) j = pending_push_of (e_db s) j)"
proof -
  let ?ns = "input_names_of s i"
  obtain t where t: "handle_input_event env i e s = Inr t" "data_step s t" "engine_ok t"
    "view t = v_move (e_graph s) (env_now env) ?ns (\<lambda>_. triggered (occurred_at e) i (event_summary e)) (view s)"
    using handle_input_event_refines [OF ok] by blast
  note g = data_step_fields(1) [OF t(2)]
  note eff = v_move_effect [OF t(4) g]
  have "latch (e_db t) r = Some (latch_rec t r)" if "fed_by s i r" for r
  proof -
    have "lr_state (latch_rec t r)"
      using that input_names_fed [OF ok, of r i] by (simp add: eff(1) triggered_def)
    moreover have "latch_rec t r = db_latch (e_db t) r" using engine_okD(2) [OF t(3)] by simp
    ultimately show ?thesis by (cases "latch (e_db t) r") (simp_all add: db_latch_def fresh_latch_def)
  qed
  moreover have "latch_rec t r = (if fed_by s i r
       then (latch_rec s r)\<lparr>lr_state := True, lr_set_at := Some (occurred_at e),
          lr_trigger_count := lr_trigger_count (latch_rec s r) + 1,
          lr_last_cause := Some i, lr_last_detail := Some (event_summary e)\<rparr>
       else latch_rec s r)" for r
    by (simp add: eff(1) triggered_def input_names_fed [OF ok])
  moreover have "j \<in> set (outputs_affected_by (e_graph s) ?ns) \<longleftrightarrow> (\<exists>r. fed_by s i r \<and> drives s r j)" for j
    by (auto simp: affected_drives [OF ok] input_names_fed [OF ok])
  then have "if \<exists>r. fed_by s i r \<and> drives s r j then settled t j
       else pending_push_of (e_db t) j = pending_push_of (e_db s) j" for j
    using eff(3,4) by simp
  ultimately show ?thesis using t(1,3) by blast
qed

theorem input_event_effect_witness:
  "\<exists>t. handle_input_event (ex_env 5) ''web'' \<lparr>occurred_at = 3, metadata = []\<rparr> ex_engine = Inr t \<and>
     lr_state (latch_rec t ''outage'') \<and> lr_state (latch_rec t ''visitor'')"
proof -
  have "fed_by ex_engine ''web'' ''outage''" "fed_by ex_engine ''web'' ''visitor''"
    by (simp_all add: fed_by_def ex_graph)
  with input_event_effect [OF ex_engine_ok, of "ex_env 5" "''web''" "\<lparr>occurred_at = 3, metadata = []\<rparr>"]
  show ?thesis by fastforce
qed

text \<open>
  C3. An unlatch request always goes through, and clears exactly the set latches of the rules
  that drive the output; every rule it does not drive, and every latch that was not set,
  keeps its record. A second request then finds nothing to clear and moves nothing at all.
\<close>

theorem unlatch_effect:
  assumes ok: "engine_ok s"
  shows "\<exists>t. handle_unlatch env i cause s = Inr t \<and> engine_ok t \<and>
    (\<forall>r. latch_rec t r = (if drives s r i \<and> lr_state (latch_rec s r)
       then (latch_rec s r)\<lparr>lr_state := False, lr_cleared_at := Some (env_now env), lr_last_cause := Some i\<rparr>
       else latch_rec s r)) \<and>
    (\<exists>u. handle_unlatch env' i cause' t = Inr u \<and> view u = view t)"
proof -
  obtain t where t: "handle_unlatch env i cause s = Inr t" "data_step s t" "engine_ok t"
    "view t = v_unlatch (e_graph s) (env_now env) i (view s)"
    using handle_unlatch_refines [OF ok] by blast
  note g = data_step_fields(1) [OF t(2)]
  let ?ns = "map rule_name (rules_for_output (e_graph s) i)"
  have l: "latch_rec t r = (if drives s r i \<and> lr_state (latch_rec s r)
       then cleared (env_now env) i (latch_rec s r) else latch_rec s r)" for r
  proof -
    have "v_latch (v_unlatch (e_graph s) (env_now env) i (view s)) r =
        (if r \<in> set ?ns then clear_if_set (env_now env) i r (latch_rec s r) else latch_rec s r)"
      by (auto simp: v_unlatch_def Let_def list_ex_iff clear_if_set_def)
    then show ?thesis using arg_cong [OF t(4), of v_latch] output_names_drive [OF ok, of r i]
      by (simp add: clear_if_set_def)
  qed
  have "\<not> lr_state (latch_rec t r)" if "r \<in> set ?ns" for r
    using that unfolding output_names_drive [OF ok] by (simp add: l cleared_def)
  then have none: "\<not> list_ex (\<lambda>r. lr_state (latch_rec t r)) ?ns" by (simp only: list_ex_iff) blast
  obtain u where "handle_unlatch env' i cause' t = Inr u" "view u = v_unlatch (e_graph t) (env_now env') i (view t)"
    using handle_unlatch_refines [OF t(3)] by blast
  with none have again: "\<exists>u. handle_unlatch env' i cause' t = Inr u \<and> view u = view t"
    by (simp add: v_unlatch_def g)
  show ?thesis
    by (rule exI [of _ t]) (intro conjI t(1,3) again allI l [unfolded cleared_def])
qed

theorem unlatch_effect_witness:
  "\<exists>t. handle_unlatch (ex_env 5) ''pager'' ''button'' ex_engine = Inr t \<and>
     latch_rec t ''visitor'' = latch_rec ex_engine ''visitor''"
proof -
  have "\<not> drives ex_engine ''visitor'' ''pager''" by (simp add: drives_def ex_graph)
  with unlatch_effect [OF ex_engine_ok, of "ex_env 5" "''pager''" "''button''" "ex_env 6" "''button''"]
  show ?thesis by auto
qed

section \<open>Pushes\<close>

text \<open>
  The outcome of a push never moves a latch. When it returns, the output is no longer in
  flight and is settled: either nothing is pending and the value it confirmed is the one
  its latches call for, or what is pending is that value, never the one that failed.
\<close>

theorem push_result_settles:
  assumes ok: "engine_ok s" and h: "handle_push_result env i pushed succeeded err s = Inr t"
  shows "engine_ok t \<and> latch_rec t = latch_rec s \<and> settled t i \<and> i \<notin> e_in_flight t \<and>
    (\<forall>j. j \<noteq> i \<longrightarrow> pending_push_of (e_db t) j = pending_push_of (e_db s) j)"
proof -
  let ?v = "v_push_result (e_graph s) (e_settings s) (env_now env) i pushed succeeded err (view s)"
  obtain w where w: "?v = Inr w" and t: "data_step (s\<lparr>e_in_flight := e_in_flight s - {i}\<rparr>) t" "engine_ok t" "view t = w"
    using handle_push_result_refines [OF ok, of env i pushed succeeded err] h by (auto split: sum.splits)
  obtain v where v: "w = v_synced (e_graph s) (env_now env) {i} v" "v_latch v = latch_rec s"
    "\<And>j. j \<noteq> i \<Longrightarrow> v_pending v j = pending_push_of (e_db s) j"
  proof -
    from w obtain v where "w = v_synced (e_graph s) (env_now env) {i} v" "v_latch v = latch_rec s"
      "\<forall>j. j \<noteq> i \<longrightarrow> v_pending v j = pending_push_of (e_db s) j"
      by (auto simp: v_push_result_def Let_def split: if_splits sum.splits)
    then show thesis using that by blast
  qed
  note f = data_step_fields [OF t(1)]
  have "v_latch (view t) = latch_rec s" "settled t i"
    "\<And>j. j \<noteq> i \<Longrightarrow> v_pending (view t) j = pending_push_of (e_db s) j"
    using v f(1) unfolding settled_def t(3) v(1) by (simp_all add: settled_v_synced) (simp_all add: v_synced_def)
  then show ?thesis using t(2) f(6) by simp
qed

theorem push_result_settles_witness:
  "\<exists>t. handle_push_result (ex_env 5) ''pager'' True True None ex_engine = Inr t \<and> settled t ''pager''"
proof -
  obtain t where t: "handle_push_result (ex_env 5) ''pager'' True True None ex_engine = Inr t"
    by (simp add: handle_push_result_def transaction_def Let_def)
  from push_result_settles [OF ex_engine_ok t] t show ?thesis by blast
qed

text \<open>
  C4. What is sent to an output is never stale: each newly dispatched update carries the value
  the latches call for at that moment, goes to a live output that was not in flight and
  has a due push, and no output is sent two; and every such output is sent one, and is in
  flight afterwards.
\<close>

theorem dispatch_sends_current_state:
  fixes now :: time
  assumes ok: "engine_ok s"
  defines "t \<equiv> dispatch_due_pushes now s"
  shows "\<exists>sent. e_dispatched t = e_dispatched s @ sent \<and> distinct (map fst sent) \<and>
    (\<forall>(i, u) \<in> set sent. ou_state u = desired_state s i) \<and>
    (\<forall>i. i \<in> fst ` set sent \<longleftrightarrow> i \<notin> e_in_flight s \<and> i \<in> set (ps_outputs (e_plugins s)) \<and>
       (\<exists>p. pending_push_of (e_db s) i = Some p \<and> pp_next_attempt_at p \<le> now)) \<and>
    e_in_flight t = e_in_flight s \<union> fst ` set sent \<and> latch_rec t = latch_rec s"
proof -
  let ?names = "to_dispatch s (due_names s now)"
  let ?sent = "map (\<lambda>i. (i, v_update (e_graph s) (latch_rec s) i)) ?names"
  obtain d l where eq: "t = s\<lparr>e_db := d, e_latches := l, e_in_flight := e_in_flight s \<union> set ?names,
      e_dispatched := e_dispatched s @ ?sent\<rparr>"
    and view: "view t = v_dispatch (e_graph s) (e_in_flight s) (set (ps_outputs (e_plugins s)))
      (set (due_names s now)) (view s)"
    using dispatch_due_pushes_facts [OF ok, of now] unfolding t_def by blast
  have e: "e_dispatched t = e_dispatched s @ ?sent" "e_in_flight t = e_in_flight s \<union> set ?names"
    by (simp_all add: eq)
  have v: "latch_rec t = latch_rec s" using arg_cong [OF view, of v_latch] by (simp add: v_dispatch_def)
  have names: "fst ` set ?sent = set ?names" by (simp add: image_image)
  have "i \<in> set (due_names s now) \<longleftrightarrow> (\<exists>p. pending_push_of (e_db s) i = Some p \<and> pp_next_attempt_at p \<le> now)" for i
  proof -
    have key: "pending_push_of (e_db s) i = Some p \<Longrightarrow> pp_instance p = i" for p
      using engine_okD(1) [OF ok] unfolding db_ok_def by blast
    have "i \<in> set (due_names s now) \<longleftrightarrow> (\<exists>p. i = pp_instance p \<and>
        pending_push_of (e_db s) (pp_instance p) = Some p \<and> pp_next_attempt_at p \<le> now)"
      unfolding due_names_def set_map image_iff Bex_def pending_pushes_due_set [OF engine_okD(1) [OF ok]] by blast
    then show ?thesis using key by blast
  qed
  then have "i \<in> set ?names \<longleftrightarrow> i \<notin> e_in_flight s \<and> i \<in> set (ps_outputs (e_plugins s)) \<and>
       (\<exists>p. pending_push_of (e_db s) i = Some p \<and> pp_next_attempt_at p \<le> now)" for i
    by (auto simp: to_dispatch_def)
  moreover have "distinct (map fst ?sent)"
    using pending_pushes_due_distinct [OF engine_okD(1) [OF ok], of now]
    by (simp add: comp_def to_dispatch_def due_names_def)
  moreover have "\<forall>(i, u) \<in> set ?sent. ou_state u = desired_state s i"
    by (auto simp: v_update_state [OF engine_okD(3) [OF ok]] desired_state_view [OF engine_okD(3) [OF ok]])
  ultimately show ?thesis using e v unfolding names [symmetric] by blast
qed

theorem dispatch_sends_current_state_witness:
  "\<exists>sent. e_dispatched (dispatch_due_pushes 7 ex_engine) = e_dispatched ex_engine @ sent \<and> distinct (map fst sent)"
  using dispatch_sends_current_state [OF ex_engine_ok, of 7] by (elim exE conjE) (intro exI conjI)

section \<open>What an update says\<close>

definition latched_rules :: "engine \<Rightarrow> name \<Rightarrow> name set" where
  "latched_rules s i = {r. drives s r i \<and> lr_state (latch_rec s r)}"

lemma driving_names:
  assumes ok: "engine_ok s"
  obtains ns where "driving (e_graph s) (latch_rec s) i = map (latch_rec s) ns" "distinct ns"
    "set ns = latched_rules s i" "map lr_rule (driving (e_graph s) (latch_rec s) i) = ns"
proof -
  let ?ns = "filter (\<lambda>r. lr_state (latch_rec s r)) (map rule_name (rules_for_output (e_graph s) i))"
  have d: "driving (e_graph s) (latch_rec s) i = map (latch_rec s) ?ns"
    by (simp add: driving_def filter_map comp_def)
  have "distinct ?ns"
    using distinct_rules_for(2) [OF engine_okD(3) [OF ok], of i] by (rule distinct_filter)
  moreover have "set ?ns = latched_rules s i"
    using output_names_drive [OF ok, of _ i] by (auto simp: latched_rules_def)
  moreover have "map lr_rule (driving (e_graph s) (latch_rec s) i) = ?ns"
    unfolding d map_map by (rule map_idI) (simp add: lr_rule_latch_rec [OF ok])
  ultimately show thesis by (rule that [OF d])
qed

text \<open>
  An update that turns an output on describes its latches: it lists exactly the latched
  rules that drive the output, in order; its count is the sum of their triggers; its
  time, cause and detail are those of one of them, and none was set later.
\<close>

theorem update_describes_latches:
  assumes ok: "engine_ok s" and on: "desired_state s i"
  defines "u \<equiv> fst (build_update i (desired_state s i) s)"
  shows "ou_state u \<and> sorted (ou_rules u) \<and> distinct (ou_rules u) \<and> set (ou_rules u) = latched_rules s i \<and>
    ou_trigger_count u = (\<Sum>r \<in> latched_rules s i. lr_trigger_count (latch_rec s r)) \<and>
    (\<exists>r \<in> latched_rules s i. ou_since u = lr_set_at (latch_rec s r) \<and>
       ou_cause u = (case lr_last_cause (latch_rec s r) of None \<Rightarrow> [] | Some c \<Rightarrow> c) \<and>
       ou_detail u = (case lr_last_detail (latch_rec s r) of None \<Rightarrow> [] | Some c \<Rightarrow> c)) \<and>
    (\<forall>r \<in> latched_rules s i. \<forall>x. lr_set_at (latch_rec s r) = Some x \<longrightarrow> (\<exists>y. ou_since u = Some y \<and> x \<le> y))"
proof -
  let ?D = "driving (e_graph s) (latch_rec s) i"
  have u: "u = v_update (e_graph s) (latch_rec s) i" using build_update_facts [OF ok] by (simp add: u_def)
  obtain ns where ns: "?D = map (latch_rec s) ns" "distinct ns" "set ns = latched_rules s i" "map lr_rule ?D = ns"
    by (rule driving_names [OF ok])
  have "?D \<noteq> []"
    using on by (simp add: driving_Nil [OF engine_okD(3) [OF ok]] desired_state_view [OF engine_okD(3) [OF ok]])
  then obtain d ds where D: "?D = d # ds" by (cases ?D) auto
  let ?n = "newest_of d (d # ds)"
  have fields: "ou_state u" "ou_rules u = sort (map lr_rule ?D)" "ou_trigger_count u = sum_list (map lr_trigger_count ?D)"
    "ou_since u = lr_set_at ?n" "ou_cause u = (case lr_last_cause ?n of None \<Rightarrow> [] | Some c \<Rightarrow> c)"
    "ou_detail u = (case lr_last_detail ?n of None \<Rightarrow> [] | Some c \<Rightarrow> c)"
    by (simp_all add: u v_update_def D)
  note newest = newest_of_props [of d "d # ds"]
  have mem: "insert d (set (d # ds)) = latch_rec s ` latched_rules s i"
    using arg_cong [OF D, of set] unfolding ns(1) set_map ns(3) by simp
  have "\<exists>r \<in> latched_rules s i. ?n = latch_rec s r" using newest unfolding mem by blast
  then have "\<exists>r \<in> latched_rules s i. ou_since u = lr_set_at (latch_rec s r) \<and>
       ou_cause u = (case lr_last_cause (latch_rec s r) of None \<Rightarrow> [] | Some c \<Rightarrow> c) \<and>
       ou_detail u = (case lr_last_detail (latch_rec s r) of None \<Rightarrow> [] | Some c \<Rightarrow> c)"
    unfolding fields(4-6) by metis
  moreover have "\<forall>r \<in> latched_rules s i. \<forall>x. lr_set_at (latch_rec s r) = Some x \<longrightarrow> (\<exists>y. ou_since u = Some y \<and> x \<le> y)"
    using newest unfolding mem fields(4) by blast
  moreover have "ou_trigger_count u = (\<Sum>r \<in> latched_rules s i. lr_trigger_count (latch_rec s r))"
    by (simp add: fields(3) ns(1) comp_def sum_list_distinct_conv_sum_set [OF ns(2)] ns(3))
  ultimately show ?thesis using fields(1,2) ns(2,3,4) by simp
qed

lemma ex_triggered:
  obtains t where "engine_ok t" "desired_state t ''pager''"
proof -
  let ?e = "\<lparr>occurred_at = 3, metadata = []\<rparr>"
  obtain t where t: "handle_input_event (ex_env 5) ''mail'' ?e ex_engine = Inr t" "data_step ex_engine t"
    "engine_ok t" "view t = v_move (e_graph ex_engine) 5 (input_names_of ex_engine ''mail'')
      (\<lambda>_. triggered 3 ''mail'' (event_summary ?e)) (view ex_engine)"
    using handle_input_event_refines [OF ex_engine_ok, of "ex_env 5" "''mail''" ?e] by (auto simp: ex_env_def)
  have g: "e_graph t = e_graph ex_engine" by (rule data_step_fields(1) [OF t(2)])
  have "''outage'' \<in> set (input_names_of ex_engine ''mail'')"
    by (simp add: input_names_fed [OF ex_engine_ok] fed_by_def ex_graph)
  then have "lr_state (latch_rec t ''outage'')" by (simp add: v_move_effect(1) [OF t(4) g] triggered_def)
  then have "desired_state t ''pager''"
    by (simp add: desired_state_view [OF engine_okD(3) [OF t(3)]] v_desired_def g ex_graph)
  with t(3) show thesis by (rule that)
qed

theorem update_describes_latches_witness:
  "\<exists>s. ou_state (fst (build_update ''pager'' (desired_state s ''pager'') s))"
proof -
  obtain t where "engine_ok t" "desired_state t ''pager''" by (rule ex_triggered)
  from update_describes_latches [OF this] show ?thesis by blast
qed

section \<open>Startup and reload\<close>

text \<open>
  C7. Startup reconciliation always completes: every configured rule's latch is what the
  resolution makes of its record, the events its inputs saw during downtime and the reports of the outputs
  that answered; the engine is ready, every live output is settled, and each that was not
  in flight has been sent the value its latches call for, whatever it was sent before.
\<close>

theorem reconcile_startup:
  assumes ok: "engine_ok s"
  shows "\<exists>t. reconcile env s = Inr t \<and> engine_ok t \<and> e_ready t \<and>
    (\<forall>R \<in> graph_members (e_graph s). \<exists>le n.
       summarize (downtime_answers env s) (rule_inputs R) = (le, n) \<and>
       latch_rec t (rule_name R) = outcome_latch (resolve_rule (env_now env) (latch_rec s (rule_name R)) le
         (List.map_filter (dict_get (remote_answers env s)) (rule_outputs R))) n (latch_rec s (rule_name R))) \<and>
    (\<forall>i \<in> set (output_names (e_graph s)) \<inter> set (ps_outputs (e_plugins s)). settled t i \<and>
       (i \<in> e_in_flight s \<or> (\<exists>u. (i, u) \<in> set (e_dispatched t) \<and> ou_state u = desired_state t i)))"
proof -
  let ?g = "e_graph s" and ?now = "env_now env"
  obtain u where r: "reconcile env s = Inr ((dispatch_due_pushes ?now u)\<lparr>e_ready := True\<rparr>)"
    and u: "engine_ok u" "core_frame s u" "e_in_flight u = e_in_flight s"
    and v: "view u = v_start ?g ?now (downtime_answers env s) (remote_answers env s) (view s)"
    using reconcile_refines [OF ok, of env] by blast
  let ?w = "dispatch_due_pushes ?now u" and ?t = "(dispatch_due_pushes ?now u)\<lparr>e_ready := True\<rparr>"
  let ?names = "to_dispatch u (due_names u ?now)"
  have f: "e_graph u = ?g" "e_plugins u = e_plugins s" using u(2) by (simp_all add: core_frame_def)
  obtain d l where eq: "?w = u\<lparr>e_db := d, e_latches := l, e_in_flight := e_in_flight u \<union> set ?names,
      e_dispatched := e_dispatched u @ map (\<lambda>i. (i, v_update (e_graph u) (latch_rec u) i)) ?names\<rparr>"
    and okw: "engine_ok ?w"
    and vw: "view ?w = v_dispatch ?g (e_in_flight s) (set (ps_outputs (e_plugins s))) (set (due_names u ?now)) (view u)"
    using dispatch_due_pushes_facts [OF u(1), of ?now] unfolding f u(3) by blast
  have gw: "e_graph ?w = ?g" by (simp add: eq f)
  have okt: "engine_ok ?t" using okw by simp
  have lw: "latch_rec ?w = latch_rec u" using arg_cong [OF vw, of v_latch] by (simp add: v_dispatch_def)
  have lt: "latch_rec ?t = latch_rec ?w" by (simp add: latch_rec_def fun_eq_iff)
  have lu: "latch_rec u r = (if r \<in> set (rule_names ?g)
      then start_latch ?g ?now (downtime_answers env s) (remote_answers env s) r (latch_rec s r) else latch_rec s r)" for r
    using arg_cong [OF v, of v_latch] by (simp add: v_start_def v_forced_def)
  have g: "graph_ok ?g" by (rule engine_okD(3) [OF ok])
  have latches: "\<exists>le n. summarize (downtime_answers env s) (rule_inputs R) = (le, n) \<and>
       latch_rec ?t (rule_name R) = outcome_latch (resolve_rule ?now (latch_rec s (rule_name R)) le
         (List.map_filter (dict_get (remote_answers env s)) (rule_outputs R))) n (latch_rec s (rule_name R))"
    if R: "R \<in> graph_members ?g" for R
  proof -
    have n: "rule_name R \<in> set (rule_names ?g)" using R by (simp add: graph_rules_members(1) [OF g])
    then have "the (dict_get (g_rules ?g) (rule_name R)) = R"
      using graph_rules_members(3) [OF g n] graph_members_names [OF g] R by blast
    then show ?thesis using n by (simp add: lt lw lu start_latch_def split: prod.split)
  qed
  have outs: "settled ?t i \<and> (i \<in> e_in_flight s \<or> (\<exists>x. (i, x) \<in> set (e_dispatched ?t) \<and> ou_state x = desired_state ?t i))"
    if i: "i \<in> set (output_names ?g)" "i \<in> set (ps_outputs (e_plugins s))" for i
  proof -
    have su: "v_settled ?g (view u) i" unfolding v v_start_def by (rule settled_v_forced [OF i(1)])
    have "settled ?t i" using v_settled_dispatch [OF i(2) su] by (simp add: settled_def gw vw)
    moreover have "\<exists>x. (i, x) \<in> set (e_dispatched ?t) \<and> ou_state x = desired_state ?t i" if "i \<notin> e_in_flight s"
    proof -
      have p: "pending_push_of (e_db u) i = Some (new_push i (v_desired ?g (latch_rec u) i) ?now)"
      proof -
        have "v_pending (view u) i = Some (new_push i (v_desired ?g (v_latch (view u)) i) ?now)"
          unfolding v using i(1) by (simp add: v_start_def v_forced_def)
        then show ?thesis by (simp only: view_sel)
      qed
      then have "new_push i (v_desired ?g (latch_rec u) i) ?now \<in> set (pending_pushes_due (e_db u) ?now)"
        by (simp add: pending_pushes_due_set [OF engine_okD(1) [OF u(1)]] new_push_def)
      then have "i \<in> set (due_names u ?now)" by (force simp: due_names_def new_push_def)
      then have "i \<in> set ?names" using i(2) that f u(3) by (simp add: to_dispatch_def)
      then have "(i, v_update ?g (latch_rec u) i) \<in> set (e_dispatched ?t)" by (simp add: eq f)
      moreover have "ou_state (v_update ?g (latch_rec u) i) = desired_state ?t i"
        using gw by (simp add: v_update_state [OF g] desired_state_view [OF engine_okD(3) [OF okt]] lt lw)
      ultimately show ?thesis by blast
    qed
    ultimately show ?thesis by blast
  qed
  show ?thesis
    by (rule exI [of _ ?t]) (use r okt latches outs in simp)
qed

theorem reconcile_startup_witness:
  "\<exists>t. reconcile (ex_env 5) ex_engine = Inr t \<and> e_ready t"
  using reconcile_startup [OF ex_engine_ok, of "ex_env 5"] by blast

text \<open>
  C11. A reload moves no latch. Every output of the old or of the new graph ends up settled
  under the new one; an output no rule lists any more is off.
\<close>

theorem reload_settles_outputs:
  assumes ok: "engine_ok s" and mir: "mirrored (e_db s) c"
  shows "\<exists>t. handle_reload env c ps ack s = Inr t \<and> engine_ok t \<and>
    e_graph t = graph_from_configuration c \<and> ack \<in> set (e_acknowledged t) \<and> latch_rec t = latch_rec s \<and>
    (\<forall>i \<in> set (output_names (e_graph s)) \<union> set (output_names (e_graph t)). settled t i) \<and>
    (\<forall>i. i \<notin> set (output_names (e_graph t)) \<longrightarrow> \<not> desired_state t i)"
proof -
  let ?g = "graph_from_configuration c"
  obtain t where t: "handle_reload env c ps ack s = Inr t" "engine_ok t" "e_graph t = ?g"
      "e_acknowledged t = e_acknowledged s @ [ack]"
      "view t = v_synced ?g (env_now env) (set (output_names (e_graph s)) \<union> set (output_names ?g)) (view s)"
    using handle_reload_refines [OF ok mir, of env ps ack] by blast
  have "latch_rec t = latch_rec s" using arg_cong [OF t(5), of v_latch] by (simp add: v_synced_def)
  moreover have "settled t i" if "i \<in> set (output_names (e_graph s)) \<union> set (output_names (e_graph t))" for i
    using that by (simp add: settled_def t(3,5) settled_v_synced)
  moreover have "\<not> desired_state t i" if "i \<notin> set (output_names (e_graph t))" for i
    using that output_names_members [OF engine_okD(3) [OF t(2)]]
    by (auto simp: desired_state_view [OF engine_okD(3) [OF t(2)]] v_desired_def)
  ultimately show ?thesis using t(1-4) by auto
qed

theorem reload_settles_outputs_witness:
  "\<exists>t. handle_reload (ex_env 5) ex_config (Some ex_plugins) 1 ex_engine = Inr t \<and> settled t ''pager''"
proof -
  have m: "mirrored (e_db ex_engine) ex_config"
    using ex_mirrored(2) by (simp add: ex_engine_def init_engine_def schedule_def reload_latches_def)
  have "''pager'' \<in> set (output_names (e_graph ex_engine))"
    by (simp add: output_names_members [OF engine_okD(3) [OF ex_engine_ok]] ex_graph)
  with reload_settles_outputs [OF ex_engine_ok m, of "ex_env 5" "Some ex_plugins" 1] show ?thesis by blast
qed

section \<open>The invariant\<close>

text \<open>
  Every handler keeps the invariant: from a state in which cache, database, graph and
  pushes agree, a message is either handled, and they agree again, or its handling raises;
  only the overflow of a retry delay can be raised, and then the database is what it was.
\<close>

theorem handle_keeps_invariant:
  assumes "core_inv s" "admissible (e_db s) m"
  shows "case handle env m s of
      Inl (x, d) \<Rightarrow> x = OverflowError \<and> d = e_db s
    | Inr t \<Rightarrow> core_inv t \<and> e_queue t = e_queue s"
  using kept_handle [OF assms, of env] by (auto simp: kept_def handler_frame_def split: sum.splits)

lemma ex_core: "core_inv (started 0 ex_db ex_config)"
  using ex_started by (simp add: loop_inv_def)

theorem handle_keeps_invariant_witness:
  "case handle (ex_env 5) PollHealthMessage (started 0 ex_db ex_config) of
      Inl (x, d) \<Rightarrow> x = OverflowError \<and> d = e_db (started 0 ex_db ex_config)
    | Inr t \<Rightarrow> core_inv t \<and> e_queue t = e_queue (started 0 ex_db ex_config)"
  by (rule handle_keeps_invariant [OF ex_core internal_admissible]) (simp add: internal_def)





section \<open>Retries and waiting\<close>

lemma backoff_eq:
  "backoff_seconds st attempts =
     (if attempts \<le> 1024 then Inr (min (retry_initial_seconds st * 2 ^ nat (max 0 (attempts - 1))) (retry_max_seconds st))
      else Inl OverflowError)"
proof -
  have "nat (max 0 (attempts - 1)) < 1024 \<longleftrightarrow> attempts \<le> 1024" by auto
  then show ?thesis by (auto simp: backoff_seconds_def float_pow2_def Let_def min_def)
qed

text \<open>
  C39. The delay before a failed push is tried again doubles from the initial delay up to the
  maximum and never shrinks as attempts go by; but from the 1025th failure on, computing it
  raises instead of answering the maximum.
\<close>

theorem backoff_seconds_bounds:
  assumes "0 < retry_initial_seconds st" "retry_initial_seconds st \<le> retry_max_seconds st" "1 \<le> a" "a \<le> b"
  shows "(if b \<le> 1024
     then (\<exists>d d'. backoff_seconds st a = Inr d \<and> backoff_seconds st b = Inr d' \<and>
        retry_initial_seconds st \<le> d \<and> d \<le> d' \<and> d' \<le> retry_max_seconds st \<and>
        (d = retry_max_seconds st \<or> d = retry_initial_seconds st * 2 ^ nat (a - 1)))
     else backoff_seconds st b = Inl OverflowError)"
proof -
  let ?i = "retry_initial_seconds st" and ?m = "retry_max_seconds st"
  have "(2::rat) ^ nat (max 0 (a - 1)) \<le> 2 ^ nat (max 0 (b - 1))"
    using assms(4) by (intro power_increasing) auto
  then have "?i * 2 ^ nat (max 0 (a - 1)) \<le> ?i * 2 ^ nat (max 0 (b - 1))" using assms(1) by simp
  moreover have "?i \<le> ?i * 2 ^ nat (max 0 (a - 1))" using assms(1) by simp
  ultimately show ?thesis using assms(2-4) by (auto simp: backoff_eq min_def)
qed

theorem backoff_seconds_bounds_witness:
  "backoff_seconds default_daemon_settings 1025 = Inl OverflowError"
  using backoff_seconds_bounds [of default_daemon_settings 1 1025] by (simp add: default_daemon_settings_def)

text \<open>
  C38. An output whose query keeps answering unknown is asked again and again, at most 900
  seconds apart, each time with one attempt more; its 1024th retry raises out of the handler, and with it out of
  the loop.
\<close>

theorem unknown_output_ends_the_loop:
  assumes "i \<in> set (ps_outputs (e_plugins s))" "env_query env i = Inr \<lparr>belief = Unknown, rs_cleared_at = c\<rparr>"
  shows "if n < 1024
    then \<exists>delay. 30 \<le> delay \<and> delay \<le> 900 \<and>
      handle env (ReconcileOutputMessage i n) s = Inr (schedule (env_now env) delay (ReconcileOutputMessage i (n + 1)) s)
    else handle env (ReconcileOutputMessage i n) s = Inl (OverflowError, e_db s)"
proof -
  have "belief (query_output env i) = Unknown" by (simp add: query_output_def assms(2))
  note h = handle_reconcile_retry_unknown [OF assms(1) this, of n]
  let ?delay = "min (reconcile_retry_initial_seconds * 2 ^ n) reconcile_retry_max_seconds"
  have delay: "30 \<le> ?delay" "?delay \<le> 900"
    by (simp_all add: reconcile_retry_initial_seconds_def reconcile_retry_max_seconds_def)
  show ?thesis
  proof (cases "n < 1024")
    case True
    then have "handle env (ReconcileOutputMessage i n) s =
        Inr (schedule (env_now env) ?delay (ReconcileOutputMessage i (n + 1)) s)" using h by (simp add: handle_def)
    with True delay show ?thesis by (simp only: if_True) blast
  next
    case False
    then show ?thesis using h by (simp add: handle_def)
  qed
qed

lemma ex_plugins_engine: "e_plugins ex_engine = ex_plugins"
  by (simp add: ex_engine_def init_engine_def schedule_def reload_latches_def)

theorem unknown_output_ends_the_loop_witness:
  "handle (ex_env 5) (ReconcileOutputMessage ''lamp'' 1024) ex_engine = Inl (OverflowError, e_db ex_engine)"
  using unknown_output_ends_the_loop [of "''lamp''" ex_engine "ex_env 5" None 1024]
  by (simp add: ex_plugins_engine ex_plugins_def ex_env_def)

text \<open>
  The loop never sleeps for a negative time or longer than five seconds, and never past a
  timer or a pending push that comes due before.
\<close>

theorem next_timeout_bounds:
  "0 \<le> next_timeout now s \<and> next_timeout now s \<le> 5 \<and>
   list_all (\<lambda>(d, _). next_timeout now s \<le> max 0 (of_int (d - now) / 1000000)) (e_timers s) \<and>
   list_all (\<lambda>(_, p). next_timeout now s \<le> max 0 (of_int (pp_next_attempt_at p - now) / 1000000)) (db_pending (e_db s))"
proof -
  let ?ds = "map fst (e_timers s) @ (case earliest_pending_attempt (e_db s) of None \<Rightarrow> [] | Some t \<Rightarrow> [t])"
  let ?sec = "of_int (Min (set ?ds) - now) / 1000000 :: rat"
  have eq: "next_timeout now s = (if ?ds = [] then 5 else if ?sec < 0 then 0 else min ?sec 5)"
    by (simp add: next_timeout_def loop_max_interval_seconds_def Let_def)
  have le: "next_timeout now s \<le> max 0 (of_int (d - now) / 1000000)" if ex: "\<exists>d' \<in> set ?ds. d' \<le> d" for d
  proof -
    obtain d' where d': "d' \<in> set ?ds" "d' \<le> d" using ex by blast
    then have "Min (set ?ds) \<le> d" by (meson List.finite_set Min_le order_trans)
    then have "?sec \<le> of_int (d - now) / 1000000" by (simp add: divide_right_mono)
    moreover have "?ds \<noteq> []" using d'(1) by (metis empty_iff empty_set)
    ultimately show ?thesis unfolding eq by (auto simp: min_def max_def)
  qed
  have pend: "\<exists>d' \<in> set ?ds. d' \<le> pp_next_attempt_at p" if "(i, p) \<in> set (db_pending (e_db s))" for i p
  proof -
    let ?T = "set (map (pp_next_attempt_at \<circ> snd) (db_pending (e_db s)))"
    have "earliest_pending_attempt (e_db s) = Some (Min ?T)"
      using that by (auto simp: earliest_pending_attempt_def split: list.split)
    moreover have "Min ?T \<le> pp_next_attempt_at p" by (rule Min_le) (use that in force)+
    ultimately show ?thesis by auto
  qed
  have "0 \<le> next_timeout now s" "next_timeout now s \<le> 5" unfolding eq by auto
  moreover have "list_all (\<lambda>(d, _). next_timeout now s \<le> max 0 (of_int (d - now) / 1000000)) (e_timers s)"
    unfolding list_all_iff using le by force
  moreover have "list_all (\<lambda>(_, p). next_timeout now s \<le> max 0 (of_int (pp_next_attempt_at p - now) / 1000000))
      (db_pending (e_db s))"
    unfolding list_all_iff using le pend by fast
  ultimately show ?thesis by blast
qed

end
