(* ===== verification/Dispatcher.thy ===== *)
theory Dispatcher
  imports Messages "HOL-Library.Multiset"
begin

text \<open>
  \<open>dispatcher.py\<close>: the pool of threads that perform pushes. A thread's progress through \<open>_worker\<close> and
  \<open>_perform\<close> is cut where it holds no lock, and any interleaving of the threads with each other and
  with the core is a run of the step relation. What \<open>apply\<close> does is a choice of the step.
\<close>

section \<open>State\<close>

record push_request =
  pr_instance :: name
  pr_update :: output_update

datatype worker = Idle | Taken push_request | Applying push_request | Gone

text \<open>
  The queue holds requests and the markers that end a thread. The requests dispatched and the
  reports made are kept as histories; a report is kept with the request it answers.
\<close>

record pool =
  po_outputs :: "name list"
  po_thread_count :: nat
  po_queue :: "push_request option list"
  po_workers :: "worker list"
  po_threads :: nat
  po_running :: bool
  po_dispatched :: "push_request list"
  po_reported :: "(push_request \<times> core_message) list"

definition init_pool :: "name list \<Rightarrow> int \<Rightarrow> pool" where
  "init_pool outputs thread_count =
     \<lparr>po_outputs = outputs, po_thread_count = nat (max 1 thread_count), po_queue = [], po_workers = [],
      po_threads = 0, po_running = False, po_dispatched = [], po_reported = []\<rparr>"

definition set_outputs :: "name list \<Rightarrow> pool \<Rightarrow> pool" where
  "set_outputs outputs p = p\<lparr>po_outputs := outputs\<rparr>"

definition start_pool :: "pool \<Rightarrow> pool" where
  "start_pool p = (if po_running p then p
     else p\<lparr>po_running := True, po_workers := po_workers p @ replicate (po_thread_count p) Idle,
            po_threads := po_threads p + po_thread_count p\<rparr>)"

definition stop_pool :: "pool \<Rightarrow> pool" where
  "stop_pool p = (if \<not> po_running p then p
     else p\<lparr>po_running := False, po_queue := po_queue p @ replicate (po_threads p) None, po_threads := 0\<rparr>)"

definition dispatch :: "push_request \<Rightarrow> pool \<Rightarrow> pool" where
  "dispatch r p = p\<lparr>po_queue := po_queue p @ [Some r], po_dispatched := po_dispatched p @ [r]\<rparr>"

section \<open>One push\<close>

definition missing_report :: "push_request \<Rightarrow> core_message" where
  "missing_report r = PushResultMessage (pr_instance r) (ou_state (pr_update r)) False
     (Some ''output instance is no longer configured'')"

definition apply_report :: "push_request \<Rightarrow> unit plugin_answer \<Rightarrow> core_message" where
  "apply_report r answer =
     (case answer of
        Inl (ty, err) \<Rightarrow> PushResultMessage (pr_instance r) (ou_state (pr_update r)) False (Some (ty @ '': '' @ err))
      | Inr _ \<Rightarrow> PushResultMessage (pr_instance r) (ou_state (pr_update r)) True None)"

definition set_worker :: "nat \<Rightarrow> worker \<Rightarrow> pool \<Rightarrow> pool" where
  "set_worker i w p = p\<lparr>po_workers := (po_workers p)[i := w]\<rparr>"

definition report :: "push_request \<Rightarrow> core_message \<Rightarrow> pool \<Rightarrow> pool" where
  "report r m p = p\<lparr>po_reported := po_reported p @ [(r, m)]\<rparr>"

inductive worker_step :: "pool \<Rightarrow> pool \<Rightarrow> bool" where
  take: "i < length (po_workers p) \<Longrightarrow> po_workers p ! i = Idle \<Longrightarrow> po_queue p = Some r # q \<Longrightarrow>
    worker_step p (set_worker i (Taken r) (p\<lparr>po_queue := q\<rparr>))"
| leave: "i < length (po_workers p) \<Longrightarrow> po_workers p ! i = Idle \<Longrightarrow> po_queue p = None # q \<Longrightarrow>
    worker_step p (set_worker i Gone (p\<lparr>po_queue := q\<rparr>))"
| missing: "i < length (po_workers p) \<Longrightarrow> po_workers p ! i = Taken r \<Longrightarrow> pr_instance r \<notin> set (po_outputs p) \<Longrightarrow>
    worker_step p (set_worker i Idle (report r (missing_report r) p))"
| found: "i < length (po_workers p) \<Longrightarrow> po_workers p ! i = Taken r \<Longrightarrow> pr_instance r \<in> set (po_outputs p) \<Longrightarrow>
    worker_step p (set_worker i (Applying r) p)"
| applied: "i < length (po_workers p) \<Longrightarrow> po_workers p ! i = Applying r \<Longrightarrow>
    worker_step p (set_worker i Idle (report r (apply_report r answer) p))"

inductive pool_step :: "pool \<Rightarrow> pool \<Rightarrow> bool" where
  work: "worker_step p p' \<Longrightarrow> pool_step p p'"
| queue: "pool_step p (dispatch r p)"
| swap: "pool_step p (set_outputs outputs p)"
| start: "pool_step p (start_pool p)"
| stop: "pool_step p (stop_pool p)"

inductive_cases worker_step_cases: "worker_step p p'"
inductive_cases pool_step_cases: "pool_step p p'"

section \<open>Conservation of requests\<close>

text \<open>
  The contract of the \<open>Dispatcher\<close> interface: a request that was dispatched is outstanding until it
  is reported, and then no longer.
\<close>

locale conserving_pool =
  fixes stp :: "'s \<Rightarrow> 's \<Rightarrow> bool"
    and dispatched :: "'s \<Rightarrow> 'r multiset"
    and outstanding :: "'s \<Rightarrow> 'r multiset"
    and reported :: "'s \<Rightarrow> 'r multiset"
  assumes conserves: "stp s t \<Longrightarrow> dispatched s = outstanding s + reported s \<Longrightarrow> dispatched t = outstanding t + reported t"
begin

lemma run_conserves:
  "stp\<^sup>*\<^sup>* s t \<Longrightarrow> dispatched s = outstanding s + reported s \<Longrightarrow> dispatched t = outstanding t + reported t"
  by (induction rule: rtranclp_induct) (auto intro: conserves)

lemma quiet_all_reported:
  "stp\<^sup>*\<^sup>* s t \<Longrightarrow> dispatched s = outstanding s + reported s \<Longrightarrow> outstanding t = {#} \<Longrightarrow> reported t = dispatched t"
  using run_conserves by fastforce

lemma never_more_reports:
  "stp\<^sup>*\<^sup>* s t \<Longrightarrow> dispatched s = outstanding s + reported s \<Longrightarrow> count (reported t) r \<le> count (dispatched t) r"
  using run_conserves [of s t] by simp

end

definition in_hand :: "worker \<Rightarrow> push_request multiset" where
  "in_hand w = (case w of Taken r \<Rightarrow> {#r#} | Applying r \<Rightarrow> {#r#} | _ \<Rightarrow> {#})"

definition po_outstanding :: "pool \<Rightarrow> push_request multiset" where
  "po_outstanding p = mset (List.map_filter id (po_queue p)) + (\<Sum>w\<leftarrow>po_workers p. in_hand w)"

abbreviation po_answered :: "pool \<Rightarrow> push_request multiset" where
  "po_answered p \<equiv> mset (map fst (po_reported p))"

lemma sum_list_set_worker:
  fixes f :: "worker \<Rightarrow> 'm :: cancel_comm_monoid_add"
  assumes "i < length ws"
  shows "(\<Sum>w\<leftarrow>ws[i := w']. f w) + f (ws ! i) = (\<Sum>w\<leftarrow>ws. f w) + f w'"
  using assms
proof (induction ws arbitrary: i)
  case (Cons v ws)
  then show ?case by (cases i) (auto simp: ac_simps)
qed simp

lemma outstanding_set_worker:
  assumes "i < length (po_workers p)"
  shows "po_outstanding (set_worker i w p) + in_hand (po_workers p ! i) = po_outstanding p + in_hand w"
  using sum_list_set_worker [OF assms, of in_hand w] by (simp add: po_outstanding_def set_worker_def add.assoc)

lemma set_worker_frames [simp]:
  "po_dispatched (set_worker i w p) = po_dispatched p" "po_reported (set_worker i w p) = po_reported p"
  "po_queue (set_worker i w p) = po_queue p" "po_outputs (set_worker i w p) = po_outputs p"
  "po_dispatched (report r m p) = po_dispatched p" "po_workers (report r m p) = po_workers p"
  "po_reported (report r m p) = po_reported p @ [(r, m)]" "po_outstanding (report r m p) = po_outstanding p"
  by (simp_all add: set_worker_def report_def po_outstanding_def)

lemma in_hand_simps [simp]:
  "in_hand Idle = {#}" "in_hand Gone = {#}" "in_hand (Taken r) = {#r#}" "in_hand (Applying r) = {#r#}"
  by (simp_all add: in_hand_def)

lemma worker_step_conserves:
  "worker_step p p' \<Longrightarrow> mset (po_dispatched p) = po_outstanding p + po_answered p \<Longrightarrow>
     mset (po_dispatched p') = po_outstanding p' + po_answered p'"
proof (induction rule: worker_step.induct)
  case (take i p r q)
  then have "po_outstanding p = po_outstanding (p\<lparr>po_queue := q\<rparr>) + {#r#}"
    by (simp add: po_outstanding_def map_filter_simps)
  then show ?case using outstanding_set_worker [of i "p\<lparr>po_queue := q\<rparr>" "Taken r"] take by simp
next
  case (leave i p q)
  then have "po_outstanding p = po_outstanding (p\<lparr>po_queue := q\<rparr>)"
    by (simp add: po_outstanding_def map_filter_simps)
  then show ?case using outstanding_set_worker [of i "p\<lparr>po_queue := q\<rparr>" Gone] leave by simp
next
  case (missing i p r)
  then show ?case using outstanding_set_worker [of i "report r (missing_report r) p" Idle] by simp
next
  case (found i p r)
  then show ?case using outstanding_set_worker [of i p "Applying r"] by simp
next
  case (applied i p r answer)
  then show ?case using outstanding_set_worker [of i "report r (apply_report r answer) p" Idle] by simp
qed

lemma map_filter_append: "List.map_filter f (xs @ ys) = List.map_filter f xs @ List.map_filter f ys"
  by (simp add: List.map_filter_def)

lemma map_filter_markers: "List.map_filter id (replicate n None) = []"
  by (induction n) (simp_all add: map_filter_simps)

lemma sum_list_idle: "sum_list (replicate n ({#} :: 'a multiset)) = {#}"
  by (induction n) simp_all

lemma pool_step_conserves:
  "pool_step p p' \<Longrightarrow> mset (po_dispatched p) = po_outstanding p + po_answered p \<Longrightarrow>
     mset (po_dispatched p') = po_outstanding p' + po_answered p'"
proof (induction rule: pool_step.induct)
  case (work p p')
  then show ?case by (rule worker_step_conserves)
qed (auto simp: po_outstanding_def dispatch_def set_outputs_def start_pool_def stop_pool_def
      map_filter_append map_filter_simps map_filter_markers sum_list_idle)

interpretation pool: conserving_pool pool_step "\<lambda>p. mset (po_dispatched p)" po_outstanding po_answered
  by unfold_locales (rule pool_step_conserves)

lemma init_conserves:
  "mset (po_dispatched (init_pool outputs n)) = po_outstanding (init_pool outputs n) + po_answered (init_pool outputs n)"
  by (simp add: init_pool_def po_outstanding_def map_filter_simps)

text \<open>What a report says belongs to its request.\<close>

definition answers_request :: "push_request \<times> core_message \<Rightarrow> bool" where
  "answers_request x \<longleftrightarrow> (case x of (r, m) \<Rightarrow>
     m = missing_report r \<or> (\<exists>answer. m = apply_report r answer))"

lemma answers_request_reports [simp]:
  "answers_request (r, missing_report r)" "answers_request (r, apply_report r answer)"
  by (auto simp: answers_request_def)

lemma answers_request_message:
  "answers_request (r, m) \<Longrightarrow> \<exists>ok err. m = PushResultMessage (pr_instance r) (ou_state (pr_update r)) ok err"
proof -
  have "\<exists>ok err. apply_report r answer = PushResultMessage (pr_instance r) (ou_state (pr_update r)) ok err" for answer
    by (cases answer) (auto simp: apply_report_def)
  then show "answers_request (r, m) \<Longrightarrow> ?thesis" by (auto simp: answers_request_def missing_report_def)
qed

lemma reports_answer:
  assumes "pool_step p p'" "\<forall>x \<in> set (po_reported p). answers_request x"
  shows "\<forall>x \<in> set (po_reported p'). answers_request x"
  using assms
  by (auto elim!: pool_step_cases worker_step_cases simp: dispatch_def set_outputs_def
      start_pool_def stop_pool_def split: if_splits)

text \<open>
  C26. Every push handed to the pool is reported at most once, under its own name and value, whatever the
  interleaving of the threads with dispatches, reloads, starts and stops; and once nothing is
  outstanding, each has been reported exactly once.
\<close>

theorem pushes_reported_once:
  assumes "pool_step\<^sup>*\<^sup>* (init_pool outputs n) p"
  shows "po_answered p \<subseteq># mset (po_dispatched p) \<and>
    (po_outstanding p = {#} \<longrightarrow> po_answered p = mset (po_dispatched p)) \<and>
    (\<forall>(r, m) \<in> set (po_reported p). \<exists>ok err. m = PushResultMessage (pr_instance r) (ou_state (pr_update r)) ok err)"
proof -
  have "\<forall>x \<in> set (po_reported p). answers_request x" using assms
  proof (induction rule: rtranclp_induct)
    case base
    then show ?case by (simp add: init_pool_def)
  qed (rule reports_answer)
  then have "\<forall>(r, m) \<in> set (po_reported p). \<exists>ok err. m = PushResultMessage (pr_instance r) (ou_state (pr_update r)) ok err"
    by (auto dest: answers_request_message)
  moreover have "po_answered p \<subseteq># mset (po_dispatched p)"
    using pool.run_conserves [OF assms init_conserves] by simp
  ultimately show ?thesis using pool.quiet_all_reported [OF assms init_conserves] by blast
qed

section \<open>Progress\<close>

text \<open>What the threads still have to do: a request takes three steps, a marker one.\<close>

definition worker_load :: "worker \<Rightarrow> nat" where
  "worker_load w = (case w of Taken _ \<Rightarrow> 2 | Applying _ \<Rightarrow> 1 | _ \<Rightarrow> 0)"



lemma worker_load_simps [simp]:
  "worker_load Idle = 0" "worker_load Gone = 0" "worker_load (Taken r) = 2" "worker_load (Applying r) = 1"
  by (simp_all add: worker_load_def)



section \<open>Witnesses\<close>

definition ex_request :: push_request where
  "ex_request = \<lparr>pr_instance = ''lamp'', pr_update = update_off True\<rparr>"

definition ex_pool :: pool where
  "ex_pool = dispatch ex_request (start_pool (init_pool [''lamp''] 1))"

definition ex_done :: pool where
  "ex_done = (let taken = set_worker 0 (Taken ex_request) (ex_pool\<lparr>po_queue := []\<rparr>) in
     set_worker 0 Idle (report ex_request (apply_report ex_request (Inr ())) (set_worker 0 (Applying ex_request) taken)))"

lemma ex_pool_run: "(worker_step ^^ 3) ex_pool ex_done"
proof -
  let ?a = "set_worker 0 (Taken ex_request) (ex_pool\<lparr>po_queue := []\<rparr>)"
  let ?b = "set_worker 0 (Applying ex_request) ?a"
  have e: "po_workers ex_pool = [Idle]" "po_queue ex_pool = [Some ex_request]" "po_outputs ex_pool = [''lamp'']"
    by (simp_all add: ex_pool_def dispatch_def start_pool_def init_pool_def)
  have "worker_step ex_pool ?a" by (rule worker_step.take) (simp_all add: e)
  moreover have "worker_step ?a ?b"
    by (rule worker_step.found) (simp_all add: e set_worker_def ex_request_def)
  moreover have "worker_step ?b ex_done"
    unfolding ex_done_def Let_def by (rule worker_step.applied) (simp_all add: e set_worker_def)
  ultimately show ?thesis by (auto simp: numeral_3_eq_3)
qed

lemma pushes_reported_once_witness: "po_answered ex_done = {#ex_request#}"
proof -
  have steps: "worker_step\<^sup>*\<^sup>* ex_pool ex_done" using ex_pool_run by (rule relpowp_imp_rtranclp)
  have "pool_step\<^sup>*\<^sup>* ex_pool ex_done" using steps by (induction rule: rtranclp_induct) (auto intro: pool_step.work rtranclp.rtrancl_into_rtrancl)
  moreover have "pool_step\<^sup>*\<^sup>* (init_pool [''lamp''] 1) ex_pool"
    unfolding ex_pool_def
    by (rule rtranclp.rtrancl_into_rtrancl [OF r_into_rtranclp [of pool_step, OF pool_step.start] pool_step.queue])
  ultimately have "pool_step\<^sup>*\<^sup>* (init_pool [''lamp''] 1) ex_done" by (rule rtranclp_trans [rotated])
  note once = pushes_reported_once [OF this]
  have "po_outstanding ex_done = {#}" "po_dispatched ex_done = [ex_request]"
    by (simp_all add: po_outstanding_def ex_done_def ex_pool_def set_worker_def report_def dispatch_def start_pool_def
        init_pool_def map_filter_simps)
  with once show ?thesis by simp
qed


end
