(* ===== verification/Delivery.thy ===== *)
theory Delivery
  imports Engine_Start Dispatcher
begin

text \<open>
  The core and the dispatcher together: what the core dispatches goes into the pool's queue,
  what the pool reports comes back as a message. The invariant ties the core's set of
  outputs in flight to the requests and reports that are really under way.
\<close>

section \<open>What the core's handlers leave alone\<close>

definition traffic :: "engine \<Rightarrow> name set \<times> (name \<times> output_update) list \<times> (time \<times> core_message) list \<times> core_message list" where
  "traffic s = (e_in_flight s, e_dispatched s, e_timers s, e_queue s)"

lemma traffic_updates [simp]:
  "traffic (s\<lparr>e_db := d\<rparr>) = traffic s" "traffic (s\<lparr>e_latches := l\<rparr>) = traffic s" "traffic (s\<lparr>e_graph := g\<rparr>) = traffic s"
  "traffic (s\<lparr>e_plugins := p\<rparr>) = traffic s" "traffic (s\<lparr>e_stopping := b\<rparr>) = traffic s"
  "traffic (s\<lparr>e_heartbeat := h\<rparr>) = traffic s" "traffic (s\<lparr>e_acknowledged := as\<rparr>) = traffic s"
  "traffic (s\<lparr>e_last_seen_written_at := h\<rparr>) = traffic s"
  by (simp_all add: traffic_def)

lemma fold_traffic: "(\<And>x s. traffic (f x s) = traffic s) \<Longrightarrow> traffic (fold f xs s) = traffic s"
  by (induction xs arbitrary: s) simp_all

lemma traffic_ops [simp]:
  "traffic (append_event_e now k i r x s) = traffic s" "traffic (ensure_latch n s) = traffic s"
  "traffic (reload_latches s) = traffic s" "traffic (record_health now j h s) = traffic s"
  "traffic (sync_output now b j s) = traffic s" "traffic (maybe_write_last_seen now s) = traffic s"
  by (simp_all add: append_event_e_def ensure_latch_def reload_latches_def record_health_def sync_output_def
      maybe_write_last_seen_def Let_def split: option.split)

lemma traffic_folds [simp]:
  "traffic (sync_outputs now is s) = traffic s" "traffic (fold (ensure_latch \<circ> f) rs s) = traffic s"
  "traffic (fold (\<lambda>i. record_health now i (h i)) is s) = traffic s"
  by (simp_all add: sync_outputs_def fold_traffic)

text \<open>An operation that either raises or leaves the traffic as it was.\<close>

definition calm :: "(engine \<Rightarrow> engine outcome) \<Rightarrow> bool" where
  "calm f \<longleftrightarrow> (\<forall>s t. f s = Inr t \<longrightarrow> traffic t = traffic s)"

lemma calmD: "calm f \<Longrightarrow> f s = Inr t \<Longrightarrow> traffic t = traffic s"
  by (simp add: calm_def)

lemma calm_write_latch: "calm (write_latch_e l)"
  by (auto simp: calm_def write_latch_e_def split: sum.splits)

lemma calm_run: "(\<And>x. calm (f x)) \<Longrightarrow> calm (run_steps f xs)"
proof (induction xs)
  case (Cons x xs)
  then have f: "calm (f x)" and fs: "calm (run_steps f xs)" by simp_all
  have "traffic t = traffic s" if run: "run_steps f (x # xs) s = Inr t" for s t
  proof (cases "f x s")
    case (Inr u)
    with run show ?thesis using calmD [OF fs, of u t] calmD [OF f Inr] by simp
  qed (use run in simp)
  then show ?case by (simp add: calm_def)
qed (simp add: calm_def)

lemma transaction_Inr: "transaction s body = Inr t \<longleftrightarrow> body s = Inr t"
  by (auto simp: transaction_def split: sum.splits)

lemma calm_steps: "calm (apply_trigger now occurred cause summary r)" "calm (clear_latch now i cause r)"
  "calm (record_push_failure now i v err)"
  by (auto simp: calm_def apply_trigger_def clear_latch_def record_push_failure_def Let_def
      dest!: calmD [OF calm_write_latch] split: sum.splits if_splits)

lemma calm_reconcile_outcome: "apply_reconcile_outcome now r out n s = Inr t \<Longrightarrow> traffic t = traffic s"
  by (auto simp: apply_reconcile_outcome_def Let_def dest!: calmD [OF calm_write_latch] split: sum.splits if_splits)

lemma calm_retry_rule: "calm (reconcile_retry_rule now state r)"
  by (auto simp: calm_def reconcile_retry_rule_def dest!: calm_reconcile_outcome)

lemma calm_input_event: "calm (handle_input_event env i e)"
  by (auto simp: calm_def handle_input_event_def Let_def transaction_Inr
      dest!: calmD [OF calm_run [OF calm_steps(1)]] split: sum.splits if_splits)

lemma calm_unlatch: "calm (handle_unlatch env i cause)"
  by (auto simp: calm_def handle_unlatch_def Let_def transaction_Inr
      dest!: calmD [OF calm_run [OF calm_steps(2)]] split: sum.splits if_splits)

lemma calm_reload: "calm (handle_reload env c ps ack)"
  by (auto simp: calm_def handle_reload_def Let_def split: option.splits)

section \<open>Results\<close>

definition is_result :: "core_message \<Rightarrow> bool" where
  "is_result m = (case m of PushResultMessage _ _ _ _ \<Rightarrow> True | _ \<Rightarrow> False)"

definition result_for :: "name \<Rightarrow> core_message \<Rightarrow> bool" where
  "result_for i m = (case m of PushResultMessage j _ _ _ \<Rightarrow> j = i | _ \<Rightarrow> False)"

lemma result_for_is_result: "result_for i m \<Longrightarrow> is_result m"
  by (cases m) (simp_all add: is_result_def result_for_def)

lemma no_result_for: "\<not> is_result m \<Longrightarrow> \<not> result_for i m"
  using result_for_is_result by blast

text \<open>A handler may add timers, none of which carries a push result.\<close>

definition timed :: "engine \<Rightarrow> engine \<Rightarrow> bool" where
  "timed s t \<longleftrightarrow> e_in_flight t = e_in_flight s \<and> e_dispatched t = e_dispatched s \<and> e_queue t = e_queue s \<and>
     (\<forall>m \<in> snd ` set (e_timers t). is_result m \<longrightarrow> m \<in> snd ` set (e_timers s))"

lemma timed_traffic: "traffic t = traffic s \<Longrightarrow> timed s t"
  by (simp add: timed_def traffic_def)

lemma timed_schedule: "traffic t = traffic s \<Longrightarrow> \<not> is_result m \<Longrightarrow> timed s (schedule now a m t)"
  by (auto simp: timed_def traffic_def schedule_def)

lemma timed_trans: "timed s t \<Longrightarrow> timed t u \<Longrightarrow> timed s u"
  unfolding timed_def by metis

lemma handle_timed:
  assumes "handle env m s = Inr t" "\<not> is_result m"
  shows "timed s t"
proof (cases m)
  case (ReconcileOutputMessage i n)
  then show ?thesis using assms(1)
    by (auto simp: handle_def handle_reconcile_retry_def Let_def transaction_Inr is_result_def
        simp: timed_schedule intro: timed_traffic dest!: calmD [OF calm_run [OF calm_retry_rule]] split: sum.splits if_splits)
next
  case (CatchUpMessage i n since)
  then show ?thesis using assms(1)
    by (auto simp: handle_def handle_catch_up_retry_def Let_def is_result_def
        simp: timed_schedule intro: timed_traffic dest!: calmD [OF calm_run [OF calm_input_event]] split: sum.splits if_splits)
next
  case PollHealthMessage
  then show ?thesis using assms(1)
    by (auto simp: handle_def handle_poll_health_def Let_def is_result_def intro!: timed_schedule)
qed (use assms in \<open>auto simp: handle_def is_result_def intro!: timed_traffic
      dest!: calmD [OF calm_input_event] calmD [OF calm_unlatch] calmD [OF calm_reload]\<close>)

lemma handle_result:
  assumes "handle env (PushResultMessage i v ok err) s = Inr t"
  shows "traffic t = traffic (s\<lparr>e_in_flight := e_in_flight s - {i}\<rparr>)"
  using assms by (auto simp: handle_def handle_push_result_def Let_def transaction_Inr
      dest!: calmD [OF calm_steps(3)] split: sum.splits if_splits)

section \<open>What the core sends\<close>

definition no_timed_result :: "engine \<Rightarrow> bool" where
  "no_timed_result s \<longleftrightarrow> (\<forall>m \<in> snd ` set (e_timers s). \<not> is_result m)"

text \<open>Going from one state to another, the core sends a push to outputs that were not in flight, one each.\<close>

definition sends :: "engine \<Rightarrow> engine \<Rightarrow> bool" where
  "sends s t \<longleftrightarrow> (\<exists>new. e_dispatched t = e_dispatched s @ new \<and> distinct (map fst new) \<and>
     fst ` set new \<inter> e_in_flight s = {} \<and> e_in_flight t = e_in_flight s \<union> fst ` set new) \<and> e_queue t = e_queue s"

lemma dispatch_sends:
  assumes ok: "engine_ok s"
  shows "sends s (dispatch_due_pushes now s)"
proof -
  let ?sent = "to_dispatch s (due_names s now)"
  obtain d l where eq: "dispatch_due_pushes now s = s\<lparr>e_db := d, e_latches := l, e_in_flight := e_in_flight s \<union> set ?sent,
      e_dispatched := e_dispatched s @ map (\<lambda>i. (i, v_update (e_graph s) (latch_rec s) i)) ?sent\<rparr>"
    using dispatch_due_pushes_facts [OF ok, of now] by blast
  have "distinct ?sent"
    using pending_pushes_due_distinct [OF engine_okD(1) [OF ok], of now] by (simp add: to_dispatch_def due_names_def)
  moreover have "set ?sent \<inter> e_in_flight s = {}" by (auto simp: to_dispatch_def)
  ultimately show ?thesis
    unfolding sends_def eq by (intro conjI exI [of _ "map (\<lambda>i. (i, v_update (e_graph s) (latch_rec s) i)) ?sent"])
      (simp_all add: comp_def image_image)
qed

lemma timed_sends: "timed s u \<Longrightarrow> sends u t \<Longrightarrow> sends s t"
  by (auto simp: timed_def sends_def)

lemma sends_fields:
  "sends s t \<Longrightarrow> e_in_flight u = e_in_flight t \<Longrightarrow> e_dispatched u = e_dispatched t \<Longrightarrow> e_queue u = e_queue t \<Longrightarrow> sends s u"
  by (simp add: sends_def)

lemma run_handlers_timed:
  "run_steps (handle env) ms s = Inr t \<Longrightarrow> \<forall>m \<in> set ms. \<not> is_result m \<Longrightarrow> timed s t"
proof (induction ms arbitrary: s)
  case Nil
  then show ?case by (simp add: timed_def)
next
  case (Cons m ms)
  then obtain u where u: "handle env m s = Inr u" "run_steps (handle env) ms u = Inr t" by (auto split: sum.splits)
  then show ?case using Cons.IH [OF u(2)] Cons.prems(2) handle_timed [OF u(1)] timed_trans by simp
qed

lemma tick_sends:
  assumes inv: "loop_inv s" and r: "no_timed_result s" and t: "tick env s = Inr t"
  shows "sends s t \<and> no_timed_result t"
proof -
  let ?now = "env_now env" and ?s = "s\<lparr>e_heartbeat := Some (env_now env)\<rparr>"
  obtain u where u: "fire_due_timers env ?now ?s = Inr u" and eq: "t = maybe_write_last_seen ?now (dispatch_due_pushes ?now u)"
    using t by (auto simp: tick_def Let_def split: sum.splits)
  have "loop_inv ?s" using inv by (simp add: loop_inv_def)
  from fire_due_timers_inv [OF this, of env ?now] u have ok: "engine_ok u" by (simp add: loop_inv_def core_inv_def)
  let ?rest = "s\<lparr>e_heartbeat := Some ?now, e_timers := filter (\<lambda>t. \<not> fst t \<le> ?now) (e_timers s)\<rparr>"
  have "\<forall>m \<in> set (map snd (filter (\<lambda>t. fst t \<le> ?now) (e_timers s))). \<not> is_result m"
    using r by (auto simp: no_timed_result_def)
  with u have "timed ?rest u"
    by (intro run_handlers_timed) (auto simp: fire_due_timers_def Let_def)
  then have tm: "timed s u" by (auto simp: timed_def)
  have "traffic t = traffic (dispatch_due_pushes ?now u)" by (simp add: eq)
  then have "sends s t" "e_timers t = e_timers u"
    using timed_sends [OF tm dispatch_sends [OF ok, of ?now]] dispatch_fields(2) [OF ok, of ?now]
    by (auto simp: traffic_def intro: sends_fields)
  moreover have "no_timed_result u" using tm r unfolding timed_def no_timed_result_def by blast
  ultimately show ?thesis by (simp add: no_timed_result_def)
qed

lemma reconcile_sends:
  assumes inv: "loop_inv s" and r: "no_timed_result s" and t: "reconcile env s = Inr t"
  shows "sends s t \<and> no_timed_result t \<and> loop_inv t"
proof -
  let ?now = "env_now env"
  have ok: "engine_ok s" using inv by (simp add: loop_inv_def core_inv_def)
  obtain u where u: "engine_ok u" "core_frame s u" "e_in_flight u = e_in_flight s" "e_dispatched u = e_dispatched s"
    and v: "view u = v_start (e_graph s) ?now (downtime_answers env s) (remote_answers env s) (view s)"
    and eq: "t = (dispatch_due_pushes ?now u)\<lparr>e_ready := True\<rparr>"
    and rt: "retry_timers s (s\<lparr>e_timers := e_timers u\<rparr>)"
    using reconcile_refines [OF ok, of env] t by auto
  obtain T where T: "e_timers u = e_timers s @ T"
    "\<forall>m \<in> snd ` set T. case m of CatchUpMessage _ n _ \<Rightarrow> n = 1 | ReconcileOutputMessage _ n \<Rightarrow> n = 1 | _ \<Rightarrow> False"
    using rt unfolding retry_timers_def by (metis (no_types, lifting) engine.select_convs(6) engine.update_convs(6) engine.surjective)
  then have new: "\<forall>m \<in> snd ` set T. internal m \<and> \<not> is_result m"
    by (auto simp: internal_def is_result_def split: core_message.splits)
  note f = dispatch_fields [OF u(1), of ?now]
  have "timed s u" using u(2-4) new unfolding timed_def T(1) by (auto simp: core_frame_def)
  then have "sends s t" using timed_sends [OF _ dispatch_sends [OF u(1), of ?now]] by (simp add: eq sends_def)
  moreover have "no_timed_result t" using r new by (auto simp: no_timed_result_def eq f T(1))
  moreover have "loop_inv t"
  proof (rule loop_inv_admissible [OF inv])
    have "core_inv u"
      using u(1,2) settled_v_forced by (auto simp: core_inv_def outputs_settled_def settled_def v v_start_def core_frame_def)
    then show "core_inv t" by (simp add: eq core_inv_dispatch)
    show "db_rules (e_db t) = db_rules (e_db s)" "set (e_queue t) \<subseteq> set (e_queue s)"
      using u(2) f by (simp_all add: eq core_frame_def)
    show "snd ` set (e_timers t) \<subseteq> snd ` set (e_timers s) \<union> Collect internal"
      using new by (auto simp: eq f T(1))
  qed
  ultimately show ?thesis by blast
qed

section \<open>The core and the pool\<close>

definition request_of :: "name \<times> output_update \<Rightarrow> push_request" where
  "request_of = (\<lambda>(i, u). \<lparr>pr_instance = i, pr_update = u\<rparr>)"

text \<open>\<open>Dispatcher.dispatch\<close> for each push a step of the core sent, and the reports a step of a thread made.\<close>

definition hand_over :: "engine \<Rightarrow> engine \<Rightarrow> pool \<Rightarrow> pool" where
  "hand_over s t p = fold dispatch (map request_of (drop (length (e_dispatched s)) (e_dispatched t))) p"

definition post_reports :: "pool \<Rightarrow> pool \<Rightarrow> engine \<Rightarrow> engine" where
  "post_reports p p' s = fold submit (map snd (drop (length (po_reported p)) (po_reported p'))) s"

text \<open>
  The core handles the oldest message or ticks (a loop iteration and \<open>drain\<close> are made of these) or
  runs the startup reconciliation; a thread of the pool takes a step; the pool is started, stopped
  or given other outputs; or, as in the core's own step relation, a plugin writes its scratch space, a
  reload mirrors and posts a configuration, or another thread posts a message that is not a result.
\<close>

inductive system_step :: "engine \<times> pool \<Rightarrow> engine \<times> pool \<Rightarrow> bool" where
  handled: "e_queue s = m # ms \<Longrightarrow> handle env m (s\<lparr>e_queue := ms\<rparr>) = Inr t \<Longrightarrow> system_step (s, p) (t, p)"
| ticked: "tick env s = Inr t \<Longrightarrow> system_step (s, p) (t, hand_over s t p)"
| reconciled: "reconcile env s = Inr t \<Longrightarrow> system_step (s, p) (t, hand_over s t p)"
| performed: "worker_step p p' \<Longrightarrow> system_step (s, p) (post_reports p p' s, p')"
| pool_started: "system_step (s, p) (s, start_pool p)"
| pool_stopped: "system_step (s, p) (s, stop_pool p)"
| pool_switched: "system_step (s, p) (s, set_outputs outputs p)"
| scratch_set: "system_step (s, p) (s\<lparr>e_db := kv_set (e_db s) i key v\<rparr>, p)"
| scratch_delete: "system_step (s, p) (s\<lparr>e_db := kv_delete (e_db s) i key\<rparr>, p)"
| mirroring: "config_keyed c \<Longrightarrow> mirror_configuration (e_db s) c = Inr d \<Longrightarrow>
    system_step (s, p) (reload_latches (s\<lparr>e_db := d\<rparr>), p)"
| reloading: "mirrored (e_db s) c \<Longrightarrow> system_step (s, p) (submit (ReloadMessage c ps ack) s, p)"
| posted: "internal m \<Longrightarrow> \<not> is_result m \<Longrightarrow> system_step (s, p) (submit m s, p)"

definition pushes_under_way :: "name \<Rightarrow> engine \<Rightarrow> pool \<Rightarrow> nat" where
  "pushes_under_way i s p =
     size (filter_mset (\<lambda>r. pr_instance r = i) (po_outstanding p)) + length (filter (result_for i) (e_queue s))"

definition delivery_inv :: "engine \<times> pool \<Rightarrow> bool" where
  "delivery_inv = (\<lambda>(s, p). loop_inv s \<and> no_timed_result s \<and>
     (\<forall>i. pushes_under_way i s p = (if i \<in> e_in_flight s then 1 else 0)))"

section \<open>One push per output\<close>

lemma outstanding_dispatch: "po_outstanding (fold dispatch rs p) = po_outstanding p + mset rs"
  by (induction rs arbitrary: p) (simp_all add: dispatch_def po_outstanding_def map_filter_append map_filter_simps)

lemma pr_instance_request_of [simp]: "pr_instance (request_of x) = fst x"
  by (simp add: request_of_def split: prod.split)

lemma size_requests:
  "distinct (map fst new) \<Longrightarrow>
   size (filter_mset (\<lambda>r. pr_instance r = i) (image_mset request_of (mset new))) = (if i \<in> fst ` set new then 1 else 0)"
proof (induction new)
  case (Cons x new)
  then show ?case by (cases "fst x = i") auto
qed simp

lemma sends_delivery:
  assumes inv: "delivery_inv (s, p)" and snd: "sends s t" and t: "loop_inv t" "no_timed_result t"
  shows "delivery_inv (t, hand_over s t p)"
proof -
  obtain new where n: "e_dispatched t = e_dispatched s @ new" "distinct (map fst new)"
    "fst ` set new \<inter> e_in_flight s = {}" "e_in_flight t = e_in_flight s \<union> fst ` set new" "e_queue t = e_queue s"
    using snd by (auto simp: sends_def)
  have "pushes_under_way i t (hand_over s t p) = pushes_under_way i s p + (if i \<in> fst ` set new then 1 else 0)" for i
    by (simp add: pushes_under_way_def hand_over_def n(1,5) outstanding_dispatch size_requests [OF n(2)])
  then show ?thesis using inv t n(3,4) by (auto simp: delivery_inv_def)
qed

text \<open>A step of a thread moves a request on, or turns it into its report.\<close>

lemma worker_step_moves:
  "worker_step p p' \<Longrightarrow>
   (po_outstanding p' = po_outstanding p \<and> po_reported p' = po_reported p) \<or>
   (\<exists>r m. po_outstanding p = po_outstanding p' + {#r#} \<and> po_reported p' = po_reported p @ [(r, m)] \<and> answers_request (r, m))"
proof (induction rule: worker_step.induct)
  case (take i p r q)
  then have "po_outstanding p = po_outstanding (p\<lparr>po_queue := q\<rparr>) + {#r#}"
    by (simp add: po_outstanding_def map_filter_simps)
  then show ?case using outstanding_set_worker [of i "p\<lparr>po_queue := q\<rparr>" "Taken r"] take by simp
next
  case (leave i p q)
  then have "po_outstanding p = po_outstanding (p\<lparr>po_queue := q\<rparr>)"
    by (simp add: po_outstanding_def map_filter_simps)
  then show ?case using outstanding_set_worker [of i "p\<lparr>po_queue := q\<rparr>" Gone] leave by simp
next
  case (missing i p r)
  then show ?case using outstanding_set_worker [of i "report r (missing_report r) p" Idle]
    by (intro disjI2 exI [of _ r] exI [of _ "missing_report r"]) simp
next
  case (found i p r)
  then show ?case using outstanding_set_worker [of i p "Applying r"] by simp
next
  case (applied i p r answer)
  then show ?case using outstanding_set_worker [of i "report r (apply_report r answer) p" Idle]
    by (intro disjI2 exI [of _ r] exI [of _ "apply_report r answer"]) simp
qed

lemma loop_inv_submit: "loop_inv s \<Longrightarrow> internal m \<Longrightarrow> loop_inv (submit m s)"
  by (auto simp: submit_def loop_inv_def internal_admissible)

lemma performed_delivery:
  assumes inv: "delivery_inv (s, p)" and w: "worker_step p p'"
  shows "delivery_inv (post_reports p p' s, p')"
  using worker_step_moves [OF w]
proof (elim disjE exE conjE)
  assume "po_outstanding p' = po_outstanding p" "po_reported p' = po_reported p"
  then show ?thesis using inv by (simp add: delivery_inv_def post_reports_def pushes_under_way_def)
next
  fix r m
  assume r: "po_outstanding p = po_outstanding p' + {#r#}" "po_reported p' = po_reported p @ [(r, m)]" "answers_request (r, m)"
  obtain ok err where m: "m = PushResultMessage (pr_instance r) (ou_state (pr_update r)) ok err"
    using answers_request_message [OF r(3)] by blast
  have eq: "post_reports p p' s = submit m s" by (simp add: post_reports_def r(2))
  have "pushes_under_way i (submit m s) p' = pushes_under_way i s p" for i
    by (simp add: pushes_under_way_def r(1) m submit_def result_for_def)
  moreover have "loop_inv (submit m s)" using inv by (intro loop_inv_submit) (simp_all add: delivery_inv_def m internal_def)
  moreover have "no_timed_result (submit m s)" "e_in_flight (submit m s) = e_in_flight s"
    using inv by (simp_all add: delivery_inv_def no_timed_result_def submit_def)
  ultimately show ?thesis using inv by (simp add: eq delivery_inv_def)
qed

lemma handle_loop_inv:
  assumes inv: "loop_inv s" and q: "e_queue s = m # ms" and h: "handle env m (s\<lparr>e_queue := ms\<rparr>) = Inr t"
  shows "loop_inv t"
proof -
  let ?s = "s\<lparr>e_queue := ms\<rparr>"
  have c: "core_inv ?s" and a: "admissible (e_db ?s) m" using inv q by (auto simp: loop_inv_def)
  have u: "core_inv t" "handler_frame ?s t" using kept_handle [OF c a, of env] h by simp_all
  show ?thesis
    by (rule loop_inv_admissible [OF inv u(1)]) (use u(2) q in \<open>auto simp: handler_frame_def\<close>)
qed

lemma handled_timed:
  assumes inv: "delivery_inv (s, p)" and q: "e_queue s = m # ms" and t: "timed (s\<lparr>e_queue := ms\<rparr>) t" "loop_inv t"
    and m: "\<not> is_result m"
  shows "delivery_inv (t, p)"
proof -
  have f: "e_in_flight t = e_in_flight s" "e_queue t = ms" using t(1) by (simp_all add: timed_def)
  have "no_timed_result t" using t(1) inv unfolding delivery_inv_def timed_def no_timed_result_def by fastforce
  moreover have "pushes_under_way i t p = pushes_under_way i s p" for i
    using no_result_for [OF m] by (simp add: pushes_under_way_def f q)
  ultimately show ?thesis using inv t(2) f by (simp add: delivery_inv_def)
qed

lemma handled_result:
  assumes inv: "delivery_inv (s, p)" and q: "e_queue s = PushResultMessage j v ok err # ms"
    and tr: "traffic t = traffic (s\<lparr>e_queue := ms, e_in_flight := e_in_flight s - {j}\<rparr>)" and t: "loop_inv t"
  shows "delivery_inv (t, p)"
proof -
  have f: "e_in_flight t = e_in_flight s - {j}" "e_queue t = ms" "e_timers t = e_timers s"
    using tr by (simp_all add: traffic_def)
  have "pushes_under_way i s p = pushes_under_way i t p + (if i = j then 1 else 0)" for i
    using q by (simp add: pushes_under_way_def f result_for_def)
  then have both: "(if i \<in> e_in_flight s then 1 else 0) = pushes_under_way i t p + (if i = j then 1 else 0)" for i
    using inv by (simp add: delivery_inv_def)
  have "pushes_under_way i t p = (if i \<in> e_in_flight t then 1 else 0)" for i
    using both [of i] by (cases "i = j"; cases "i \<in> e_in_flight s") (simp_all add: f(1))
  then show ?thesis using inv t f(3) by (simp add: delivery_inv_def no_timed_result_def)
qed

lemma handled_delivery:
  assumes inv: "delivery_inv (s, p)" and q: "e_queue s = m # ms" and h: "handle env m (s\<lparr>e_queue := ms\<rparr>) = Inr t"
  shows "delivery_inv (t, p)"
proof -
  have t: "loop_inv t" using handle_loop_inv [OF _ q h] inv by (simp add: delivery_inv_def)
  show ?thesis
  proof (cases "is_result m")
    case True
    then obtain j v ok err where m: "m = PushResultMessage j v ok err" by (cases m) (simp_all add: is_result_def)
    show ?thesis by (rule handled_result [OF inv q [unfolded m] _ t]) (use handle_result [OF h [unfolded m]] in simp)
  next
    case False
    show ?thesis by (rule handled_timed [OF inv q handle_timed [OF h False] t False])
  qed
qed

lemma outstanding_pool_control:
  "po_outstanding (start_pool p) = po_outstanding p" "po_outstanding (stop_pool p) = po_outstanding p"
  "po_outstanding (set_outputs outputs p) = po_outstanding p"
  by (simp_all add: po_outstanding_def start_pool_def stop_pool_def set_outputs_def map_filter_append
      map_filter_markers sum_list_idle)

lemma undisturbed:
  assumes "delivery_inv (s, p)" "core_step s t" "traffic t = traffic s"
  shows "delivery_inv (t, p)"
  using assms core_step_inv [OF assms(2)]
  by (auto simp: delivery_inv_def traffic_def no_timed_result_def pushes_under_way_def)

lemma undisturbed_submit:
  assumes "delivery_inv (s, p)" "core_step s (submit m s)" "\<not> is_result m"
  shows "delivery_inv (submit m s, p)"
proof -
  have "loop_inv (submit m s)" using core_step_inv [OF assms(2)] assms(1) by (simp add: delivery_inv_def)
  then show ?thesis using assms(1) no_result_for [OF assms(3)]
    by (simp add: delivery_inv_def submit_def no_timed_result_def pushes_under_way_def)
qed

lemma system_step_delivery: "system_step x y \<Longrightarrow> delivery_inv x \<Longrightarrow> delivery_inv y"
proof (induction rule: system_step.induct)
  case (handled s m ms env t p)
  then show ?case using handled_delivery by blast
next
  case (ticked env s t p)
  have l: "loop_inv s" "no_timed_result s" using ticked(2) by (simp_all add: delivery_inv_def)
  then have "sends s t" "no_timed_result t" "loop_inv t"
    using tick_sends [OF l ticked(1)] tick_inv [OF l(1), of env] ticked(1) by simp_all
  then show ?case using sends_delivery [OF ticked(2)] by simp
next
  case (reconciled env s t p)
  have l: "loop_inv s" "no_timed_result s" using reconciled(2) by (simp_all add: delivery_inv_def)
  then show ?case using reconcile_sends [OF l reconciled(1)] sends_delivery [OF reconciled(2)] by simp
next
  case (performed p p' s)
  then show ?case by (intro performed_delivery)
next
  case (scratch_set s p i key v)
  then show ?case by (rule undisturbed) (simp_all add: core_step.scratch_set)
next
  case (scratch_delete s p i key)
  then show ?case by (rule undisturbed) (simp_all add: core_step.scratch_delete)
next
  case (mirroring c s d p)
  from mirroring(3) show ?case
    by (rule undisturbed) (simp_all add: core_step.mirroring [OF mirroring(1,2)])
next
  case (reloading s c p ps ack)
  from reloading(2) show ?case
    by (rule undisturbed_submit) (simp_all add: core_step.reloading [OF reloading(1)] is_result_def)
next
  case (posted m s p)
  from posted(3) show ?case
    by (rule undisturbed_submit) (use posted in \<open>simp_all add: core_step.submitted\<close>)
qed (simp_all add: delivery_inv_def pushes_under_way_def outstanding_pool_control)

lemma system_run_delivery: "system_step\<^sup>*\<^sup>* x y \<Longrightarrow> delivery_inv x \<Longrightarrow> delivery_inv y"
  by (induction rule: rtranclp_induct) (auto intro: system_step_delivery)

lemma started_delivery:
  assumes "db_ok d" "config_keyed c" "mirror_configuration d c = Inr d'"
  shows "delivery_inv (started now d' c, init_pool outputs n)"
  using started_inv [OF assms]
  by (simp add: delivery_inv_def no_timed_result_def pushes_under_way_def started_def init_engine_def schedule_def
      reload_latches_def init_pool_def po_outstanding_def map_filter_simps is_result_def)

text \<open>
  C5. However the loop, the pool's threads, reloads and shutdowns interleave, an output has at most one
  push under way: exactly one while the core counts it as in flight, waiting in the pool,
  being applied or reported and not yet handled; none otherwise. So no output is ever applied twice at once,
  and none is left in flight with nothing on its way to end that.
\<close>

theorem one_push_per_output:
  assumes "db_ok d" "config_keyed c" "mirror_configuration d c = Inr d'"
    and "system_step\<^sup>*\<^sup>* (started now d' c, init_pool outputs n) (s, p)"
  shows "\<forall>i. pushes_under_way i s p = (if i \<in> e_in_flight s then 1 else 0)"
  using system_run_delivery [OF assms(4) started_delivery [OF assms(1-3)]] by (simp add: delivery_inv_def)

theorem one_push_per_output_witness:
  "\<exists>s p. system_step\<^sup>*\<^sup>* (started 0 ex_db ex_config, init_pool [''pager''] 2) (s, p) \<and> po_running p \<and>
     length (e_queue s) = 1 \<and> pushes_under_way ''pager'' s p = 0"
proof -
  let ?s = "started 0 ex_db ex_config" and ?p = "init_pool [''pager''] 2"
  let ?m = "UnlatchRequestMessage ''pager'' ''button''"
  have "system_step (?s, ?p) (?s, start_pool ?p)" by (rule pool_started)
  moreover have "system_step (?s, start_pool ?p) (submit ?m ?s, start_pool ?p)"
    by (rule posted) (simp_all add: internal_def is_result_def)
  ultimately have run: "system_step\<^sup>*\<^sup>* (?s, ?p) (submit ?m ?s, start_pool ?p)"
    by (meson rtranclp.rtrancl_into_rtrancl rtranclp.rtrancl_refl)
  have q: "e_in_flight (submit ?m ?s) = {}" "length (e_queue (submit ?m ?s)) = 1" "po_running (start_pool ?p)"
    by (simp_all add: submit_def started_def init_engine_def schedule_def reload_latches_def start_pool_def)
  with one_push_per_output [OF db_ok_empty ex_keyed ex_mirror run] show ?thesis
    using run by (intro exI [of _ "submit ?m ?s"] exI [of _ "start_pool ?p"]) simp
qed

end
