(* ===== verification/Log_Blind.thy ===== *)
theory Log_Blind
  imports Engine_Loop
begin

text \<open>
  The event log is a log and not an input: \<open>storage.py\<close> says that nothing may read it back to
  make a decision, and that a daemon whose log table is truncated must behave identically.
  Two engines agree when they differ in the log table only; every step of the core is shown
  to take agreeing engines to agreeing outcomes.
\<close>

named_theorems blind_intros \<open>steps that agree on agreeing engines\<close>

section \<open>Engines that differ in the log\<close>

definition relog_db :: "event_log_entry list \<Rightarrow> int \<Rightarrow> db \<Rightarrow> db" where
  "relog_db L q d = d\<lparr>db_event_log := L, db_event_seq := q\<rparr>"

definition relog :: "event_log_entry list \<Rightarrow> int \<Rightarrow> engine \<Rightarrow> engine" where
  "relog L q s = s\<lparr>e_db := relog_db L q (e_db s)\<rparr>"

definition agree_db :: "db \<Rightarrow> db \<Rightarrow> bool" where
  "agree_db d e \<longleftrightarrow> (\<exists>L q. e = relog_db L q d)"

definition agree :: "engine \<Rightarrow> engine \<Rightarrow> bool" where
  "agree s t \<longleftrightarrow> (\<exists>L q. t = relog L q s)"

fun agree_out :: "engine outcome \<Rightarrow> engine outcome \<Rightarrow> bool" where
  "agree_out (Inl (x, d)) (Inl (y, e)) \<longleftrightarrow> x = y \<and> agree_db d e"
| "agree_out (Inr s) (Inr t) \<longleftrightarrow> agree s t"
| "agree_out _ _ \<longleftrightarrow> False"

fun agree_run :: "engine outcome option \<Rightarrow> engine outcome option \<Rightarrow> bool" where
  "agree_run None None \<longleftrightarrow> True"
| "agree_run (Some a) (Some b) \<longleftrightarrow> agree_out a b"
| "agree_run _ _ \<longleftrightarrow> False"

lemma relog_db_fields [simp]:
  "db_instances (relog_db L q d) = db_instances d" "db_rules (relog_db L q d) = db_rules d"
  "db_rule_inputs (relog_db L q d) = db_rule_inputs d" "db_rule_outputs (relog_db L q d) = db_rule_outputs d"
  "db_latches (relog_db L q d) = db_latches d" "db_output_state (relog_db L q d) = db_output_state d"
  "db_plugin_kv (relog_db L q d) = db_plugin_kv d" "db_pending (relog_db L q d) = db_pending d"
  "db_health (relog_db L q d) = db_health d" "db_daemon_state (relog_db L q d) = db_daemon_state d"
  by (simp_all add: relog_db_def)

lemma relog_db_reads [simp]:
  "latch (relog_db L q d) = latch d" "latches (relog_db L q d) = latches d"
  "output_state (relog_db L q d) = output_state d" "pending_push_of (relog_db L q d) = pending_push_of d"
  "pending_pushes_due (relog_db L q d) = pending_pushes_due d" "last_applied (relog_db L q d) = last_applied d"
  "last_seen_at (relog_db L q d) = last_seen_at d"
  by (auto simp: fun_eq_iff latch_def latches_def output_state_def pending_push_of_def pending_pushes_due_def
      pending_pushes_def last_applied_def last_seen_at_def)

lemma relog_db_writes [simp]:
  "write_pending_push (relog_db L q d) p = relog_db L q (write_pending_push d p)"
  "delete_pending_push (relog_db L q d) i = relog_db L q (delete_pending_push d i)"
  "write_output_state (relog_db L q d) r = relog_db L q (write_output_state d r)"
  "write_last_seen_at (relog_db L q d) t = relog_db L q (write_last_seen_at d t)"
  "write_health (relog_db L q d) h = relog_db L q (write_health d h)"
  "write_latch (relog_db L q d) l = map_sum id (relog_db L q) (write_latch d l)"
  by (simp_all add: relog_db_def write_pending_push_def delete_pending_push_def write_output_state_def
      write_last_seen_at_def write_health_def write_latch_def latch_def)

lemma agree_db_relog [simp]: "agree_db d (relog_db L q d)"
  by (auto simp: agree_db_def)

lemma agree_relog [simp]: "agree s (relog L q s)"
  by (auto simp: agree_def)

lemma agreeE: "agree s t \<Longrightarrow> (\<And>L q. t = relog L q s \<Longrightarrow> P) \<Longrightarrow> P"
  by (auto simp: agree_def)

lemma agree_refl [simp]: "agree s s"
proof -
  have "s = relog (db_event_log (e_db s)) (db_event_seq (e_db s)) s" by (simp add: relog_def relog_db_def)
  then show ?thesis unfolding agree_def by blast
qed

lemma agree_append_db [simp]:
  "agree_db (append_event d t k i r x n) (append_event (relog_db L q d) t k i r x n)"
proof -
  have "append_event (relog_db L q d) t k i r x n =
      relog_db (db_event_log (append_event (relog_db L q d) t k i r x n)) (db_event_seq (append_event (relog_db L q d) t k i r x n))
        (append_event d t k i r x n)"
    by (simp add: append_event_def relog_db_def Let_def)
  then show ?thesis unfolding agree_db_def by blast
qed

section \<open>The engine's fields\<close>

lemma relog_fields [simp]:
  "e_db (relog L q s) = relog_db L q (e_db s)" "e_graph (relog L q s) = e_graph s"
  "e_plugins (relog L q s) = e_plugins s" "e_settings (relog L q s) = e_settings s"
  "e_queue (relog L q s) = e_queue s" "e_timers (relog L q s) = e_timers s"
  "e_in_flight (relog L q s) = e_in_flight s" "e_latches (relog L q s) = e_latches s"
  "e_stopping (relog L q s) = e_stopping s" "e_ready (relog L q s) = e_ready s"
  "e_last_seen_written_at (relog L q s) = e_last_seen_written_at s" "e_heartbeat (relog L q s) = e_heartbeat s"
  "e_dispatched (relog L q s) = e_dispatched s" "e_acknowledged (relog L q s) = e_acknowledged s"
  by (simp_all add: relog_def)

lemma relog_updates [simp]:
  "(relog L q s)\<lparr>e_db := relog_db L q d\<rparr> = relog L q (s\<lparr>e_db := d\<rparr>)"
  "(relog L q s)\<lparr>e_graph := g\<rparr> = relog L q (s\<lparr>e_graph := g\<rparr>)"
  "(relog L q s)\<lparr>e_plugins := p\<rparr> = relog L q (s\<lparr>e_plugins := p\<rparr>)"
  "(relog L q s)\<lparr>e_queue := ms\<rparr> = relog L q (s\<lparr>e_queue := ms\<rparr>)"
  "(relog L q s)\<lparr>e_timers := ts\<rparr> = relog L q (s\<lparr>e_timers := ts\<rparr>)"
  "(relog L q s)\<lparr>e_in_flight := f\<rparr> = relog L q (s\<lparr>e_in_flight := f\<rparr>)"
  "(relog L q s)\<lparr>e_latches := l\<rparr> = relog L q (s\<lparr>e_latches := l\<rparr>)"
  "(relog L q s)\<lparr>e_stopping := b\<rparr> = relog L q (s\<lparr>e_stopping := b\<rparr>)"
  "(relog L q s)\<lparr>e_ready := b\<rparr> = relog L q (s\<lparr>e_ready := b\<rparr>)"
  "(relog L q s)\<lparr>e_last_seen_written_at := t\<rparr> = relog L q (s\<lparr>e_last_seen_written_at := t\<rparr>)"
  "(relog L q s)\<lparr>e_heartbeat := t\<rparr> = relog L q (s\<lparr>e_heartbeat := t\<rparr>)"
  "(relog L q s)\<lparr>e_dispatched := ds\<rparr> = relog L q (s\<lparr>e_dispatched := ds\<rparr>)"
  "(relog L q s)\<lparr>e_acknowledged := as\<rparr> = relog L q (s\<lparr>e_acknowledged := as\<rparr>)"
  by (simp_all add: relog_def)

lemma agree_append [simp]:
  "agree (append_event_e now k i r x s) (append_event_e now k i r x (relog L q s))"
proof -
  obtain L' q' where "append_event (relog_db L q (e_db s)) now k i r x (event_log_max_rows (e_settings s)) =
      relog_db L' q' (append_event (e_db s) now k i r x (event_log_max_rows (e_settings s)))"
    using agree_append_db unfolding agree_db_def by blast
  then have "append_event_e now k i r x (relog L q s) = relog L' q' (append_event_e now k i r x s)"
    by (simp add: append_event_e_def relog_def)
  then show ?thesis by simp
qed

lemma append_graph [simp]: "e_graph (append_event_e now k i r x s) = e_graph s"
  by (simp add: append_event_e_def)

lemma relog_reads [simp]:
  "latch_rec (relog L q s) = latch_rec s" "latch_states (relog L q s) = latch_states s"
  "desired_state (relog L q s) = desired_state s"
  by (auto simp: fun_eq_iff latch_rec_def latch_states_def desired_state_def)

section \<open>Operations that do not log\<close>

lemma fold_relog:
  "(\<And>x u. f x (relog L q u) = relog L q (f x u)) \<Longrightarrow> fold f xs (relog L q s) = relog L q (fold f xs s)"
  by (induction xs arbitrary: s) simp_all

lemma fold_relog_pair:
  "(\<And>x u c. f x (relog L q u, c) = apfst (relog L q) (f x (u, c))) \<Longrightarrow>
   fold f xs (relog L q s, c) = apfst (relog L q) (fold f xs (s, c))"
proof (induction xs arbitrary: s c)
  case (Cons x xs)
  then show ?case by (cases "f x (s, c)") simp
qed simp

lemma relog_ensure [simp]:
  "ensure_latch r (relog L q s) = relog L q (ensure_latch r s)"
  "fold (ensure_latch \<circ> f) rs (relog L q s) = relog L q (fold (ensure_latch \<circ> f) rs s)"
proof -
  show *: "ensure_latch r (relog L q s) = relog L q (ensure_latch r s)" for r s
    by (simp add: ensure_latch_def split: option.split)
  show "fold (ensure_latch \<circ> f) rs (relog L q s) = relog L q (fold (ensure_latch \<circ> f) rs s)"
    by (rule fold_relog) (simp add: *)
qed

lemma relog_pure [simp]:
  "reload_latches (relog L q s) = relog L q (reload_latches s)"
  "schedule now a m (relog L q s) = relog L q (schedule now a m s)"
  "sync_output now b i (relog L q s) = relog L q (sync_output now b i s)"
  "start_push p (relog L q s) = relog L q (start_push p s)"
  "record_health now i h (relog L q s) = relog L q (record_health now i h s)"
  "maybe_write_last_seen now (relog L q s) = relog L q (maybe_write_last_seen now s)"
  "build_update i b (relog L q s) = apsnd (relog L q) (build_update i b s)"
  by (simp_all add: reload_latches_def schedule_def sync_output_def start_push_def record_health_def
      maybe_write_last_seen_def build_update_def Let_def case_prod_beta split: list.split option.split)

lemma relog_folds [simp]:
  "sync_outputs now is (relog L q s) = relog L q (sync_outputs now is s)"
  "fold (sync_output now b) is (relog L q s) = relog L q (fold (sync_output now b) is s)"
  "fold start_push ps (relog L q s) = relog L q (fold start_push ps s)"
  "fold (\<lambda>i. record_health now i (h i)) is (relog L q s) = relog L q (fold (\<lambda>i. record_health now i (h i)) is s)"
  by (simp_all add: sync_outputs_def fold_relog)

lemma relog_dispatch_one:
  "dispatch_one p (relog L q s, c) = apfst (relog L q) (dispatch_one p (s, c))"
  by (simp add: dispatch_one_def Let_def case_prod_beta)

lemma relog_dispatch [simp]:
  "dispatch_due_pushes now (relog L q s) = relog L q (dispatch_due_pushes now s)"
  by (simp add: dispatch_due_pushes_def Let_def fold_relog_pair relog_dispatch_one case_prod_beta)

lemma relog_collect [simp]:
  "collect_downtime_events env since (relog L q s) = apfst (relog L q) (collect_downtime_events env since s)"
  "collect_remote_states env (relog L q s) = apfst (relog L q) (collect_remote_states env s)"
  unfolding collect_downtime_events_def collect_remote_states_def relog_fields
  by (rule fold_relog_pair; simp add: collect_downtime_one_def collect_remote_one_def Let_def split: sum.split)+

lemma relog_write_latch [simp]:
  "write_latch_e l (relog L q s) = map_sum (map_prod id (relog_db L q)) (relog L q) (write_latch_e l s)"
  by (simp add: write_latch_e_def split: sum.split)

section \<open>Operations that log\<close>

definition blind :: "(engine \<Rightarrow> engine outcome) \<Rightarrow> bool" where
  "blind f \<longleftrightarrow> (\<forall>s t. agree s t \<longrightarrow> agree_out (f s) (f t))"

lemma blindI: "(\<And>s L q. agree_out (f s) (f (relog L q s))) \<Longrightarrow> blind f"
  by (auto simp: blind_def agree_def)

lemma blindD: "blind f \<Longrightarrow> agree s t \<Longrightarrow> agree_out (f s) (f t)"
  by (simp add: blind_def)

lemma agree_out_bind:
  "agree_out a b \<Longrightarrow> blind g \<Longrightarrow>
   agree_out (case a of Inl x \<Rightarrow> Inl x | Inr s \<Rightarrow> g s) (case b of Inl x \<Rightarrow> Inl x | Inr s \<Rightarrow> g s)"
  by (induction a b rule: agree_out.induct) (simp_all add: blindD)

lemma agree_db_of: "agree s t \<Longrightarrow> agree_db (e_db s) (e_db t)"
  by (auto simp: agree_def)

lemma blind_transaction [blind_intros]:
  "blind body \<Longrightarrow> agree s t \<Longrightarrow> agree_out (transaction s body) (transaction t body)"
  using blindD [of body s t] agree_db_of [of s t]
  by (cases "body s"; cases "body t") (auto simp: transaction_def split: prod.split)

lemma blind_bind [blind_intros]:
  "blind f \<Longrightarrow> blind g \<Longrightarrow> blind (\<lambda>s. case f s of Inl x \<Rightarrow> Inl x | Inr u \<Rightarrow> g u)"
  by (auto simp: blind_def intro!: agree_out_bind [unfolded blind_def])

lemma blind_if [blind_intros]: "blind f \<Longrightarrow> blind g \<Longrightarrow> blind (\<lambda>s. if c then f s else g s)"
  by (simp add: blind_def)

lemma blind_run [blind_intros]:
  "(\<And>x. blind (f x)) \<Longrightarrow> blind (run_steps f xs)"
proof (induction xs)
  case Nil
  then show ?case by (simp add: blind_def)
next
  case (Cons x xs)
  then have "blind (run_steps f xs)" "blind (f x)" by simp_all
  then show ?case by (auto simp: blind_def intro!: agree_out_bind [unfolded blind_def])
qed

lemma blind_append [blind_intros]: "blind (\<lambda>s. Inr (append_event_e now k i r x s))"
  by (rule blindI) simp

lemma blind_after_append: "blind f \<Longrightarrow> blind (\<lambda>s. f (append_event_e now k i r x s))"
  by (auto simp: blind_def agree_def intro: agree_append [unfolded agree_def])

lemma blind_sync_outputs [blind_intros]: "blind (\<lambda>s. Inr (sync_outputs now (F (e_graph s)) s))"
  by (rule blindI) simp

section \<open>The handlers\<close>

text \<open>A write of a latch followed by its line in the log.\<close>

lemma agree_logged_write:
  "agree_out (case write_latch_e l s of Inl x \<Rightarrow> Inl x | Inr u \<Rightarrow> Inr (append_event_e now k i r x u))
     (case write_latch_e l (relog L q s) of Inl x \<Rightarrow> Inl x | Inr u \<Rightarrow> Inr (append_event_e now k i r x u))"
  by (cases "write_latch_e l s") auto

lemma blind_apply_trigger [blind_intros]: "blind (apply_trigger now occurred cause summary r)"
  by (rule blindI) (simp add: apply_trigger_def Let_def agree_logged_write del: relog_write_latch)

lemma blind_clear_latch [blind_intros]: "blind (clear_latch now i cause r)"
  by (rule blindI) (simp add: clear_latch_def Let_def agree_logged_write del: relog_write_latch)

lemma blind_apply_reconcile:
  "agree_out (apply_reconcile_outcome now r out n s) (apply_reconcile_outcome now r out n (relog L q s))"
proof (rule blindD [OF _ agree_relog], rule blindI)
  fix s L q
  let ?u = "(latch_rec s r)\<lparr>lr_state := ro_state out, lr_set_at := ro_set_at out,
    lr_cleared_at := ro_cleared_at out, lr_trigger_count := lr_trigger_count (latch_rec s r) + n\<rparr>"
  show "agree_out (apply_reconcile_outcome now r out n s) (apply_reconcile_outcome now r out n (relog L q s))"
    by (cases "?u = latch_rec s r")
      (simp_all add: apply_reconcile_outcome_def Let_def agree_logged_write del: relog_write_latch)
qed

lemma blind_handle_input_event [blind_intros]: "blind (handle_input_event env i event)"
  by (rule blindI, simp only: handle_input_event_def Let_def relog_fields)
    (intro blind_intros blind_after_append [where f = "run_steps f xs" for f xs] agree_relog)

lemma blind_handle_unlatch: "blind (handle_unlatch env i cause)"
  by (rule blindI, simp only: handle_unlatch_def Let_def relog_fields relog_reads relog_ensure)
    (intro blind_intros agree_relog)

lemma blind_record_push_failure [blind_intros]: "blind (record_push_failure now i v err)"
  by (rule blindI) (simp add: record_push_failure_def Let_def split: sum.split)

lemma blind_write_output_state [blind_intros]:
  "blind (\<lambda>s. Inr (append_event_e now k i r x (s\<lparr>e_db := write_output_state (e_db s) o'\<rparr>)))"
  by (rule blindI) simp

lemma blind_handle_push_result: "blind (handle_push_result env i v ok err)"
  by (rule blindI, simp only: handle_push_result_def Let_def relog_fields relog_updates)
    (intro blind_intros agree_relog blind_sync_outputs [where F = "\<lambda>_. [i]"])

lemma blind_handle_poll_health: "blind (handle_poll_health env)"
  by (rule blindI) (simp add: handle_poll_health_def Let_def)

lemma blind_reconcile_retry_rule [blind_intros]: "blind (reconcile_retry_rule now state r)"
  by (rule blindI) (simp add: reconcile_retry_rule_def blind_apply_reconcile)

lemma blind_handle_reconcile_retry: "blind (handle_reconcile_retry env i n)"
proof (rule blindI)
  fix s L q
  have "agree_out (transaction s body) (transaction (relog L q s) body)" if "blind body" for body
    using that by (intro blind_transaction agree_relog)
  moreover have "blind (\<lambda>s. case run_steps (reconcile_retry_rule now state) (map rule_name (rules_for_output (e_graph s) i)) s of
      Inl x \<Rightarrow> Inl x | Inr s1 \<Rightarrow> Inr (sync_outputs now (outputs_affected_by (e_graph s1) (map rule_name (rules_for_output (e_graph s) i))) s1))"
    for now state
    by (rule blindI, simp only: relog_fields, rule agree_out_bind) (intro blindD [OF _ agree_relog] blind_intros)+
  ultimately show "agree_out (handle_reconcile_retry env i n s) (handle_reconcile_retry env i n (relog L q s))"
    by (simp add: handle_reconcile_retry_def Let_def split: sum.split)
qed

lemma blind_handle_catch_up_retry: "blind (handle_catch_up_retry env i n since)"
  by (rule blindI) (simp add: handle_catch_up_retry_def blindD [OF blind_run [OF blind_handle_input_event]] split: sum.split)

lemma blind_handle_reload: "blind (handle_reload env c ps ack)"
proof (rule blindI)
  fix s L q
  have ack: "agree t u \<Longrightarrow> agree ((sync_outputs now is t)\<lparr>e_acknowledged := e_acknowledged (sync_outputs now is t) @ as\<rparr>)
      ((sync_outputs now is u)\<lparr>e_acknowledged := e_acknowledged (sync_outputs now is u) @ as\<rparr>)" for now "is" t u as
    by (auto elim!: agreeE)
  show "agree_out (handle_reload env c ps ack s) (handle_reload env c ps ack (relog L q s))"
    by (cases ps) (simp_all add: handle_reload_def Let_def ack)
qed

lemma blind_handle [blind_intros]: "blind (handle env m)"
  by (rule blindI, cases m)
    (simp_all add: handle_def blindD [OF blind_handle_input_event] blindD [OF blind_handle_unlatch]
      blindD [OF blind_handle_push_result] blindD [OF blind_handle_reload] blindD [OF blind_handle_reconcile_retry]
      blindD [OF blind_handle_catch_up_retry] blindD [OF blind_handle_poll_health])

section \<open>The loop and the startup reconciliation\<close>

lemma agree_out_map:
  "agree_out a b \<Longrightarrow> (\<And>s L q. f (relog L q s) = relog L q (f s)) \<Longrightarrow>
   agree_out (case a of Inl x \<Rightarrow> Inl x | Inr s \<Rightarrow> Inr (f s)) (case b of Inl x \<Rightarrow> Inl x | Inr s \<Rightarrow> Inr (f s))"
  by (rule agree_out_bind) (auto intro: blindI)

lemma blind_tick [blind_intros]: "blind (tick env)"
proof (rule blindI)
  fix s L q
  have "agree_out (fire_due_timers env now u) (fire_due_timers env now (relog L q u))" for now u
    by (simp add: fire_due_timers_def Let_def blindD [OF blind_run [OF blind_handle]])
  then show "agree_out (tick env s) (tick env (relog L q s))"
    by (simp add: tick_def Let_def agree_out_map)
qed

lemma blind_loop_step [blind_intros]: "blind (loop_step env)"
proof (rule blindI)
  fix s L q
  have "blind (\<lambda>u. if e_stopping u then Inr u else tick env u)"
    by (rule blindI) (simp add: blindD [OF blind_tick])
  then have "agree_out (case handle env m u of Inl x \<Rightarrow> Inl x | Inr v \<Rightarrow> if e_stopping v then Inr v else tick env v)
      (case handle env m (relog L q u) of Inl x \<Rightarrow> Inl x | Inr v \<Rightarrow> if e_stopping v then Inr v else tick env v)" for m u
    by (intro agree_out_bind blindD [OF blind_handle] agree_relog)
  then show "agree_out (loop_step env s) (loop_step env (relog L q s))"
    by (simp add: loop_step_def blindD [OF blind_tick] split: list.split)
qed

lemma blind_reconcile_rule [blind_intros]: "blind (reconcile_rule now downtime reports r)"
  by (rule blindI) (simp add: reconcile_rule_def case_prod_beta blind_apply_reconcile)

text \<open>The transaction of the startup reconciliation.\<close>

lemma blind_reconcile_body:
  "blind (\<lambda>s. case run_steps (reconcile_rule now downtime reports) (graph_rules (e_graph s))
        (append_event_e now DaemonStarted None None [] s) of
      Inl x \<Rightarrow> Inl x
    | Inr s3 \<Rightarrow>
        (let s4 = fold (sync_output now True) (output_names (e_graph s3)) s3 in
         Inr (s4\<lparr>e_db := write_last_seen_at (e_db s4) now\<rparr>)))"
  (is "blind ?f")
proof (rule blindI)
  fix s L q
  have "agree_out (run_steps (reconcile_rule now downtime reports) rs (append_event_e now DaemonStarted None None [] s))
      (run_steps (reconcile_rule now downtime reports) rs (append_event_e now DaemonStarted None None [] (relog L q s)))" for rs
    by (intro blindD [OF blind_run] blind_reconcile_rule agree_append)
  then show "agree_out (?f s) (?f (relog L q s))" unfolding Let_def by (simp add: agree_out_map)
qed

lemma blind_reconcile: "blind (reconcile env)"
proof (rule blindI)
  fix s L q
  have "agree_out (transaction u f) (transaction (relog L q u) f)" if "blind f" for u f
    by (rule blind_transaction [OF that agree_relog])
  then show "agree_out (reconcile env s) (reconcile env (relog L q s))"
    by (simp add: reconcile_def Let_def case_prod_beta agree_out_map blind_reconcile_body)
qed

lemma run_loop_Nil: "run_loop stop_env [] s = (if e_stopping s then Some (Inr (on_stop stop_env s)) else None)"
  by (simp add: run_loop.simps)

lemma run_loop_Cons:
  "run_loop stop_env ((ms, env) # its) s =
     (if e_stopping s then Some (Inr (on_stop stop_env s))
      else case loop_step env (s\<lparr>e_queue := e_queue s @ ms\<rparr>) of
             Inl x \<Rightarrow> Some (Inl x) | Inr t \<Rightarrow> run_loop stop_env its t)"
  by (simp add: run_loop.simps)

lemma agree_on_stop: "agree (on_stop env s) (on_stop env (relog L q s))"
  by (simp add: on_stop_def)

text \<open>
  C9. The event log is never read. Run the core from any state, and from the same state with any other log
  in its place, over the same messages, plugin answers and clock readings: at every moment the two differ
  in their logs only, so they have latched, dispatched, answered and scheduled the same, and
  if one stops or raises so does the other, with the same exception. Truncating the table is
  the case of the empty log.
\<close>

theorem event_log_is_never_read:
  fixes L :: "event_log_entry list" and q :: int
  shows "agree_run (run_loop stop_env its s) (run_loop stop_env its (s\<lparr>e_db := (e_db s)\<lparr>db_event_log := L, db_event_seq := q\<rparr>\<rparr>)) \<and>
   agree_out (reconcile env s) (reconcile env (s\<lparr>e_db := (e_db s)\<lparr>db_event_log := L, db_event_seq := q\<rparr>\<rparr>))"
proof -
  have run: "agree_run (run_loop stop_env its s) (run_loop stop_env its t)" if "agree s t" for s t
    using that
  proof (induction its arbitrary: s t)
    case Nil
    then obtain L q where t: "t = relog L q s" by (rule agreeE)
    then show ?case by (simp add: run_loop_Nil agree_on_stop)
  next
    case (Cons it its)
    obtain ms env where it: "it = (ms, env)" by (cases it)
    obtain L q where t: "t = relog L q s" using Cons.prems by (rule agreeE)
    let ?s = "s\<lparr>e_queue := e_queue s @ ms\<rparr>"
    have "agree_out (loop_step env ?s) (loop_step env (relog L q ?s))" by (rule blindD [OF blind_loop_step agree_relog])
    moreover have "run_loop stop_env (it # its) t = (if e_stopping s then Some (Inr (on_stop stop_env (relog L q s)))
        else case loop_step env (relog L q ?s) of Inl x \<Rightarrow> Some (Inl x) | Inr u \<Rightarrow> run_loop stop_env its u)"
      unfolding it t run_loop_Cons relog_fields relog_updates ..
    ultimately show ?case
      using Cons.IH by (cases "loop_step env ?s"; cases "loop_step env (relog L q ?s)")
        (auto simp: run_loop_Cons [of stop_env ms env its s] it agree_on_stop)
  qed
  have "agree s (s\<lparr>e_db := (e_db s)\<lparr>db_event_log := L, db_event_seq := q\<rparr>\<rparr>)"
    unfolding agree_def by (intro exI [of _ L] exI [of _ q]) (simp add: relog_def relog_db_def)
  then show ?thesis using run blindD [OF blind_reconcile] by blast
qed

end
