(* ===== verification/Json.thy ===== *)
theory Json
  imports Config_Data
begin

text \<open>
  \<open>jsonfile.py\<close>: the two hooks that make the standard library's JSON parser strict. What
  \<open>json.loads\<close> makes of a text before the hooks see it is the tree of what it read:
  objects with every key they repeat, and the constants JSON does not have. Syntax errors
  come from the parser, as the detail it reports.
\<close>

datatype raw_json =
    RNull
  | RBool bool
  | RInt int
  | RFloat rat
  | RConstant string
  | RStr string
  | RList "raw_json list"
  | RObj "(string \<times> raw_json) list"

datatype json_problem =
    CannotBeRead string
  | SyntaxError string
  | DuplicateKey string
  | NotValidJson string
  | TopLevelNotObject

text \<open>\<open>_reject_duplicate_keys\<close> and \<open>_reject_constant\<close>\<close>

fun reject_duplicates ::
  "(string, json) dict \<Rightarrow> (string \<times> json) list \<Rightarrow> json_problem + (string, json) dict" where
  "reject_duplicates result [] = Inr result"
| "reject_duplicates result ((k, v) # ps) =
     (if dict_get result k \<noteq> None then Inl (DuplicateKey k) else reject_duplicates (dict_put result k v) ps)"

definition reject_duplicate_keys :: "(string \<times> json) list \<Rightarrow> json_problem + (string, json) dict" where
  "reject_duplicate_keys pairs = reject_duplicates [] pairs"

definition reject_constant :: "string \<Rightarrow> json_problem + json" where
  "reject_constant n = Inl (NotValidJson n)"

text \<open>The hooks run as the parser closes each object, so the first problem in the text wins.\<close>

fun strict :: "raw_json \<Rightarrow> json_problem + json"
and strict_list :: "raw_json list \<Rightarrow> json_problem + json list"
and strict_pairs :: "(string \<times> raw_json) list \<Rightarrow> json_problem + (string \<times> json) list" where
  "strict RNull = Inr JNull"
| "strict (RBool b) = Inr (JBool b)"
| "strict (RInt i) = Inr (JInt i)"
| "strict (RFloat q) = Inr (JFloat q)"
| "strict (RConstant n) = reject_constant n"
| "strict (RStr s) = Inr (JStr s)"
| "strict (RList rs) = (case strict_list rs of Inl e \<Rightarrow> Inl e | Inr js \<Rightarrow> Inr (JList js))"
| "strict (RObj ps) =
     (case strict_pairs ps of Inl e \<Rightarrow> Inl e
      | Inr qs \<Rightarrow> (case reject_duplicate_keys qs of Inl e \<Rightarrow> Inl e | Inr d \<Rightarrow> Inr (JObj d)))"
| "strict_list [] = Inr []"
| "strict_list (r # rs) =
     (case strict r of Inl e \<Rightarrow> Inl e
      | Inr j \<Rightarrow> (case strict_list rs of Inl e \<Rightarrow> Inl e | Inr js \<Rightarrow> Inr (j # js)))"
| "strict_pairs [] = Inr []"
| "strict_pairs ((k, r) # ps) =
     (case strict r of Inl e \<Rightarrow> Inl e
      | Inr j \<Rightarrow> (case strict_pairs ps of Inl e \<Rightarrow> Inl e | Inr qs \<Rightarrow> Inr ((k, j) # qs)))"

text \<open>\<open>parse\<close>, given what the standard parser makes of the text.\<close>

definition parse_json :: "string + raw_json \<Rightarrow> json_problem + json" where
  "parse_json parsed = (case parsed of Inl detail \<Rightarrow> Inl (SyntaxError detail) | Inr r \<Rightarrow> strict r)"

text \<open>
  \<open>read_object\<close>, given the standard parser and what reading the file gives. Only an
  \<open>OSError\<close> of the reading is caught: bytes that are not UTF-8 raise out of it.
\<close>

datatype file_content =
    FileUnreadable string
  | FileNotUtf8 string
  | FileText string

datatype read_answer =
    ReadObject "(string, json) dict"
  | ReadProblem json_problem
  | ReadRaises string

definition read_object :: "(string \<Rightarrow> string + raw_json) \<Rightarrow> file_content \<Rightarrow> read_answer" where
  "read_object loads content =
     (case content of
        FileUnreadable strerror \<Rightarrow> ReadProblem (CannotBeRead strerror)
      | FileNotUtf8 detail \<Rightarrow> ReadRaises detail
      | FileText text \<Rightarrow>
          (case parse_json (loads text) of Inl e \<Rightarrow> ReadProblem e
           | Inr document \<Rightarrow> (case document of JObj d \<Rightarrow> ReadObject d | _ \<Rightarrow> ReadProblem TopLevelNotObject)))"

section \<open>What strict parsing accepts\<close>

text \<open>Values in which no object repeats a key.\<close>

fun keyed :: "json \<Rightarrow> bool"
and keyed_list :: "json list \<Rightarrow> bool"
and keyed_pairs :: "(string \<times> json) list \<Rightarrow> bool" where
  "keyed (JList js) = keyed_list js"
| "keyed (JObj ps) = (dict_ok ps \<and> keyed_pairs ps)"
| "keyed _ = True"
| "keyed_list [] = True"
| "keyed_list (j # js) = (keyed j \<and> keyed_list js)"
| "keyed_pairs [] = True"
| "keyed_pairs ((k, j) # ps) = (keyed j \<and> keyed_pairs ps)"

text \<open>The tree a strict value was read from.\<close>

fun unstrict :: "json \<Rightarrow> raw_json"
and unstrict_list :: "json list \<Rightarrow> raw_json list"
and unstrict_pairs :: "(string \<times> json) list \<Rightarrow> (string \<times> raw_json) list" where
  "unstrict JNull = RNull"
| "unstrict (JBool b) = RBool b"
| "unstrict (JInt i) = RInt i"
| "unstrict (JFloat q) = RFloat q"
| "unstrict (JStr s) = RStr s"
| "unstrict (JList js) = RList (unstrict_list js)"
| "unstrict (JObj ps) = RObj (unstrict_pairs ps)"
| "unstrict_list [] = []"
| "unstrict_list (j # js) = unstrict j # unstrict_list js"
| "unstrict_pairs [] = []"
| "unstrict_pairs ((k, j) # ps) = (k, unstrict j) # unstrict_pairs ps"

lemma dict_put_fresh: "k \<notin> fst ` set d \<Longrightarrow> dict_put d k v = d @ [(k, v)]"
  by (induction d) auto

lemma reject_duplicates_Inr:
  "reject_duplicates r ps = Inr d \<longleftrightarrow> d = r @ ps \<and> distinct (map fst ps) \<and> set (map fst ps) \<inter> set (dict_keys r) = {}"
proof (induction ps arbitrary: r)
  case Nil
  then show ?case by auto
next
  case (Cons p ps)
  obtain k v where p: "p = (k, v)" by (cases p)
  show ?case
  proof (cases "dict_get r k = None")
    case True
    then have "k \<notin> fst ` set r" by (simp add: map_of_eq_None_iff)
    then show ?thesis using Cons.IH [of "dict_put r k v"] True by (auto simp: p dict_put_fresh)
  next
    case False
    then have "k \<in> fst ` set r" by (simp add: map_of_eq_None_iff)
    with False show ?thesis by (auto simp: p)
  qed
qed

lemma reject_duplicate_keys_Inr: "reject_duplicate_keys ps = Inr d \<longleftrightarrow> d = ps \<and> dict_ok ps"
  by (auto simp: reject_duplicate_keys_def reject_duplicates_Inr)

lemma strict_sound:
  "strict r = Inr j \<Longrightarrow> r = unstrict j \<and> keyed j"
  "strict_list rs = Inr js \<Longrightarrow> rs = unstrict_list js \<and> keyed_list js"
  "strict_pairs ps = Inr qs \<Longrightarrow> ps = unstrict_pairs qs \<and> keyed_pairs qs"
  by (induction r and rs and ps arbitrary: j and js and qs rule: strict_strict_list_strict_pairs.induct)
    (auto simp: reject_duplicate_keys_Inr reject_constant_def split: sum.splits)

lemma strict_complete:
  "keyed j \<Longrightarrow> strict (unstrict j) = Inr j"
  "keyed_list js \<Longrightarrow> strict_list (unstrict_list js) = Inr js"
  "keyed_pairs ps \<Longrightarrow> strict_pairs (unstrict_pairs ps) = Inr ps"
proof (induction j and js and ps rule: unstrict_unstrict_list_unstrict_pairs.induct)
  case (7 ps)
  then have "reject_duplicate_keys ps = Inr ps" by (simp add: reject_duplicate_keys_Inr)
  with 7 show ?case by simp
qed auto

text \<open>
  Strict reading is exact: a text is accepted with a value precisely when it is that
  value written out, with no constant outside JSON and no object that repeats a key; no
  value is dropped, merged or changed.
\<close>

theorem strict_exact: "strict r = Inr j \<longleftrightarrow> r = unstrict j \<and> keyed j"
  using strict_sound(1) strict_complete(1) by blast

end
