(* ===== verification/Secrets.thy ===== *)
theory Secrets
  imports Json "HOL-Library.Word"
begin

text \<open>
  \<open>secrets.py\<close>: which secrets file is accepted, and the expansion of the references
  \<open>${secret:name}\<close> in a string. The regular expression is the scan written out: names are
  over an alphabet without the closing brace, so the longest run of name characters after
  the opening is the only one that can match.
\<close>

unbundle bit_operations_syntax

section \<open>The store\<close>

record secret_store =
  st_path :: string
  st_values :: "(string, string) dict"

definition secret_get :: "secret_store \<Rightarrow> string \<Rightarrow> string option" where
  "secret_get st n = dict_get (st_values st) n"

definition secret_names :: "secret_store \<Rightarrow> string list" where
  "secret_names st = sort (dict_keys (st_values st))"

definition empty_store :: "string \<Rightarrow> secret_store" where
  "empty_store p = \<lparr>st_path = p, st_values = []\<rparr>"

text \<open>The class \<open>[A-Za-z0-9_.-]\<close> and the pattern \<open>SECRET_NAME_PATTERN\<close> on a whole string.\<close>

definition secret_char :: "char \<Rightarrow> bool" where
  "secret_char c = (let n = (of_char c :: nat) in
     (65 \<le> n \<and> n \<le> 90) \<or> (97 \<le> n \<and> n \<le> 122) \<or> (48 \<le> n \<and> n \<le> 57) \<or> c \<in> {CHR ''_'', CHR ''.'', CHR ''-''})"

definition secret_name_ok :: "string \<Rightarrow> bool" where
  "secret_name_ok n \<longleftrightarrow> n \<noteq> [] \<and> list_all secret_char n"

section \<open>Loading\<close>

datatype secrets_error =
    SecretsUnreadable string
  | SecretsMode int
  | SecretsNotUtf8 string
  | SecretsJson json_problem
  | SecretsTopLevel
  | SecretsName string
  | SecretsNotString string

text \<open>
  What opening the file gives: it is not there, opening or reading it fails with this
  text, or it has this mode and these bytes, whose decoding is the environment's.
\<close>

datatype secrets_file =
    SecretsMissing
  | SecretsOsError string
  | SecretsContent int "string + string"

definition forbidden_mode_bits :: int where
  "forbidden_mode_bits = 23"

fun check_secrets ::
  "(string, string) dict \<Rightarrow> (string \<times> json) list \<Rightarrow> secrets_error + (string, string) dict" where
  "check_secrets values [] = Inr values"
| "check_secrets values ((n, v) # ps) =
     (if \<not> secret_name_ok n then Inl (SecretsName n)
      else case v of JStr s \<Rightarrow> check_secrets (dict_put values n s) ps | _ \<Rightarrow> Inl (SecretsNotString n))"

definition load_secrets ::
  "(string \<Rightarrow> string + raw_json) \<Rightarrow> string \<Rightarrow> secrets_file \<Rightarrow> secrets_error + secret_store" where
  "load_secrets loads p f =
     (case f of
        SecretsMissing \<Rightarrow> Inr (empty_store p)
      | SecretsOsError text \<Rightarrow> Inl (SecretsUnreadable text)
      | SecretsContent mode bytes \<Rightarrow>
          if mode AND forbidden_mode_bits \<noteq> 0 then Inl (SecretsMode mode)
          else case bytes of Inl text \<Rightarrow> Inl (SecretsNotUtf8 text)
          | Inr text \<Rightarrow>
              (case parse_json (loads text) of
                 Inl e \<Rightarrow> Inl (SecretsJson e)
               | Inr (JObj d) \<Rightarrow>
                   (case check_secrets [] d of Inl e \<Rightarrow> Inl e
                    | Inr values \<Rightarrow> Inr \<lparr>st_path = p, st_values = values\<rparr>)
               | Inr _ \<Rightarrow> Inl SecretsTopLevel))"

section \<open>References\<close>

definition reference_open :: string where
  "reference_open = ''${secret:''"

text \<open>A reference at the head of the text: its name and what follows it.\<close>

definition match_reference :: "string \<Rightarrow> (string \<times> string) option" where
  "match_reference s =
     (if take 9 s = reference_open
      then (let rest = drop 9 s; n = takeWhile secret_char rest; after = dropWhile secret_char rest in
        if n \<noteq> [] \<and> after \<noteq> [] \<and> hd after = CHR ''}'' then Some (n, tl after) else None)
      else None)"

lemma match_reference_shorter: "match_reference s = Some (n, rest) \<Longrightarrow> length rest < length s"
proof -
  assume m: "match_reference s = Some (n, rest)"
  then have ne: "dropWhile secret_char (drop 9 s) \<noteq> []" and r: "rest = tl (dropWhile secret_char (drop 9 s))"
    by (auto simp: match_reference_def Let_def split: if_splits)
  have "length rest < length (dropWhile secret_char (drop 9 s))" using ne by (simp add: r)
  also have "\<dots> \<le> length (drop 9 s)" by (rule length_dropWhile_le)
  also have "\<dots> \<le> length s" by simp
  finally show ?thesis .
qed

record substitution =
  sub_text :: string
  sub_missing :: "string list"

text \<open>\<open>SECRET_REFERENCE_PATTERN.sub(replace, text)\<close>, left to right, with the missing names so far.\<close>

function expand :: "secret_store \<Rightarrow> string list \<Rightarrow> string \<Rightarrow> string \<times> string list" where
  "expand st missing s =
     (case match_reference s of
        Some (n, rest) \<Rightarrow>
          (case secret_get st n of
             None \<Rightarrow> (let (out, m) = expand st (if n \<notin> set missing then missing @ [n] else missing) rest in
                (reference_open @ n @ ''}'' @ out, m))
           | Some v \<Rightarrow> (let (out, m) = expand st missing rest in (v @ out, m)))
      | None \<Rightarrow>
          (case s of [] \<Rightarrow> ([], missing)
           | c # cs \<Rightarrow> (let (out, m) = expand st missing cs in (c # out, m))))"
  by pat_completeness auto
termination
  by (relation "measure (\<lambda>(_, _, s). length s)") (auto dest: match_reference_shorter)

declare expand.simps [simp del]

definition substitute :: "string \<Rightarrow> secret_store \<Rightarrow> substitution" where
  "substitute text st = (let (out, m) = expand st [] text in \<lparr>sub_text = out, sub_missing = m\<rparr>)"

function find_references :: "string list \<Rightarrow> string \<Rightarrow> string list" where
  "find_references found s =
     (case match_reference s of
        Some (n, rest) \<Rightarrow> find_references (if n \<notin> set found then found @ [n] else found) rest
      | None \<Rightarrow> (case s of [] \<Rightarrow> found | c # cs \<Rightarrow> find_references found cs))"
  by pat_completeness auto
termination
  by (relation "measure (\<lambda>(_, s). length s)") (auto dest: match_reference_shorter)

declare find_references.simps [simp del]

definition references_in :: "string \<Rightarrow> string list" where
  "references_in text = find_references [] text"

section \<open>The text as a sequence of pieces\<close>

text \<open>
  The abstract view: a text is a sequence of characters and references, and expanding it
  replaces each known reference by its value, which is not looked at again.
\<close>

datatype piece = Literal char | Reference string

function pieces :: "string \<Rightarrow> piece list" where
  "pieces s =
     (case match_reference s of
        Some (n, rest) \<Rightarrow> Reference n # pieces rest
      | None \<Rightarrow> (case s of [] \<Rightarrow> [] | c # cs \<Rightarrow> Literal c # pieces cs))"
  by pat_completeness auto
termination
  by (relation "measure length") (auto dest: match_reference_shorter)

declare pieces.simps [simp del]

definition reference_text :: "string \<Rightarrow> string" where
  "reference_text n = reference_open @ n @ ''}''"

definition render :: "secret_store \<Rightarrow> piece \<Rightarrow> string" where
  "render st p = (case p of Literal c \<Rightarrow> [c]
     | Reference n \<Rightarrow> (case secret_get st n of None \<Rightarrow> reference_text n | Some v \<Rightarrow> v))"

definition piece_names :: "piece list \<Rightarrow> string list" where
  "piece_names ps = concat (map (\<lambda>p. case p of Literal _ \<Rightarrow> [] | Reference n \<Rightarrow> [n]) ps)"

text \<open>Adding names in order, each once.\<close>

definition add_once :: "string list \<Rightarrow> string list \<Rightarrow> string list" where
  "add_once acc ns = fold (\<lambda>n m. if n \<notin> set m then m @ [n] else m) ns acc"

lemma match_reference_text:
  assumes "match_reference s = Some (n, rest)"
  shows "s = reference_text n @ rest" "secret_name_ok n"
proof -
  let ?r = "drop 9 s"
  have t: "take 9 s = reference_open" and n: "n = takeWhile secret_char ?r" and ne: "n \<noteq> []"
    and a: "dropWhile secret_char ?r \<noteq> []" "hd (dropWhile secret_char ?r) = CHR ''}''"
    and r: "rest = tl (dropWhile secret_char ?r)"
    using assms by (auto simp: match_reference_def Let_def split: if_splits)
  have "dropWhile secret_char ?r = CHR ''}'' # rest" using a r by (metis list.collapse)
  then have "?r = n @ CHR ''}'' # rest" using takeWhile_dropWhile_id [of secret_char ?r] n by simp
  then have "s = take 9 s @ n @ CHR ''}'' # rest" by (metis append_take_drop_id)
  then show "s = reference_text n @ rest" unfolding t by (simp add: reference_text_def)
  show "secret_name_ok n" using ne n set_takeWhileD [of _ secret_char ?r] by (auto simp: secret_name_ok_def list_all_iff)
qed

lemma expand_pieces:
  "expand st missing s = (concat (map (render st) (pieces s)),
     add_once missing (filter (\<lambda>n. secret_get st n = None) (piece_names (pieces s))))"
proof (induction s arbitrary: missing rule: pieces.induct)
  case (1 s)
  show ?case
  proof (cases "match_reference s")
    case (Some p)
    obtain n rest where p: "p = (n, rest)" by (cases p)
    have IH: "\<And>m. expand st m rest = (concat (map (render st) (pieces rest)),
        add_once m (filter (\<lambda>n. secret_get st n = None) (piece_names (pieces rest))))"
      using 1(2) [OF Some [unfolded p] refl] by simp
    show ?thesis
      by (subst expand.simps, subst (1 2) pieces.simps)
        (simp add: Some p IH render_def reference_text_def piece_names_def add_once_def split: option.split)
  next
    case None
    show ?thesis
    proof (cases s)
      case Nil
      then show ?thesis using None
        by (subst expand.simps, subst (1 2) pieces.simps) (simp add: piece_names_def add_once_def)
    next
      case (Cons c cs)
      have IH: "expand st missing cs = (concat (map (render st) (pieces cs)),
          add_once missing (filter (\<lambda>n. secret_get st n = None) (piece_names (pieces cs))))"
        by (rule 1(1) [OF None Cons])
      show ?thesis using None Cons
        by (subst expand.simps, subst (1 2) pieces.simps)
          (simp add: IH render_def piece_names_def)
    qed
  qed
qed

lemma find_references_pieces: "find_references found s = add_once found (piece_names (pieces s))"
proof (induction s arbitrary: found rule: pieces.induct)
  case (1 s)
  show ?case
  proof (cases "match_reference s")
    case (Some p)
    obtain n rest where p: "p = (n, rest)" by (cases p)
    have "\<And>f. find_references f rest = add_once f (piece_names (pieces rest))"
      using 1(2) [OF Some [unfolded p] refl] by simp
    then show ?thesis
      by (subst find_references.simps, subst pieces.simps) (simp add: Some p piece_names_def add_once_def)
  next
    case None
    show ?thesis
    proof (cases s)
      case Nil
      then show ?thesis using None
        by (subst find_references.simps, subst pieces.simps) (simp add: piece_names_def add_once_def)
    next
      case (Cons c cs)
      have "find_references found cs = add_once found (piece_names (pieces cs))" by (rule 1(1) [OF None Cons])
      then show ?thesis using None Cons
        by (subst find_references.simps, subst pieces.simps) (simp add: piece_names_def)
    qed
  qed
qed

lemma pieces_text: "concat (map (\<lambda>p. case p of Literal c \<Rightarrow> [c] | Reference n \<Rightarrow> reference_text n) (pieces s)) = s"
proof (induction s rule: pieces.induct)
  case (1 s)
  show ?case
  proof (cases "match_reference s")
    case (Some p)
    obtain n rest where p: "p = (n, rest)" by (cases p)
    have "concat (map (\<lambda>p. case p of Literal c \<Rightarrow> [c] | Reference n \<Rightarrow> reference_text n) (pieces rest)) = rest"
      using 1(2) [OF Some [unfolded p] refl] by simp
    moreover have "s = reference_text n @ rest" using match_reference_text(1) Some p by simp
    ultimately show ?thesis using Some p by (subst pieces.simps) simp
  next
    case None
    show ?thesis
    proof (cases s)
      case Nil
      then show ?thesis using None by (subst pieces.simps) simp
    next
      case (Cons c cs)
      have "concat (map (\<lambda>p. case p of Literal c \<Rightarrow> [c] | Reference n \<Rightarrow> reference_text n) (pieces cs)) = cs"
        by (rule 1(1) [OF None Cons])
      then show ?thesis using None Cons by (subst pieces.simps) simp
    qed
  qed
qed

lemma add_once_props: "distinct acc \<Longrightarrow> distinct (add_once acc ns) \<and> set (add_once acc ns) = set acc \<union> set ns"
proof (induction ns arbitrary: acc)
  case Nil
  then show ?case by (simp add: add_once_def)
next
  case (Cons n ns)
  have "add_once acc (n # ns) = add_once (if n \<notin> set acc then acc @ [n] else acc) ns" by (simp add: add_once_def)
  then show ?case using Cons.IH [of "if n \<notin> set acc then acc @ [n] else acc"] Cons.prems by auto
qed

section \<open>Properties\<close>

text \<open>
  Expansion is a map over the pieces of the text: joined back they are the text; the result
  is each piece with its known references replaced by their values, and values are not
  expanded again; what is reported missing is exactly the unknown references, each once; and
  the references listed for a text are exactly its references.
\<close>

theorem substitute_replaces_references:
  "concat (map (\<lambda>p. case p of Literal c \<Rightarrow> [c] | Reference n \<Rightarrow> reference_text n) (pieces text)) = text \<and>
   sub_text (substitute text st) = concat (map (render st) (pieces text)) \<and>
   distinct (sub_missing (substitute text st)) \<and>
   set (sub_missing (substitute text st)) = {n. n \<in> set (references_in text) \<and> secret_get st n = None} \<and>
   set (references_in text) = {n. Reference n \<in> set (pieces text)}"
proof -
  have names: "set (piece_names ps) = {n. Reference n \<in> set ps}" for ps
    by (auto simp: piece_names_def split: piece.splits)
  have refs: "set (references_in text) = set (piece_names (pieces text))"
    unfolding references_in_def find_references_pieces using add_once_props [of "[]"] by simp
  have m: "sub_missing (substitute text st) = add_once [] (filter (\<lambda>n. secret_get st n = None) (piece_names (pieces text)))"
    "sub_text (substitute text st) = concat (map (render st) (pieces text))"
    by (simp_all add: substitute_def expand_pieces)
  show ?thesis
    using pieces_text [of "text"] add_once_props [of "[]"] by (simp add: m refs names)
qed

lemma check_secrets_ok:
  "check_secrets acc ps = Inr store \<Longrightarrow> \<forall>n \<in> set (dict_keys acc). secret_name_ok n \<Longrightarrow>
   \<forall>n \<in> set (dict_keys store). secret_name_ok n"
proof (induction ps arbitrary: acc)
  case Nil
  then show ?case by simp
next
  case (Cons p ps)
  obtain n v where p: "p = (n, v)" by (cases p)
  obtain s where n: "secret_name_ok n" and r: "check_secrets (dict_put acc n s) ps = Inr store"
    using Cons.prems(1) by (auto simp: p split: if_splits json.splits)
  have "\<forall>m \<in> set (dict_keys (dict_put acc n s)). secret_name_ok m"
    using Cons.prems(2) n unfolding dict_keys_put by blast
  then show ?case using Cons.IH [OF r] by blast
qed

lemma forbidden_bits: "bit forbidden_mode_bits n \<longleftrightarrow> n \<in> {0, 1, 2, 4}"
proof -
  have "n \<ge> 5 \<Longrightarrow> \<not> bit (23::int) n"
  proof -
    assume "n \<ge> 5"
    then have "(2::int) ^ 5 \<le> 2 ^ n" by (rule power_increasing) simp
    then show ?thesis by (simp add: bit_iff_odd)
  qed
  moreover have "n < 5 \<Longrightarrow> n = 0 \<or> n = 1 \<or> n = 2 \<or> n = 3 \<or> n = 4" by auto
  ultimately show ?thesis unfolding forbidden_mode_bits_def
    by (cases "n < 5") (auto simp: bit_iff_odd)
qed

lemma mode_bits:
  "mode AND forbidden_mode_bits = 0 \<longleftrightarrow> \<not> bit mode 0 \<and> \<not> bit mode 1 \<and> \<not> bit mode 2 \<and> \<not> bit mode 4"
  proof -
  have "mode AND forbidden_mode_bits = 0 \<longleftrightarrow> (\<forall>n. \<not> (bit mode n \<and> bit forbidden_mode_bits n))"
    unfolding bit_eq_iff [where 'a = int] bit_and_iff by simp
  then show ?thesis unfolding forbidden_bits by (metis insert_iff singletonD)
qed

text \<open>
  A secrets file that exists is used only if its mode gives other users nothing and the group no
  write access, and then every name of the store is over the alphabet of references, so that
  every secret can be referred to.
\<close>

theorem accepted_secrets_are_private:
  assumes "load_secrets loads p (SecretsContent mode bytes) = Inr st"
  shows "(\<forall>n \<in> {0, 1, 2, 4}. \<not> bit mode n) \<and> st_path st = p \<and>
     (\<forall>n \<in> set (secret_names st). secret_name_ok n \<and> references_in (reference_text n) = [n])"
proof -
  have m: "mode AND forbidden_mode_bits = 0"
    using assms by (auto simp: load_secrets_def split: if_splits)
  obtain d store where c: "check_secrets [] d = Inr store" and st: "st = \<lparr>st_path = p, st_values = store\<rparr>"
    using assms m by (auto simp: load_secrets_def split: sum.splits json.splits)
  have ok: "secret_name_ok n" if "n \<in> set (secret_names st)" for n
    using check_secrets_ok [OF c] that by (auto simp: st secret_names_def)
  have e: "find_references ns [] = ns" for ns
    by (subst find_references.simps) (simp add: match_reference_def reference_open_def)
  have "references_in (reference_text n) = [n]" if "secret_name_ok n" for n
  proof -
    have "match_reference (reference_text n) = Some (n, [])"
      using that by (auto simp: match_reference_def reference_text_def reference_open_def secret_name_ok_def
        list_all_iff secret_char_def takeWhile_append2 dropWhile_append2 Let_def)
    then show ?thesis
      by (simp add: references_in_def find_references.simps [of _ "reference_text n"] e)
  qed
  with ok m show ?thesis by (simp add: mode_bits st)
qed

lemma accepted_secrets_are_private_witness:
  "references_in (reference_text ''pw'') = [''pw'']"
proof -
  have "load_secrets (\<lambda>_. Inr (RObj [(''pw'', RStr ''x'')])) ''s'' (SecretsContent 384 (Inr ''t'')) =
      Inr \<lparr>st_path = ''s'', st_values = [(''pw'', ''x'')]\<rparr>"
    by code_simp
  from accepted_secrets_are_private [OF this] show ?thesis by (simp add: secret_names_def)
qed

end
