(* ===== verification/Names.thy ===== *)
theory Names
  imports Prelude
begin

text \<open>
  \<open>names.py\<close>: which names a configuration may use, the key under which two spellings
  collide, and the registry that keeps names unique per namespace.
\<close>

section \<open>Characters\<close>

definition max_name_length :: nat where
  "max_name_length = 128"

definition allowed_punctuation :: "char set" where
  "allowed_punctuation = {CHR '' '', CHR ''-'', CHR ''_'', CHR ''.''}"

text \<open>\<open>str.isalnum()\<close> on the code points below 256.\<close>

definition is_alnum :: "char \<Rightarrow> bool" where
  "is_alnum c = (let n = (of_char c :: nat) in
     (48 \<le> n \<and> n \<le> 57) \<or> (65 \<le> n \<and> n \<le> 90) \<or> (97 \<le> n \<and> n \<le> 122) \<or>
     n \<in> {170, 178, 179, 181, 185, 186, 188, 189, 190} \<or>
     (192 \<le> n \<and> n \<noteq> 215 \<and> n \<noteq> 247))"

definition character_is_allowed :: "char \<Rightarrow> bool" where
  "character_is_allowed c = (if c \<in> allowed_punctuation then True else is_alnum c)"

text \<open>
  \<open>unicodedata.normalize("NFC", name).casefold()\<close> as a list of code points. A code point
  below 256 is its own NFC form and none composes with another; casefolding maps the upper
  case letters 32 up, the micro sign to Greek mu (956) and sharp s to two letters s.
\<close>

definition casefold_char :: "char \<Rightarrow> nat list" where
  "casefold_char c = (let n = of_char c in
     if (65 \<le> n \<and> n \<le> 90) \<or> (192 \<le> n \<and> n \<le> 222 \<and> n \<noteq> 215) then [n + 32]
     else if n = 181 then [956] else if n = 223 then [115, 115] else [n])"

definition uniqueness_key :: "name \<Rightarrow> nat list" where
  "uniqueness_key s = concat (map casefold_char s)"

definition normalize_name :: "string \<Rightarrow> name" where
  "normalize_name raw = py_strip raw"

section \<open>Validation\<close>

datatype name_problem =
    NameEmpty
  | NameTooLong nat
  | NameDisallowed "char list"

fun rejected_characters :: "char list \<Rightarrow> char list \<Rightarrow> char list" where
  "rejected_characters [] rejected = rejected"
| "rejected_characters (c # cs) rejected =
     (if \<not> character_is_allowed c \<and> c \<notin> set rejected
      then rejected_characters cs (rejected @ [c]) else rejected_characters cs rejected)"

definition find_name_problems :: "string \<Rightarrow> name_problem list" where
  "find_name_problems raw =
     (let name = normalize_name raw in
      if name = [] then [NameEmpty]
      else (if length name > max_name_length then [NameTooLong (length name)] else []) @
           (let rejected = rejected_characters name [] in
            if rejected \<noteq> [] then [NameDisallowed rejected] else []))"

definition validate_name :: "string \<Rightarrow> name_problem list + name" where
  "validate_name raw =
     (let problems = find_name_problems raw in
      if problems \<noteq> [] then Inl problems else Inr (normalize_name raw))"

lemma set_rejected:
  "set (rejected_characters cs acc) = set acc \<union> {c \<in> set cs. \<not> character_is_allowed c}"
  by (induction cs acc rule: rejected_characters.induct) auto

lemma rejected_empty: "rejected_characters cs [] = [] \<longleftrightarrow> (\<forall>c \<in> set cs. character_is_allowed c)"
  unfolding set_empty [symmetric] set_rejected by auto

lemma distinct_rejected: "distinct acc \<Longrightarrow> distinct (rejected_characters cs acc)"
  by (induction cs acc rule: rejected_characters.induct) auto

lemmas name_eval = validate_name_def find_name_problems_def normalize_name_def py_strip_def
  is_space_def character_is_allowed_def allowed_punctuation_def is_alnum_def max_name_length_def
  uniqueness_key_def casefold_char_def

lemma no_name_problems_iff:
  "find_name_problems raw = [] \<longleftrightarrow>
     py_strip raw \<noteq> [] \<and> length (py_strip raw) \<le> 128 \<and>
     (\<forall>c \<in> set (py_strip raw). character_is_allowed c)"
  by (auto simp: find_name_problems_def normalize_name_def max_name_length_def rejected_empty Let_def)

lemma allowed_ge_32: "character_is_allowed c \<Longrightarrow> 32 \<le> (of_char c :: nat)"
  by (auto simp: character_is_allowed_def allowed_punctuation_def is_alnum_def Let_def split: if_splits)

lemma forbidden_characters:
  "\<not> character_is_allowed CHR ''/''" "\<not> character_is_allowed CHR 0x22" "\<not> character_is_allowed CHR 0x27"
  by (simp_all add: character_is_allowed_def allowed_punctuation_def is_alnum_def)

definition printable_safe :: "char \<Rightarrow> bool" where
  "printable_safe c \<longleftrightarrow> 32 \<le> (of_char c :: nat) \<and> c \<noteq> CHR ''/'' \<and> c \<noteq> CHR 0x22 \<and> c \<noteq> CHR 0x27"

lemma allowed_printable_safe: "character_is_allowed c \<Longrightarrow> printable_safe c"
  unfolding printable_safe_def using allowed_ge_32 [of c] forbidden_characters by blast

lemma validate_name_Inr:
  "validate_name raw = Inr n \<longleftrightarrow> find_name_problems raw = [] \<and> n = py_strip raw"
  by (cases "find_name_problems raw") (auto simp: validate_name_def Let_def normalize_name_def)

text \<open>
  \<open>validate_name\<close> accepts exactly the strings whose stripped form is non-empty, at
  most 128 characters long and made of allowed characters; what it returns is accepted
  unchanged when validated again, and holds no slash, quote or control character.
\<close>

theorem validate_name_correct:
  "(validate_name raw = Inr n \<longleftrightarrow>
      n = py_strip raw \<and> n \<noteq> [] \<and> length n \<le> 128 \<and> list_all character_is_allowed n) \<and>
   (validate_name raw = Inr n \<longrightarrow> validate_name n = Inr n \<and> list_all printable_safe n)"
proof (intro conjI impI)
  show iff: "validate_name raw = Inr n \<longleftrightarrow>
      n = py_strip raw \<and> n \<noteq> [] \<and> length n \<le> 128 \<and> list_all character_is_allowed n"
    unfolding validate_name_Inr no_name_problems_iff list_all_iff
    by (cases "n = py_strip raw") simp_all
  assume v: "validate_name raw = Inr n"
  then have n: "n = py_strip raw" "find_name_problems raw = []" by (simp_all add: validate_name_Inr)
  then have "find_name_problems n = []" by (simp add: no_name_problems_iff)
  with n show "validate_name n = Inr n" by (simp add: validate_name_Inr)
  from v iff show "list_all printable_safe n"
    unfolding list_all_iff using allowed_printable_safe by blast
qed

theorem validate_name_correct_witness:
  "validate_name '' Porch Mail '' = Inr ''Porch Mail'' \<and> validate_name ''Porch Mail'' = Inr ''Porch Mail''"
proof -
  have "validate_name '' Porch Mail '' = Inr ''Porch Mail''"
    by (simp add: name_eval)
  then show ?thesis using validate_name_correct [of "'' Porch Mail ''" "''Porch Mail''"] by blast
qed

section \<open>The registry\<close>

datatype namespace = NsInstance | NsRule

text \<open>
  The origin of a name is only printed: the code keeps the printed path of the place, the
  model the place itself, which is a parameter of the type here.
\<close>

record 'o registered_name =
  rn_name :: name
  rn_namespace :: namespace
  rn_origin :: 'o

type_synonym 'o name_registry = "namespace \<Rightarrow> (nat list, 'o registered_name) dict"

definition empty_registry :: "'o name_registry" where
  "empty_registry = (\<lambda>_. [])"

definition find_conflict :: "'o name_registry \<Rightarrow> string \<Rightarrow> namespace \<Rightarrow> 'o registered_name option" where
  "find_conflict reg n ns = dict_get (reg ns) (uniqueness_key (normalize_name n))"

text \<open>\<open>register\<close> raises \<open>InvalidNameError\<close> with the entry it collides with.\<close>

definition register_name ::
  "'o name_registry \<Rightarrow> string \<Rightarrow> namespace \<Rightarrow> 'o \<Rightarrow> 'o registered_name + ('o registered_name \<times> 'o name_registry)" where
  "register_name reg n ns origin =
     (let normalized = normalize_name n; key = uniqueness_key normalized in
      case dict_get (reg ns) key of
        Some existing \<Rightarrow> Inl existing
      | None \<Rightarrow>
          (let registered = \<lparr>rn_name = normalized, rn_namespace = ns, rn_origin = origin\<rparr> in
           Inr (registered, reg(ns := dict_put (reg ns) key registered))))"

definition resolve_name :: "'o name_registry \<Rightarrow> string \<Rightarrow> namespace \<Rightarrow> 'o registered_name option" where
  "resolve_name reg n ns =
     (case find_conflict reg n ns of
        None \<Rightarrow> None
      | Some e \<Rightarrow> if rn_name e \<noteq> normalize_name n then None else Some e)"

definition suggest_name :: "'o name_registry \<Rightarrow> string \<Rightarrow> namespace \<Rightarrow> name option" where
  "suggest_name reg n ns =
     (case find_conflict reg n ns of
        None \<Rightarrow> None
      | Some e \<Rightarrow> if rn_name e = normalize_name n then None else Some (rn_name e))"

definition registry_names :: "'o name_registry \<Rightarrow> namespace \<Rightarrow> name list" where
  "registry_names reg ns = sort (map (rn_name \<circ> snd) (reg ns))"

text \<open>
  Every entry sits under the key of its own name, in its own namespace, and is stripped.
\<close>

definition registry_ok :: "'o name_registry \<Rightarrow> bool" where
  "registry_ok reg \<longleftrightarrow> (\<forall>ns. dict_ok (reg ns) \<and>
     (\<forall>k e. dict_get (reg ns) k = Some e \<longrightarrow>
        uniqueness_key (rn_name e) = k \<and> rn_namespace e = ns \<and> py_strip (rn_name e) = rn_name e))"

lemma registry_ok_empty: "registry_ok empty_registry"
  by (simp add: registry_ok_def empty_registry_def)

lemma register_name_Inr:
  "register_name reg n ns o' = Inr (e, reg') \<longleftrightarrow>
     find_conflict reg n ns = None \<and>
     e = \<lparr>rn_name = py_strip n, rn_namespace = ns, rn_origin = o'\<rparr> \<and>
     reg' = reg(ns := dict_put (reg ns) (uniqueness_key (py_strip n)) e)"
  by (auto simp: register_name_def find_conflict_def normalize_name_def Let_def split: option.splits)

lemma registry_ok_register:
  "registry_ok reg \<Longrightarrow> register_name reg n ns o' = Inr (e, reg') \<Longrightarrow> registry_ok reg'"
  by (auto simp: register_name_Inr registry_ok_def)

lemma find_conflict_register:
  assumes "register_name reg n ns o' = Inr (e, reg')"
  shows "find_conflict reg' m ns' =
    (if ns' = ns \<and> uniqueness_key (py_strip m) = uniqueness_key (py_strip n) then Some e
     else find_conflict reg m ns')"
  using assms by (auto simp: register_name_Inr find_conflict_def normalize_name_def)

text \<open>
  Registering keeps names unique up to case and Unicode folding, per namespace: it
  succeeds exactly when no registered name of the namespace has the same key, and
  afterwards any spelling with that key is refused in that namespace, with the entry
  that took it, while every other answer of the registry is what it was.
\<close>

theorem register_name_unique:
  assumes "registry_ok reg"
  shows "(\<exists>e reg'. register_name reg n ns origin = Inr (e, reg') \<and> registry_ok reg' \<and>
            rn_name e = py_strip n \<and>
            (\<forall>m origin'. uniqueness_key (py_strip m) = uniqueness_key (py_strip n) \<longrightarrow>
               register_name reg' m ns origin' = Inl e) \<and>
            (\<forall>m ns'. ns' \<noteq> ns \<or> uniqueness_key (py_strip m) \<noteq> uniqueness_key (py_strip n) \<longrightarrow>
               find_conflict reg' m ns' = find_conflict reg m ns'))
         \<longleftrightarrow> \<not> (\<exists>e \<in> set (map snd (reg ns)). uniqueness_key (rn_name e) = uniqueness_key (py_strip n))"
    (is "?L \<longleftrightarrow> \<not> ?R")
proof -
  let ?k = "uniqueness_key (py_strip n)"
  have ok: "dict_ok (reg ns)" and key: "\<And>k e. dict_get (reg ns) k = Some e \<Longrightarrow> uniqueness_key (rn_name e) = k"
    using assms by (auto simp: registry_ok_def)
  have none: "find_conflict reg n ns = None \<longleftrightarrow> \<not> ?R"
  proof
    assume "find_conflict reg n ns = None"
    then have no: "dict_get (reg ns) ?k = None" by (simp add: find_conflict_def normalize_name_def)
    show "\<not> ?R"
    proof
      assume ?R
      then obtain k e where m: "(k, e) \<in> set (reg ns)" and e: "uniqueness_key (rn_name e) = ?k" by auto
      from m have "dict_get (reg ns) k = Some e" by (simp add: dict_get_mem [OF ok])
      with key [OF this] e no show False by simp
    qed
  next
    assume nr: "\<not> ?R"
    show "find_conflict reg n ns = None"
    proof (cases "dict_get (reg ns) ?k")
      case (Some e)
      then have "e \<in> set (map snd (reg ns))" by (force dest: map_of_SomeD)
      with key [OF Some] nr show ?thesis by blast
    qed (simp add: find_conflict_def normalize_name_def)
  qed
  have refuse: "register_name r m ns org = Inl e" if "find_conflict r m ns = Some e" for r m org e
    using that by (simp add: register_name_def find_conflict_def Let_def)
  show ?thesis
  proof (cases "find_conflict reg n ns")
    case None
    then obtain e reg' where r: "register_name reg n ns origin = Inr (e, reg')"
      by (simp add: register_name_Inr)
    note fc = find_conflict_register [OF r]
    have "rn_name e = py_strip n" using r by (simp add: register_name_Inr)
    moreover have "register_name reg' m ns origin' = Inl e" if "uniqueness_key (py_strip m) = ?k" for m origin'
      by (rule refuse) (simp add: fc that)
    moreover have "find_conflict reg' m ns' = find_conflict reg m ns'"
      if "ns' \<noteq> ns \<or> uniqueness_key (py_strip m) \<noteq> ?k" for m ns'
      using that by (auto simp: fc)
    ultimately have ?L using r registry_ok_register [OF assms r] by blast
    with None none show ?thesis by simp
  next
    case (Some e)
    then have "\<not> ?L" by (simp add: register_name_Inr)
    with Some none show ?thesis by auto
  qed
qed

theorem register_name_unique_witness:
  "\<exists>e reg'. register_name empty_registry ''Porch Mail'' NsRule ''a.json'' = Inr (e, reg') \<and>
     register_name reg' ''porch mail'' NsRule ''b.json'' = Inl e"
proof -
  have k: "uniqueness_key (py_strip ''porch mail'') = uniqueness_key (py_strip ''Porch Mail'')"
    by (simp add: name_eval)
  show ?thesis
    using register_name_unique [OF registry_ok_empty, of "''Porch Mail''" NsRule "''a.json''"] k
    by (auto simp: empty_registry_def)
qed

text \<open>
  \<open>resolve\<close> and \<open>suggest\<close> split the conflicts: a name that is registered
  resolves to its entry and has no suggestion, one that differs from a registered name
  only in its folding has that name as its suggestion and does not resolve, and a name with
  no conflict has neither.
\<close>

theorem resolve_or_suggest:
  "(find_conflict reg n ns = None \<and> resolve_name reg n ns = None \<and> suggest_name reg n ns = None) \<or>
   (\<exists>e. find_conflict reg n ns = Some e \<and>
      (if rn_name e = py_strip n
       then resolve_name reg n ns = Some e \<and> suggest_name reg n ns = None
       else resolve_name reg n ns = None \<and> suggest_name reg n ns = Some (rn_name e)))"
  by (cases "find_conflict reg n ns") (auto simp: resolve_name_def suggest_name_def normalize_name_def)

text \<open>
  The alphabet admits the two directory names: a name of one or two periods is valid, so
  the path built from it leaves the directory of the instances.
\<close>

theorem dot_names_are_valid:
  "find_name_problems ''.'' = [] \<and> find_name_problems ''..'' = []"
  by (simp add: name_eval)

end
