(* ===== verification/Config_Loader.thy ===== *)
theory Config_Loader
  imports Secrets Names "HOL-Library.Product_Lexorder" "HOL-Library.Multiset"
begin

text \<open>
  The loader of \<open>config.py\<close>: reading the files in order, collecting the named objects,
  building instances and rules, and reporting every problem at once. A problem is kept as
  what its message says. While the files are walked the loader's fields are threaded
  through; the building methods only append to the error list, so they return the errors
  they append.
\<close>

section \<open>Plugins and problems\<close>

instantiation plugin_direction :: linorder
begin

definition less_eq_plugin_direction :: "plugin_direction \<Rightarrow> plugin_direction \<Rightarrow> bool" where
  "d \<le> e \<longleftrightarrow> d = DirInput \<or> e = DirOutput"

definition less_plugin_direction :: "plugin_direction \<Rightarrow> plugin_direction \<Rightarrow> bool" where
  "d < e \<longleftrightarrow> d = DirInput \<and> e = DirOutput"

instance
  by standard (auto simp: less_eq_plugin_direction_def less_plugin_direction_def intro: plugin_direction.exhaust)

end

text \<open>A plugin's validator is its own code: any function from settings to problems.\<close>

record known_plugin =
  kp_name :: string
  kp_directions :: "plugin_direction list"
  kp_validate :: "(settings \<Rightarrow> string list) option"

datatype suggestion = DidYouMean name | DefinedInstances "name list"

datatype config_problem =
    NoDirectory string
  | NoFiles string
  | FileProblem json_problem
  | UnknownTopLevelKey string
  | NotAnObject string
  | SecondDaemonBlock string
  | UnknownKey string string "string list"
  | NotPositiveInteger string
  | NotPositiveNumber string
  | BadName namespace string name_problem
  | DuplicateName namespace name name config_path
  | NamedNotObject namespace name
  | MissingKey string string
  | NotAString string string
  | NotABool string string
  | UnknownPlugin name string "string list"
  | ConfigNotObject name
  | SettingsProblem name string
  | UndefinedSecret string string "string list"
  | RuleHasNo name string
  | RuleNotArray name string
  | RuleEmpty name string
  | EntryNotName name string
  | ListedTwice name name string
  | UnknownInstance name name suggestion
  | WrongDirection name name string string "plugin_direction list"
  | BothSides name name

record config_error =
  ce_problem :: config_problem
  ce_where :: "config_path option"

definition error_at :: "config_problem \<Rightarrow> config_path \<Rightarrow> config_error" where
  "error_at p pos = \<lparr>ce_problem = p, ce_where = Some pos\<rparr>"

definition error_nowhere :: "config_problem \<Rightarrow> config_error" where
  "error_nowhere p = \<lparr>ce_problem = p, ce_where = None\<rparr>"

text \<open>\<open>_sorted_errors\<close>: errors without a place last, the rest by file and then by path.\<close>

definition error_key :: "config_error \<Rightarrow> nat \<times> string \<times> string list" where
  "error_key e = (case ce_where e of None \<Rightarrow> (1, [], []) | Some pos \<Rightarrow> (0, cp_file pos, cp_steps pos))"

definition sorted_errors :: "config_error list \<Rightarrow> config_error list" where
  "sorted_errors es = sort_key error_key es"

section \<open>Walking the files\<close>

record draft =
  dr_name :: name
  dr_body :: settings
  dr_origin :: config_path

record loader =
  ld_errors :: "config_error list"
  ld_registry :: "config_path name_registry"
  ld_instance_drafts :: "draft list"
  ld_rule_drafts :: "draft list"
  ld_daemon_body :: "settings option"
  ld_daemon_origin :: "config_path option"

definition init_loader :: loader where
  "init_loader = \<lparr>ld_errors = [], ld_registry = empty_registry, ld_instance_drafts = [],
     ld_rule_drafts = [], ld_daemon_body = None, ld_daemon_origin = None\<rparr>"

definition add_errors :: "loader \<Rightarrow> config_error list \<Rightarrow> loader" where
  "add_errors l es = l\<lparr>ld_errors := ld_errors l @ es\<rparr>"

definition top_level_keys :: "string list" where
  "top_level_keys = [''daemon'', ''instances'', ''rules'']"

definition instance_keys :: "string list" where
  "instance_keys = [''plugin'', ''config'', ''enabled'']"

definition rule_keys :: "string list" where
  "rule_keys = [''inputs'', ''outputs'', ''enabled'']"

definition daemon_keys :: "string list" where
  "daemon_keys = [''event_log_max_rows'', ''dispatcher_threads'', ''retry_initial_seconds'', ''retry_max_seconds'']"

definition collect_daemon :: "settings \<Rightarrow> config_path \<Rightarrow> loader \<Rightarrow> loader" where
  "collect_daemon body pos l =
     (case ld_daemon_origin l of
        Some origin \<Rightarrow> add_errors l [error_at (SecondDaemonBlock (cp_file origin)) pos]
      | None \<Rightarrow> l\<lparr>ld_daemon_body := Some body, ld_daemon_origin := Some pos\<rparr>)"

text \<open>
  \<open>_collect_named\<close>, one entry. \<open>register\<close> cannot raise here, as the conflict was just
  looked up; what it would raise is the branch that leaves the loader as it is.
\<close>

definition collect_named_one :: "namespace \<Rightarrow> config_path \<Rightarrow> string \<times> json \<Rightarrow> loader \<Rightarrow> loader" where
  "collect_named_one ns pos = (\<lambda>(raw, body) l.
     (let here = path_named pos raw; problems = find_name_problems raw in
      if problems \<noteq> [] then add_errors l (map (\<lambda>p. error_at (BadName ns raw p) here) problems)
      else let name = normalize_name raw in
      case find_conflict (ld_registry l) name ns of
        Some conflict \<Rightarrow>
          add_errors l [error_at (DuplicateName ns name (rn_name conflict) (rn_origin conflict)) here]
      | None \<Rightarrow>
          (case body of
             JObj d \<Rightarrow>
               (case register_name (ld_registry l) name ns here of
                  Inl _ \<Rightarrow> l
                | Inr (_, registry) \<Rightarrow>
                    (let dr = \<lparr>dr_name = name, dr_body = d, dr_origin = here\<rparr>;
                         l' = l\<lparr>ld_registry := registry\<rparr> in
                     case ns of
                       NsInstance \<Rightarrow> l'\<lparr>ld_instance_drafts := ld_instance_drafts l' @ [dr]\<rparr>
                     | NsRule \<Rightarrow> l'\<lparr>ld_rule_drafts := ld_rule_drafts l' @ [dr]\<rparr>))
           | _ \<Rightarrow> add_errors l [error_at (NamedNotObject ns name) here])))"

definition collect_named :: "settings \<Rightarrow> namespace \<Rightarrow> config_path \<Rightarrow> loader \<Rightarrow> loader" where
  "collect_named container ns pos l = fold (collect_named_one ns pos) container l"

definition collect_entry :: "string \<Rightarrow> string \<times> json \<Rightarrow> loader \<Rightarrow> loader" where
  "collect_entry path = (\<lambda>(key, v) l.
     (let pos = path_key (path_root path) key in
      if key \<notin> set top_level_keys then add_errors l [error_at (UnknownTopLevelKey key) pos]
      else case v of
        JObj d \<Rightarrow>
          (if key = ''daemon'' then collect_daemon d pos l
           else if key = ''instances'' then collect_named d NsInstance pos l
           else collect_named d NsRule pos l)
      | _ \<Rightarrow> add_errors l [error_at (NotAnObject key) pos]))"

definition collect_document :: "(string, json) dict \<Rightarrow> string \<Rightarrow> loader \<Rightarrow> loader" where
  "collect_document document path l = fold (collect_entry path) document l"

text \<open>\<open>_parse\<close> and the loop over the files; an uncaught exception of reading ends the load.\<close>

definition load_file :: "(string \<Rightarrow> read_answer) \<Rightarrow> string \<Rightarrow> loader \<Rightarrow> string + loader" where
  "load_file files path l =
     (case files path of
        ReadRaises e \<Rightarrow> Inl e
      | ReadProblem p \<Rightarrow> Inr (add_errors l [error_at (FileProblem p) (path_root path)])
      | ReadObject document \<Rightarrow> Inr (collect_document document path l))"

definition load_files :: "(string \<Rightarrow> read_answer) \<Rightarrow> string list \<Rightarrow> loader \<Rightarrow> string + loader" where
  "load_files files paths l = run_steps (load_file files) paths l"

text \<open>
  \<open>_read_files\<close> and \<open>discover_config_files\<close>: the directory is what its glob yields, in any
  order, or nothing when it is not a directory.
\<close>

definition read_files :: "string \<Rightarrow> string list option \<Rightarrow> string list \<times> config_error list" where
  "read_files name dir =
     (case dir of
        None \<Rightarrow> ([], [error_nowhere (NoDirectory name)])
      | Some found \<Rightarrow> (let fs = sort found in (fs, if fs = [] then [error_nowhere (NoFiles name)] else [])))"

section \<open>Shared checks\<close>

definition reject_unknown_keys :: "settings \<Rightarrow> config_path \<Rightarrow> string list \<Rightarrow> string \<Rightarrow> config_error list" where
  "reject_unknown_keys body pos allowed subject =
     map (\<lambda>key. error_at (UnknownKey subject key allowed) (path_key pos key))
       (filter (\<lambda>key. key \<notin> set allowed) (dict_keys body))"

definition require_string ::
  "settings \<Rightarrow> config_path \<Rightarrow> string \<Rightarrow> string \<Rightarrow> string option \<times> config_error list" where
  "require_string body pos key subject =
     (case dict_get body key of
        None \<Rightarrow> (None, [error_at (MissingKey subject key) pos])
      | Some (JStr s) \<Rightarrow> (Some s, [])
      | Some _ \<Rightarrow> (None, [error_at (NotAString subject key) (path_key pos key)]))"

definition optional_bool ::
  "settings \<Rightarrow> config_path \<Rightarrow> string \<Rightarrow> bool \<Rightarrow> string \<Rightarrow> bool \<times> config_error list" where
  "optional_bool body pos key dflt subject =
     (case dict_get body key of
        None \<Rightarrow> (dflt, [])
      | Some (JBool b) \<Rightarrow> (b, [])
      | Some _ \<Rightarrow> (dflt, [error_at (NotABool subject key) (path_key pos key)]))"

section \<open>The daemon block\<close>

fun bit_length :: "nat \<Rightarrow> nat" where
  "bit_length n = (if n = 0 then 0 else Suc (bit_length (n div 2)))"

declare bit_length.simps [simp del]

text \<open>
  \<open>float(i)\<close> of a positive integer: rounded to 53 significant bits, half to even, and
  \<open>OverflowError\<close> from two to the 1024th on. JSON floats are finite here.
\<close>

definition float_of_pos :: "int \<Rightarrow> rat option" where
  "float_of_pos i =
     (let n = bit_length (nat i); e = n - 53;
          r = of_int (round_half_even (of_int i / 2 ^ e)) * 2 ^ e in
      if r < 2 ^ 1024 then Some r else None)"

definition positive_int :: "settings \<Rightarrow> config_path \<Rightarrow> string \<Rightarrow> int \<Rightarrow> int \<times> config_error list" where
  "positive_int body pos key dflt =
     (let bad = (dflt, [error_at (NotPositiveInteger key) (path_key pos key)]) in
      case dict_get body key of
        None \<Rightarrow> (dflt, [])
      | Some (JInt i) \<Rightarrow> (if i < 1 then bad else (i, []))
      | Some _ \<Rightarrow> bad)"

text \<open>The exception of the conversion is not caught: it is the left result.\<close>

definition positive_number ::
  "settings \<Rightarrow> config_path \<Rightarrow> string \<Rightarrow> rat \<Rightarrow> string + rat \<times> config_error list" where
  "positive_number body pos key dflt =
     (let bad = Inr (dflt, [error_at (NotPositiveNumber key) (path_key pos key)]) in
      case dict_get body key of
        None \<Rightarrow> Inr (dflt, [])
      | Some (JInt i) \<Rightarrow>
          (if i \<le> 0 then bad
           else case float_of_pos i of None \<Rightarrow> Inl ''OverflowError'' | Some q \<Rightarrow> Inr (q, []))
      | Some (JFloat q) \<Rightarrow> (if q \<le> 0 then bad else Inr (q, []))
      | Some _ \<Rightarrow> bad)"

definition build_daemon :: "loader \<Rightarrow> string + daemon_settings \<times> config_error list" where
  "build_daemon l =
     (case (ld_daemon_body l, ld_daemon_origin l) of
        (Some body, Some pos) \<Rightarrow>
          (let unknown = reject_unknown_keys body pos daemon_keys ''\"daemon\"'';
               defaults = default_daemon_settings;
               (rows, e1) = positive_int body pos ''event_log_max_rows'' (event_log_max_rows defaults);
               (threads, e2) = positive_int body pos ''dispatcher_threads'' (dispatcher_threads defaults) in
           case positive_number body pos ''retry_initial_seconds'' (retry_initial_seconds defaults) of
             Inl e \<Rightarrow> Inl e
           | Inr (initial, e3) \<Rightarrow>
               (case positive_number body pos ''retry_max_seconds'' (retry_max_seconds defaults) of
                  Inl e \<Rightarrow> Inl e
                | Inr (most, e4) \<Rightarrow>
                    Inr (\<lparr>event_log_max_rows = rows, dispatcher_threads = threads,
                          retry_initial_seconds = initial, retry_max_seconds = most\<rparr>,
                         unknown @ e1 @ e2 @ e3 @ e4)))
      | _ \<Rightarrow> Inr (default_daemon_settings, []))"

section \<open>Instances\<close>

fun resolve_secrets :: "secret_store \<Rightarrow> json \<Rightarrow> config_path \<Rightarrow> json \<times> config_error list"
and resolve_secrets_list :: "secret_store \<Rightarrow> json list \<Rightarrow> nat \<Rightarrow> config_path \<Rightarrow> json list \<times> config_error list"
and resolve_secrets_object :: "secret_store \<Rightarrow> (string \<times> json) list \<Rightarrow> config_path \<Rightarrow> (string \<times> json) list \<times> config_error list" where
  "resolve_secrets st (JStr s) pos =
     (let result = substitute s st in
      (JStr (sub_text result),
       map (\<lambda>n. error_at (UndefinedSecret n (st_path st) (secret_names st)) pos) (sub_missing result)))"
| "resolve_secrets st (JList js) pos = (let (ks, es) = resolve_secrets_list st js 0 pos in (JList ks, es))"
| "resolve_secrets st (JObj ps) pos = (let (qs, es) = resolve_secrets_object st ps pos in (JObj qs, es))"
| "resolve_secrets st j pos = (j, [])"
| "resolve_secrets_list st [] i pos = ([], [])"
| "resolve_secrets_list st (j # js) i pos =
     (let (k, es) = resolve_secrets st j (path_element pos i);
          (ks, fs) = resolve_secrets_list st js (Suc i) pos in (k # ks, es @ fs))"
| "resolve_secrets_object st [] pos = ([], [])"
| "resolve_secrets_object st ((k, j) # ps) pos =
     (let (j', es) = resolve_secrets st j (path_key pos k);
          (qs, fs) = resolve_secrets_object st ps pos in ((k, j') # qs, es @ fs))"

definition instance_subject :: "name \<Rightarrow> string" where
  "instance_subject n = ''instance '' @ py_repr n"

definition rule_subject :: "name \<Rightarrow> string" where
  "rule_subject n = ''rule '' @ py_repr n"

definition build_settings ::
  "secret_store \<Rightarrow> draft \<Rightarrow> known_plugin \<Rightarrow> settings option \<times> config_error list" where
  "build_settings st dr known =
     (let pos = path_key (dr_origin dr) ''config'';
          finish = (\<lambda>(resolved, es).
            (Some resolved,
             es @ (case kp_validate known of None \<Rightarrow> []
                   | Some validate \<Rightarrow> map (\<lambda>p. error_at (SettingsProblem (dr_name dr) p) pos) (validate resolved)))) in
      case dict_get (dr_body dr) ''config'' of
        None \<Rightarrow> finish ([], [])
      | Some (JObj d) \<Rightarrow> finish (resolve_secrets_object st d pos)
      | Some _ \<Rightarrow> (None, [error_at (ConfigNotObject (dr_name dr)) pos]))"

definition build_instance ::
  "secret_store \<Rightarrow> (string, known_plugin) dict \<Rightarrow> draft \<Rightarrow> instance_config option \<times> config_error list" where
  "build_instance st plugins dr =
     (let subject = instance_subject (dr_name dr);
          e0 = reject_unknown_keys (dr_body dr) (dr_origin dr) instance_keys subject;
          (plugin, e1) = require_string (dr_body dr) (dr_origin dr) ''plugin'' subject in
      case plugin of None \<Rightarrow> (None, e0 @ e1)
      | Some plugin_name \<Rightarrow>
          (case dict_get plugins plugin_name of
             None \<Rightarrow> (None, e0 @ e1 @ [error_at (UnknownPlugin (dr_name dr) plugin_name (sort (dict_keys plugins)))
                                          (path_key (dr_origin dr) ''plugin'')])
           | Some known \<Rightarrow>
               (let (on, e2) = optional_bool (dr_body dr) (dr_origin dr) ''enabled'' True subject;
                    (resolved, e3) = build_settings st dr known in
                case resolved of None \<Rightarrow> (None, e0 @ e1 @ e2 @ e3)
                | Some s \<Rightarrow>
                    (Some \<lparr>ic_name = dr_name dr, ic_plugin = plugin_name, ic_directions = kp_directions known,
                       ic_settings = s, ic_enabled = on, ic_origin = dr_origin dr\<rparr>,
                     e0 @ e1 @ e2 @ e3))))"

text \<open>\<open>_build_instances\<close>: the instances, the names of the broken ones, and the errors.\<close>

fun build_instances ::
  "secret_store \<Rightarrow> (string, known_plugin) dict \<Rightarrow> draft list \<Rightarrow>
   (name, instance_config) dict \<times> name list \<times> config_error list \<Rightarrow>
   (name, instance_config) dict \<times> name list \<times> config_error list" where
  "build_instances st plugins [] acc = acc"
| "build_instances st plugins (dr # drs) (instances, broken, es) =
     (let (built, fs) = build_instance st plugins dr in
      build_instances st plugins drs
        (case built of
           None \<Rightarrow> (instances, broken @ [dr_name dr], es @ fs)
         | Some i \<Rightarrow> (dict_put instances (ic_name i) i, broken, es @ fs)))"

section \<open>Rules\<close>

definition suggestion_for :: "config_path name_registry \<Rightarrow> name \<Rightarrow> suggestion" where
  "suggestion_for reg n =
     (case suggest_name reg n NsInstance of Some s \<Rightarrow> DidYouMean s
      | None \<Rightarrow> DefinedInstances (registry_names reg NsInstance))"

text \<open>What the rules are checked against.\<close>

record rule_context =
  rx_instances :: "(name, instance_config) dict"
  rx_broken :: "name list"
  rx_registry :: "config_path name_registry"

text \<open>One entry of a rule's list: the name to add, or none and the error if it has one.\<close>

definition resolve_member ::
  "rule_context \<Rightarrow> draft \<Rightarrow> string \<Rightarrow> plugin_direction \<Rightarrow> name list \<Rightarrow> nat \<Rightarrow> json \<Rightarrow> name option \<times> config_error list" where
  "resolve_member rx dr key direction names index element =
     (let here = path_element (path_key (dr_origin dr) key) index; rule = dr_name dr in
      case element of
        JStr s \<Rightarrow>
          (let name = normalize_name s in
           if name \<in> set names then (None, [error_at (ListedTwice rule name key) here])
           else case dict_get (rx_instances rx) name of
             None \<Rightarrow>
               (None, if name \<notin> set (rx_broken rx)
                      then [error_at (UnknownInstance rule name (suggestion_for (rx_registry rx) name)) here] else [])
           | Some i \<Rightarrow>
               (if direction \<notin> set (ic_directions i)
                then (None, [error_at (WrongDirection rule name key (ic_plugin i) (sort (remdups (ic_directions i)))) here])
                else (Some name, [])))
      | _ \<Rightarrow> (None, [error_at (EntryNotName rule key) here]))"

fun resolve_loop ::
  "rule_context \<Rightarrow> draft \<Rightarrow> string \<Rightarrow> plugin_direction \<Rightarrow> nat \<Rightarrow> json list \<Rightarrow>
   name list \<times> bool \<times> config_error list \<Rightarrow> name list \<times> bool \<times> config_error list" where
  "resolve_loop rx dr key direction index [] acc = acc"
| "resolve_loop rx dr key direction index (x # xs) (names, ok, es) =
     (let (added, fs) = resolve_member rx dr key direction names index x in
      resolve_loop rx dr key direction (Suc index) xs
        (case added of None \<Rightarrow> (names, False, es @ fs) | Some n \<Rightarrow> (names @ [n], ok, es @ fs)))"

definition resolve_members ::
  "rule_context \<Rightarrow> draft \<Rightarrow> string \<Rightarrow> plugin_direction \<Rightarrow> json list \<Rightarrow> name list option \<times> config_error list" where
  "resolve_members rx dr key direction listed =
     (let (names, ok, es) = resolve_loop rx dr key direction 0 listed ([], True, []) in
      (if \<not> ok then None else Some names, es))"

definition rule_members ::
  "rule_context \<Rightarrow> draft \<Rightarrow> string \<Rightarrow> plugin_direction \<Rightarrow> name list option \<times> config_error list" where
  "rule_members rx dr key direction =
     (let pos = path_key (dr_origin dr) key in
      case dict_get (dr_body dr) key of
        None \<Rightarrow> (None, [error_at (RuleHasNo (dr_name dr) key) (dr_origin dr)])
      | Some (JList listed) \<Rightarrow>
          (if listed = [] then (None, [error_at (RuleEmpty (dr_name dr) key) pos])
           else resolve_members rx dr key direction listed)
      | Some _ \<Rightarrow> (None, [error_at (RuleNotArray (dr_name dr) key) pos]))"

definition build_rule :: "rule_context \<Rightarrow> draft \<Rightarrow> rule_config option \<times> config_error list" where
  "build_rule rx dr =
     (let subject = rule_subject (dr_name dr);
          e0 = reject_unknown_keys (dr_body dr) (dr_origin dr) rule_keys subject;
          (ins, e1) = rule_members rx dr ''inputs'' DirInput;
          (outs, e2) = rule_members rx dr ''outputs'' DirOutput in
      case (ins, outs) of
        (Some inputs, Some outputs) \<Rightarrow>
          (let overlap = sorted_set (filter (\<lambda>n. n \<in> set outputs) inputs);
               e3 = map (\<lambda>n. error_at (BothSides (dr_name dr) n) (dr_origin dr)) overlap in
           if overlap \<noteq> [] then (None, e0 @ e1 @ e2 @ e3)
           else let (on, e4) = optional_bool (dr_body dr) (dr_origin dr) ''enabled'' True subject in
             (Some \<lparr>rc_name = dr_name dr, rc_inputs = inputs, rc_outputs = outputs, rc_enabled = on,
                rc_origin = dr_origin dr\<rparr>, e0 @ e1 @ e2 @ e3 @ e4))
      | _ \<Rightarrow> (None, e0 @ e1 @ e2))"

fun build_rules ::
  "rule_context \<Rightarrow> draft list \<Rightarrow> (name, rule_config) dict \<times> config_error list \<Rightarrow>
   (name, rule_config) dict \<times> config_error list" where
  "build_rules rx [] acc = acc"
| "build_rules rx (dr # drs) (rules, es) =
     (let (built, fs) = build_rule rx dr in
      build_rules rx drs ((case built of None \<Rightarrow> rules | Some r \<Rightarrow> dict_put rules (rc_name r) r), es @ fs))"

section \<open>Loading\<close>

datatype load_result =
    Loaded configuration
  | Rejected "config_error list"
  | LoadRaises string

definition load_configuration ::
  "(string \<Rightarrow> read_answer) \<Rightarrow> string \<Rightarrow> string list option \<Rightarrow> secret_store \<Rightarrow>
   (string, known_plugin) dict \<Rightarrow> load_result" where
  "load_configuration files name dir st plugins =
     (let (paths, e0) = read_files name dir in
      case load_files files paths (add_errors init_loader e0) of
        Inl e \<Rightarrow> LoadRaises e
      | Inr l \<Rightarrow>
          (case build_daemon l of
             Inl e \<Rightarrow> LoadRaises e
           | Inr (daemon, e1) \<Rightarrow>
               (let (instances, broken, e2) = build_instances st plugins (ld_instance_drafts l) ([], [], []);
                    (rules, e3) = build_rules \<lparr>rx_instances = instances, rx_broken = broken, rx_registry = ld_registry l\<rparr>
                      (ld_rule_drafts l) ([], []);
                    es = ld_errors l @ e1 @ e2 @ e3 in
                if es \<noteq> [] then Rejected (sorted_errors es)
                else Loaded \<lparr>c_instances = instances, c_rules = rules, c_files = paths, c_daemon = daemon\<rparr>)))"

section \<open>What walking the files collects\<close>

definition drafts_of :: "loader \<Rightarrow> namespace \<Rightarrow> draft list" where
  "drafts_of l ns = (case ns of NsInstance \<Rightarrow> ld_instance_drafts l | NsRule \<Rightarrow> ld_rule_drafts l)"

definition namespace_key :: "namespace \<Rightarrow> string" where
  "namespace_key ns = (case ns of NsInstance \<Rightarrow> ''instances'' | NsRule \<Rightarrow> ''rules'')"

text \<open>The names a document declares in a namespace, in order.\<close>

definition entry_names :: "namespace \<Rightarrow> string \<times> json \<Rightarrow> name list" where
  "entry_names ns p = (if fst p = namespace_key ns
     then (case snd p of JObj d \<Rightarrow> map (normalize_name \<circ> fst) d | _ \<Rightarrow> []) else [])"

definition declared :: "(string \<Rightarrow> read_answer) \<Rightarrow> namespace \<Rightarrow> string \<Rightarrow> name list" where
  "declared files ns path =
     (case files path of ReadObject document \<Rightarrow> concat (map (entry_names ns) document) | _ \<Rightarrow> [])"

text \<open>
  The registry holds exactly the drafts: each under its key, no two under one; the name of a
  draft has no problems.
\<close>

definition registered_draft :: "namespace \<Rightarrow> draft \<Rightarrow> nat list \<times> config_path registered_name" where
  "registered_draft ns d = (uniqueness_key (dr_name d),
     \<lparr>rn_name = dr_name d, rn_namespace = ns, rn_origin = dr_origin d\<rparr>)"

definition loader_inv :: "loader \<Rightarrow> bool" where
  "loader_inv l \<longleftrightarrow> (\<forall>ns. ld_registry l ns = map (registered_draft ns) (drafts_of l ns) \<and>
     distinct (map (\<lambda>d. uniqueness_key (dr_name d)) (drafts_of l ns)) \<and>
     (\<forall>d \<in> set (drafts_of l ns). py_strip (dr_name d) = dr_name d \<and> find_name_problems (dr_name d) = []))"

text \<open>A walk from one loader to another that, if it found no problem, collected these names.\<close>

definition collects :: "(namespace \<Rightarrow> name list) \<Rightarrow> loader \<Rightarrow> loader \<Rightarrow> bool" where
  "collects names l l' \<longleftrightarrow> loader_inv l' \<and>
     (ld_errors l' = [] \<longrightarrow> ld_errors l = [] \<and>
        (\<forall>ns. map dr_name (drafts_of l' ns) = map dr_name (drafts_of l ns) @ names ns))"

lemma loader_inv_init: "loader_inv init_loader"
  by (simp add: loader_inv_def init_loader_def drafts_of_def empty_registry_def split: namespace.split)

lemma add_errors_simps [simp]:
  "ld_errors (add_errors l es) = ld_errors l @ es" "ld_registry (add_errors l es) = ld_registry l"
  "ld_instance_drafts (add_errors l es) = ld_instance_drafts l" "ld_rule_drafts (add_errors l es) = ld_rule_drafts l"
  "drafts_of (add_errors l es) = drafts_of l"
  by (auto simp: add_errors_def drafts_of_def split: namespace.split)

lemma loader_inv_add_errors [simp]: "loader_inv (add_errors l es) = loader_inv l"
  by (simp add: loader_inv_def)

lemma collects_error: "loader_inv l \<Longrightarrow> es \<noteq> [] \<Longrightarrow> collects names l (add_errors l es)"
  by (simp add: collects_def)

lemma collects_trans: "collects f l l' \<Longrightarrow> collects g l' l'' \<Longrightarrow> collects (\<lambda>ns. f ns @ g ns) l l''"
  by (auto simp: collects_def)

lemma collects_inv: "collects f l l' \<Longrightarrow> loader_inv l'"
  by (simp add: collects_def)

lemma collects_fold:
  assumes "\<And>x l. loader_inv l \<Longrightarrow> collects (\<lambda>ns. f ns x) l (g x l)" "loader_inv l"
  shows "collects (\<lambda>ns. concat (map (f ns) xs)) l (fold g xs l)"
  using assms(2)
proof (induction xs arbitrary: l)
  case Nil
  then show ?case by (simp add: collects_def)
next
  case (Cons x xs)
  have "collects (\<lambda>ns. f ns x) l (g x l)" using assms(1) Cons.prems .
  from collects_trans [OF this Cons.IH [OF collects_inv [OF this]]] show ?case by simp
qed

definition push_draft :: "namespace \<Rightarrow> draft \<Rightarrow> loader \<Rightarrow> loader" where
  "push_draft ns d l = (let l' = l\<lparr>ld_registry := (ld_registry l)(ns := ld_registry l ns @ [registered_draft ns d])\<rparr> in
     case ns of NsInstance \<Rightarrow> l'\<lparr>ld_instance_drafts := ld_instance_drafts l @ [d]\<rparr>
     | NsRule \<Rightarrow> l'\<lparr>ld_rule_drafts := ld_rule_drafts l @ [d]\<rparr>)"

lemma push_draft_simps:
  "ld_errors (push_draft ns d l) = ld_errors l"
  "drafts_of (push_draft ns d l) ns' = (if ns' = ns then drafts_of l ns @ [d] else drafts_of l ns')"
  "ld_registry (push_draft ns d l) ns' = (if ns' = ns then ld_registry l ns @ [registered_draft ns d] else ld_registry l ns')"
  by (auto simp: push_draft_def drafts_of_def Let_def split: namespace.split)

lemma collect_named_one_collects:
  assumes "loader_inv l"
  shows "collects (\<lambda>ns'. if ns' = ns then [normalize_name (fst p)] else []) l (collect_named_one ns pos p l)"
proof -
  obtain raw body where p: "p = (raw, body)" by (cases p)
  let ?n = "normalize_name raw" and ?here = "path_named pos raw"
  show ?thesis
  proof (cases "find_name_problems raw = [] \<and> find_conflict (ld_registry l) ?n ns = None \<and> (\<exists>d. body = JObj d)")
    case False
    then have "\<exists>es. es \<noteq> [] \<and> collect_named_one ns pos p l = add_errors l es"
      by (auto simp: p collect_named_one_def Let_def split: option.split json.split)
    then show ?thesis using collects_error [OF assms] by metis
  next
    case True
    then obtain d where ok: "find_name_problems raw = []" and none: "find_conflict (ld_registry l) ?n ns = None"
      and d: "body = JObj d" by blast
    let ?dr = "\<lparr>dr_name = ?n, dr_body = d, dr_origin = ?here\<rparr>"
    have s: "py_strip ?n = ?n" by (simp add: normalize_name_def)
    have fresh: "uniqueness_key ?n \<notin> fst ` set (ld_registry l ns)"
      using none s by (simp add: find_conflict_def normalize_name_def map_of_eq_None_iff)
    have eq: "collect_named_one ns pos p l = push_draft ns ?dr l"
      using none dict_put_fresh [OF fresh] unfolding p d collect_named_one_def
      by (simp add: ok register_name_def find_conflict_def normalize_name_def registered_draft_def
        push_draft_def Let_def split: namespace.split)
    have good: "find_name_problems ?n = []" using ok by (simp add: no_name_problems_iff normalize_name_def)
    have "ld_registry l ns = map (registered_draft ns) (drafts_of l ns)" using assms by (simp add: loader_inv_def)
    with fresh have "uniqueness_key ?n \<notin> (\<lambda>d. uniqueness_key (dr_name d)) ` set (drafts_of l ns)"
      by (simp add: image_image registered_draft_def)
    then have "loader_inv (push_draft ns ?dr l)"
      using assms good s unfolding loader_inv_def by (simp add: push_draft_simps)
    then show ?thesis unfolding eq collects_def by (auto simp: push_draft_simps p)
  qed
qed

lemma collect_named_collects:
  assumes "loader_inv l"
  shows "collects (\<lambda>ns'. if ns' = ns then map (normalize_name \<circ> fst) d else []) l (collect_named d ns pos l)"
proof -
  have "concat (map (\<lambda>p. if ns' = ns then [normalize_name (fst p)] else []) d) =
      (if ns' = ns then map (normalize_name \<circ> fst) d else [])" for ns'
    by (induction d) auto
  then show ?thesis
    using collects_fold [where f = "\<lambda>ns' p. if ns' = ns then [normalize_name (fst p)] else []"
        and g = "collect_named_one ns pos" and xs = d, OF collect_named_one_collects assms]
    by (simp add: collect_named_def)
qed

lemma collect_entry_collects:
  assumes "loader_inv l"
  shows "collects (\<lambda>ns. entry_names ns p) l (collect_entry path p l)"
proof -
  obtain key v where p: "p = (key, v)" by (cases p)
  show ?thesis
  proof (cases "key \<in> set top_level_keys \<and> (\<exists>d. v = JObj d)")
    case False
    then have "\<exists>es. es \<noteq> [] \<and> collect_entry path p l = add_errors l es"
      by (auto simp: p collect_entry_def Let_def split: json.split)
    then show ?thesis using collects_error [OF assms] by metis
  next
    case True
    then obtain d where v: "v = JObj d" by blast
    consider "key = ''daemon''" | "key = ''instances''" | "key = ''rules''" using True by (auto simp: top_level_keys_def)
    then show ?thesis
    proof cases
      case 1
      have e: "entry_names ns p = []" for ns by (simp add: entry_names_def p 1 namespace_key_def split: namespace.split)
      have "loader_inv l'" if "ld_registry l' = ld_registry l" "drafts_of l' = drafts_of l" for l'
        using assms that by (simp add: loader_inv_def)
      moreover have "drafts_of (l\<lparr>ld_daemon_body := b, ld_daemon_origin := c\<rparr>) = drafts_of l" for b c
        by (rule ext) (simp add: drafts_of_def split: namespace.split)
      ultimately have "collects (\<lambda>ns. []) l (collect_daemon d q l)" for q
        using collects_error [OF assms] by (simp add: collect_daemon_def collects_def assms split: option.split)
      then show ?thesis by (simp add: e) (simp add: collect_entry_def p v 1 top_level_keys_def)
    next
      case 2
      have e: "entry_names ns p = (if ns = NsInstance then map (normalize_name \<circ> fst) d else [])" for ns
        by (simp add: entry_names_def p v 2 namespace_key_def split: namespace.split)
      show ?thesis unfolding e using collect_named_collects [OF assms]
        by (simp add: collect_entry_def p v 2 top_level_keys_def)
    next
      case 3
      have e: "entry_names ns p = (if ns = NsRule then map (normalize_name \<circ> fst) d else [])" for ns
        by (simp add: entry_names_def p v 3 namespace_key_def split: namespace.split)
      show ?thesis unfolding e using collect_named_collects [OF assms]
        by (simp add: collect_entry_def p v 3 top_level_keys_def)
    qed
  qed
qed

lemma load_files_collects:
  "loader_inv l \<Longrightarrow> load_files files paths l = Inr l' \<Longrightarrow>
   collects (\<lambda>ns. concat (map (declared files ns) paths)) l l'"
proof (induction paths arbitrary: l)
  case Nil
  then show ?case by (simp add: load_files_def collects_def)
next
  case (Cons path paths)
  obtain m where m: "load_file files path l = Inr m" and rest: "load_files files paths m = Inr l'"
    using Cons.prems(2) by (auto simp: load_files_def split: sum.splits)
  have step: "collects (\<lambda>ns. declared files ns path) l m"
  proof (cases "files path")
    case (ReadObject document)
    then have eq: "m = collect_document document path l" using m by (simp add: load_file_def)
    show ?thesis
      using collects_fold [where f = entry_names and g = "collect_entry path" and xs = document, OF collect_entry_collects Cons.prems(1)]
      by (simp add: eq collect_document_def declared_def ReadObject)
  next
    case (ReadProblem e)
    then have "m = add_errors l [error_at (FileProblem e) (path_root path)]" using m by (simp add: load_file_def)
    then show ?thesis using collects_error [OF Cons.prems(1)] by simp
  next
    case (ReadRaises e)
    then show ?thesis using m by (simp add: load_file_def)
  qed
  from collects_trans [OF step Cons.IH [OF collects_inv [OF step] rest]] show ?case by simp
qed

lemma distinct_draft_names:
  assumes "loader_inv l"
  shows "distinct (map (\<lambda>d. uniqueness_key (dr_name d)) (drafts_of l ns))" "distinct (map dr_name (drafts_of l ns))"
proof -
  show d: "distinct (map (\<lambda>d. uniqueness_key (dr_name d)) (drafts_of l ns))" using assms by (simp add: loader_inv_def)
  have "distinct (map uniqueness_key (map dr_name (drafts_of l ns)))" using d by (simp add: comp_def)
  then show "distinct (map dr_name (drafts_of l ns))" by (rule distinct_map [THEN iffD1, THEN conjunct1])
qed

section \<open>What building yields\<close>

lemma build_instance_Some:
  assumes "build_instance st plugins dr = (Some i, es)"
  obtains known where "dict_get plugins (ic_plugin i) = Some known" "ic_directions i = kp_directions known"
    "ic_name i = dr_name dr" "ic_origin i = dr_origin dr" "dict_get (dr_body dr) ''plugin'' = Some (JStr (ic_plugin i))"
    "es = [] \<Longrightarrow> kp_validate known = None \<or> (\<exists>validate. kp_validate known = Some validate \<and> validate (ic_settings i) = [])"
proof -
  obtain e1 plugin where q: "require_string (dr_body dr) (dr_origin dr) ''plugin'' (instance_subject (dr_name dr)) = (Some plugin, e1)"
    using assms by (cases "require_string (dr_body dr) (dr_origin dr) ''plugin'' (instance_subject (dr_name dr))")
      (auto simp: build_instance_def Let_def split: option.splits)
  then have pl: "dict_get (dr_body dr) ''plugin'' = Some (JStr plugin)"
    by (auto simp: require_string_def split: option.splits json.splits)
  obtain known where k: "dict_get plugins plugin = Some known"
    using assms q by (auto simp: build_instance_def Let_def split: option.splits)
  obtain s e3 where s: "build_settings st dr known = (Some s, e3)"
    using assms q k by (cases "build_settings st dr known") (auto simp: build_instance_def Let_def split: option.splits prod.splits)
  have i: "ic_plugin i = plugin" "ic_directions i = kp_directions known" "ic_name i = dr_name dr"
    "ic_origin i = dr_origin dr" "ic_settings i = s" and e: "es = [] \<Longrightarrow> e3 = []"
    using assms q k s by (auto simp: build_instance_def Let_def split: prod.splits)
  have "e3 = [] \<Longrightarrow> kp_validate known = None \<or> (\<exists>validate. kp_validate known = Some validate \<and> validate s = [])"
    using s by (auto simp: build_settings_def Let_def split: option.splits json.splits prod.splits)
  then show ?thesis using that [of known] k i e pl by auto
qed

lemma build_instance_name: "build_instance st plugins dr = (Some i, es) \<Longrightarrow> ic_name i = dr_name dr"
  by (rule build_instance_Some)

lemma build_instance_None: "build_instance st plugins dr = (None, es) \<Longrightarrow> es \<noteq> []"
  by (auto simp: build_instance_def require_string_def build_settings_def Let_def
    split: option.splits json.splits prod.splits if_splits)

lemma build_instances_clean:
  "build_instances st plugins drs (ins, br, es) = (ins', br', es') \<Longrightarrow> es' = [] \<Longrightarrow>
   distinct (dict_keys ins @ map dr_name drs) \<Longrightarrow>
   es = [] \<and> br' = br \<and> (\<exists>is. list_all2 (\<lambda>dr i. build_instance st plugins dr = (Some i, [])) drs is \<and>
     ins' = ins @ map (\<lambda>i. (ic_name i, i)) is)"
proof (induction drs arbitrary: ins br es)
  case Nil
  then show ?case by simp
next
  case (Cons dr drs)
  obtain built fs where b: "build_instance st plugins dr = (built, fs)" by (cases "build_instance st plugins dr")
  show ?case
  proof (cases built)
    case None
    then have "fs \<noteq> []" using build_instance_None b by metis
    moreover have "es @ fs = []"
      using Cons.IH [of ins "br @ [dr_name dr]" "es @ fs"] Cons.prems by (simp add: b None)
    ultimately show ?thesis by simp
  next
    case (Some i)
    then have n: "ic_name i = dr_name dr" using build_instance_Some b by metis
    have put: "dict_put ins (ic_name i) i = ins @ [(ic_name i, i)]"
      using Cons.prems(3) by (intro dict_put_fresh) (simp add: n)
    have r: "build_instances st plugins drs (ins @ [(ic_name i, i)], br, es @ fs) = (ins', br', es')"
      using Cons.prems(1) by (simp add: b Some put)
    from Cons.IH [OF r Cons.prems(2)] Cons.prems(3)
    obtain "is" where IH: "es @ fs = []" "br' = br"
      "list_all2 (\<lambda>dr i. build_instance st plugins dr = (Some i, [])) drs is"
      "ins' = (ins @ [(ic_name i, i)]) @ map (\<lambda>i. (ic_name i, i)) is"
      by (auto simp: n)
    then have "list_all2 (\<lambda>dr i. build_instance st plugins dr = (Some i, [])) (dr # drs) (i # is)"
      using b Some by simp
    with IH show ?thesis by (intro conjI exI [of _ "i # is"]) simp_all
  qed
qed

definition member_ok :: "rule_context \<Rightarrow> plugin_direction \<Rightarrow> name \<Rightarrow> bool" where
  "member_ok rx direction n \<longleftrightarrow> (\<exists>i. dict_get (rx_instances rx) n = Some i \<and> direction \<in> set (ic_directions i))"

lemma resolve_member_Some:
  "resolve_member rx dr key direction names index x = (Some n, es) \<Longrightarrow>
   es = [] \<and> n \<notin> set names \<and> member_ok rx direction n \<and> x \<in> range JStr \<and> (\<exists>s. x = JStr s \<and> n = normalize_name s)"
  by (auto simp: resolve_member_def member_ok_def Let_def split: json.splits if_splits option.splits)

lemma resolve_member_None:
  "resolve_member rx dr key direction names index x = (None, es) \<Longrightarrow> es = [] \<Longrightarrow> rx_broken rx \<noteq> []"
  by (auto simp: resolve_member_def Let_def split: json.splits if_splits option.splits)

lemma resolve_loop_props:
  "resolve_loop rx dr key direction index xs (names, ok, es) = (names', ok', es') \<Longrightarrow>
   distinct names \<Longrightarrow> list_all (member_ok rx direction) names \<Longrightarrow>
   distinct names' \<and> list_all (member_ok rx direction) names' \<and>
   (es' = [] \<longrightarrow> rx_broken rx = [] \<longrightarrow> ok' = ok) \<and> (es' = [] \<longrightarrow> es = []) \<and>
   (ok' \<longrightarrow> ok \<and> map JStr [] = [] \<and> (\<exists>ss. xs = map JStr ss \<and> names' = names @ map normalize_name ss))"
proof (induction xs arbitrary: index names ok es)
  case Nil
  then show ?case by simp
next
  case (Cons x xs)
  obtain added fs where a: "resolve_member rx dr key direction names index x = (added, fs)"
    by (cases "resolve_member rx dr key direction names index x")
  show ?case
  proof (cases added)
    case None
    then have r: "resolve_loop rx dr key direction (Suc index) xs (names, False, es @ fs) = (names', ok', es')"
      using Cons.prems(1) by (simp add: a)
    show ?thesis using Cons.IH [OF r Cons.prems(2,3)] resolve_member_None [OF a [unfolded None]] by auto
  next
    case (Some n)
    note s = resolve_member_Some [OF a [unfolded Some]]
    then have r: "resolve_loop rx dr key direction (Suc index) xs (names @ [n], ok, es) = (names', ok', es')"
      using Cons.prems(1) by (simp add: a Some)
    have "distinct (names @ [n])" "list_all (member_ok rx direction) (names @ [n])"
      using s Cons.prems(2,3) by auto
    note IH = Cons.IH [OF r this]
    obtain t where t: "x = JStr t" "n = normalize_name t" using s by blast
    have "\<exists>ss. x # xs = map JStr ss \<and> names' = names @ map normalize_name ss"
      if "\<exists>ss. xs = map JStr ss \<and> names' = (names @ [n]) @ map normalize_name ss"
    proof -
      from that obtain ss where "xs = map JStr ss" "names' = (names @ [n]) @ map normalize_name ss" by blast
      then show ?thesis using t by (intro exI [of _ "t # ss"]) simp
    qed
    with IH show ?thesis by blast
  qed
qed

lemma rule_members_props:
  assumes "rule_members rx dr key direction = (ns, es)"
  shows "(es = [] \<longrightarrow> rx_broken rx = [] \<longrightarrow> ns \<noteq> None) \<and>
    (\<forall>names. ns = Some names \<longrightarrow> names \<noteq> [] \<and> distinct names \<and> list_all (member_ok rx direction) names \<and>
       (\<exists>ss. dict_get (dr_body dr) key = Some (JList (map JStr ss)) \<and> names = map normalize_name ss))"
proof (cases "\<exists>listed. dict_get (dr_body dr) key = Some (JList listed) \<and> listed \<noteq> []")
  case False
  then have "ns = None \<and> es \<noteq> []" using assms
    by (auto simp: rule_members_def Let_def split: option.splits json.splits if_splits)
  then show ?thesis by simp
next
  case True
  then obtain listed where l: "dict_get (dr_body dr) key = Some (JList listed)" "listed \<noteq> []" by blast
  obtain names ok es' where r: "resolve_loop rx dr key direction 0 listed ([], True, []) = (names, ok, es')"
    by (cases "resolve_loop rx dr key direction 0 listed ([], True, [])")
  then have "ns = (if \<not> ok then None else Some names)" "es = es'"
    using assms l by (auto simp: rule_members_def resolve_members_def)
  with resolve_loop_props [OF r] l show ?thesis by auto
qed

text \<open>What a rule that was built satisfies.\<close>

definition rule_ok :: "rule_context \<Rightarrow> draft \<Rightarrow> rule_config \<Rightarrow> bool" where
  "rule_ok rx dr r \<longleftrightarrow> rc_name r = dr_name dr \<and> rc_origin r = dr_origin dr \<and>
     rc_inputs r \<noteq> [] \<and> rc_outputs r \<noteq> [] \<and> distinct (rc_inputs r) \<and> distinct (rc_outputs r) \<and>
     set (rc_inputs r) \<inter> set (rc_outputs r) = {} \<and>
     list_all (member_ok rx DirInput) (rc_inputs r) \<and> list_all (member_ok rx DirOutput) (rc_outputs r)"

lemma build_rule_props:
  assumes "build_rule rx dr = (built, es)"
  shows "(\<forall>r. built = Some r \<longrightarrow> rule_ok rx dr r) \<and> (es = [] \<longrightarrow> rx_broken rx = [] \<longrightarrow> built \<noteq> None)"
proof -
  obtain ins e1 where i: "rule_members rx dr ''inputs'' DirInput = (ins, e1)" by (cases "rule_members rx dr ''inputs'' DirInput")
  obtain outs e2 where o2: "rule_members rx dr ''outputs'' DirOutput = (outs, e2)"
    by (cases "rule_members rx dr ''outputs'' DirOutput")
  note I = rule_members_props [OF i] and O = rule_members_props [OF o2]
  show ?thesis
  proof (cases "\<exists>inputs outputs. ins = Some inputs \<and> outs = Some outputs")
    case False
    then have "built = None" "es = [] \<longrightarrow> e1 = [] \<and> e2 = []"
      using assms by (auto simp: build_rule_def i o2 Let_def split: option.splits)
    then show ?thesis using I O False by auto
  next
    case True
    then obtain inputs outputs where s: "ins = Some inputs" "outs = Some outputs" by blast
    let ?ov = "sorted_set (filter (\<lambda>n. n \<in> set outputs) inputs)"
    have ov: "?ov = [] \<longleftrightarrow> set inputs \<inter> set outputs = {}"
      unfolding set_empty [symmetric] set_sorted_set by auto
    show ?thesis using assms I O s ov
      by (auto simp: build_rule_def i o2 Let_def rule_ok_def split: if_splits prod.splits)
  qed
qed

lemma build_rules_clean:
  "build_rules rx drs (rules, es) = (rules', es') \<Longrightarrow> es' = [] \<Longrightarrow> rx_broken rx = [] \<Longrightarrow>
   distinct (dict_keys rules @ map dr_name drs) \<Longrightarrow>
   es = [] \<and> (\<exists>rs. list_all2 (rule_ok rx) drs rs \<and> rules' = rules @ map (\<lambda>r. (rc_name r, r)) rs)"
proof (induction drs arbitrary: rules es)
  case Nil
  then show ?case by simp
next
  case (Cons dr drs)
  obtain built fs where b: "build_rule rx dr = (built, fs)" by (cases "build_rule rx dr")
  note props = build_rule_props [OF b]
  show ?case
  proof (cases built)
    case None
    then have "fs \<noteq> []" using props Cons.prems(3) by auto
    moreover have "es @ fs = []" using Cons.IH [of rules "es @ fs"] Cons.prems by (simp add: b None)
    ultimately show ?thesis by simp
  next
    case (Some r)
    then have ok: "rule_ok rx dr r" and n: "rc_name r = dr_name dr" using props by (auto simp: rule_ok_def)
    have put: "dict_put rules (rc_name r) r = rules @ [(rc_name r, r)]"
      using Cons.prems(4) by (intro dict_put_fresh) (simp add: n)
    have s: "build_rules rx drs (rules @ [(rc_name r, r)], es @ fs) = (rules', es')"
      using Cons.prems(1) by (simp add: b Some put)
    from Cons.IH [OF s Cons.prems(2,3)] Cons.prems(4)
    obtain rs where IH: "es @ fs = []" "list_all2 (rule_ok rx) drs rs"
      "rules' = (rules @ [(rc_name r, r)]) @ map (\<lambda>r. (rc_name r, r)) rs" by (auto simp: n)
    then have "list_all2 (rule_ok rx) (dr # drs) (r # rs)" using ok by simp
    with IH show ?thesis by (intro conjI exI [of _ "r # rs"]) simp_all
  qed
qed

lemma bit_length_lower: "0 < n \<Longrightarrow> 2 ^ (bit_length n - 1) \<le> n"
proof (induction n rule: bit_length.induct)
  case (1 n)
  show ?case
  proof (cases "n div 2 = 0")
    case True
    then have "n = 1" using 1(2) by simp
    then show ?thesis by (simp add: bit_length.simps)
  next
    case False
    then have "2 ^ (bit_length (n div 2) - 1) \<le> n div 2" using 1 by simp
    moreover have "bit_length (n div 2) = Suc (bit_length (n div 2) - 1)"
      using False by (subst bit_length.simps) (simp add: bit_length.simps [of "n div 2"])
    moreover have "bit_length n = Suc (bit_length (n div 2))" using 1(2) by (simp add: bit_length.simps [of n])
    ultimately have "2 ^ (bit_length n - 1) \<le> 2 * (n div 2)" by (metis diff_Suc_1 mult_le_mono2 power_Suc)
    also have "\<dots> \<le> n" by simp
    finally show ?thesis .
  qed
qed

lemma float_of_pos_positive: "0 < i \<Longrightarrow> float_of_pos i = Some q \<Longrightarrow> 0 < q"
proof -
  assume i: "0 < i" and f: "float_of_pos i = Some q"
  let ?e = "bit_length (nat i) - 53"
  have "(2::nat) ^ ?e \<le> 2 ^ (bit_length (nat i) - 1)" by (rule power_increasing) auto
  also have "\<dots> \<le> nat i" using i by (intro bit_length_lower) simp
  finally have "(2::int) ^ ?e \<le> i" using i by (simp add: le_nat_iff)
  then have "(2::rat) ^ ?e \<le> of_int i" by (metis of_int_le_iff of_int_numeral of_int_power)
  then have "1 \<le> of_int i / (2::rat) ^ ?e" by simp
  then have "1 \<le> \<lfloor>of_int i / (2::rat) ^ ?e\<rfloor>" by (simp only: le_floor_iff of_int_1)
  then have "1 \<le> round_half_even (of_int i / 2 ^ ?e)" using round_half_even_floor order_trans by blast
  then have "0 < (of_int (round_half_even (of_int i / 2 ^ ?e)) :: rat)" by simp
  moreover have "q = of_int (round_half_even (of_int i / 2 ^ ?e)) * 2 ^ ?e"
    using f by (auto simp: float_of_pos_def Let_def split: if_splits)
  ultimately show "0 < q" by simp
qed

lemma positive_number_positive:
  "positive_number body pos key dflt = Inr (q, es) \<Longrightarrow> 0 < dflt \<Longrightarrow> 0 < q"
  by (auto simp: positive_number_def Let_def not_le intro: float_of_pos_positive split: option.splits json.splits if_splits)

lemma positive_int_positive: "positive_int body pos key dflt = (i, es) \<Longrightarrow> 0 < dflt \<Longrightarrow> 0 < i"
  by (auto simp: positive_int_def Let_def split: option.splits json.splits if_splits)

definition daemon_positive :: "daemon_settings \<Rightarrow> bool" where
  "daemon_positive d \<longleftrightarrow> 0 < event_log_max_rows d \<and> 0 < dispatcher_threads d \<and>
     0 < retry_initial_seconds d \<and> 0 < retry_max_seconds d"

lemma build_daemon_positive:
  assumes "build_daemon l = Inr (d, es)"
  shows "daemon_positive d"
proof (cases "ld_daemon_body l = None \<or> ld_daemon_origin l = None")
  case True
  then have "d = default_daemon_settings" using assms by (auto simp: build_daemon_def split: option.splits)
  then show ?thesis by (simp add: daemon_positive_def default_daemon_settings_def)
next
  case False
  then obtain body pos where b: "ld_daemon_body l = Some body" "ld_daemon_origin l = Some pos" by auto
  let ?i = "\<lambda>k f. positive_int body pos k (f default_daemon_settings)"
  let ?n = "\<lambda>k f. positive_number body pos k (f default_daemon_settings)"
  obtain rows e1 where r: "?i ''event_log_max_rows'' event_log_max_rows = (rows, e1)" by fastforce
  obtain threads e2 where t: "?i ''dispatcher_threads'' dispatcher_threads = (threads, e2)" by fastforce
  obtain ini e3 where i: "?n ''retry_initial_seconds'' retry_initial_seconds = Inr (ini, e3)"
    using assms b r t by (auto simp: build_daemon_def Let_def split: sum.splits)
  obtain most e4 where m: "?n ''retry_max_seconds'' retry_max_seconds = Inr (most, e4)"
    using assms b r t i by (auto simp: build_daemon_def Let_def split: sum.splits)
  have d: "d = \<lparr>event_log_max_rows = rows, dispatcher_threads = threads, retry_initial_seconds = ini, retry_max_seconds = most\<rparr>"
    using assms b r t i m by (simp add: build_daemon_def Let_def)
  have "0 < rows" by (rule positive_int_positive [OF r]) (simp add: default_daemon_settings_def)
  moreover have "0 < threads" by (rule positive_int_positive [OF t]) (simp add: default_daemon_settings_def)
  moreover have "0 < ini" by (rule positive_number_positive [OF i]) (simp add: default_daemon_settings_def)
  moreover have "0 < most" by (rule positive_number_positive [OF m]) (simp add: default_daemon_settings_def)
  ultimately show ?thesis by (simp add: d daemon_positive_def)
qed

section \<open>Properties\<close>

text \<open>What a load that succeeds went through.\<close>

lemma loaded_parts:
  assumes "load_configuration files name dir st plugins = Loaded c"
  obtains found l "is" rs where
    "dir = Some found" "found \<noteq> []" "c_files c = sort found" "loader_inv l"
    "\<And>ns. map dr_name (drafts_of l ns) = concat (map (declared files ns) (sort found))"
    "list_all2 (\<lambda>dr i. build_instance st plugins dr = (Some i, [])) (drafts_of l NsInstance) is"
    "c_instances c = map (\<lambda>i. (ic_name i, i)) is"
    "list_all2 (rule_ok \<lparr>rx_instances = c_instances c, rx_broken = [], rx_registry = ld_registry l\<rparr>) (drafts_of l NsRule) rs"
    "c_rules c = map (\<lambda>r. (rc_name r, r)) rs" "daemon_positive (c_daemon c)"
proof -
  obtain paths e0 where rd: "read_files name dir = (paths, e0)" by fastforce
  obtain l where l: "load_files files paths (add_errors init_loader e0) = Inr l"
    using assms by (auto simp: load_configuration_def rd split: sum.splits)
  obtain daemon e1 where d: "build_daemon l = Inr (daemon, e1)"
    using assms by (auto simp: load_configuration_def rd l split: sum.splits)
  obtain ins br e2 where bi: "build_instances st plugins (ld_instance_drafts l) ([], [], []) = (ins, br, e2)"
    by (metis prod_cases3)
  let ?rx = "\<lparr>rx_instances = ins, rx_broken = br, rx_registry = ld_registry l\<rparr>"
  obtain rules e3 where br: "build_rules ?rx (ld_rule_drafts l) ([], []) = (rules, e3)" by fastforce
  have es: "ld_errors l = []" "e1 = []" "e2 = []" "e3 = []"
    and c: "c = \<lparr>c_instances = ins, c_rules = rules, c_files = paths, c_daemon = daemon\<rparr>"
    using assms by (auto simp: load_configuration_def rd l d bi br Let_def split: if_splits)
  have col: "collects (\<lambda>ns. concat (map (declared files ns) paths)) (add_errors init_loader e0) l"
    by (rule load_files_collects [OF _ l]) (simp add: loader_inv_init)
  then have e0: "e0 = []" and inv: "loader_inv l"
    and names: "\<And>ns. map dr_name (drafts_of l ns) = concat (map (declared files ns) paths)"
    using es(1) by (auto simp: collects_def init_loader_def drafts_of_def split: namespace.splits)
  obtain found where f: "dir = Some found" "found \<noteq> []" "paths = sort found"
  proof -
    obtain found where "dir = Some found" "paths = sort found" "paths \<noteq> []"
      using rd e0 by (cases dir) (auto simp: read_files_def Let_def split: if_splits)
    then show ?thesis using that [of found] by (cases "found = []") auto
  qed
  have di: "drafts_of l NsInstance = ld_instance_drafts l" "drafts_of l NsRule = ld_rule_drafts l"
    by (simp_all add: drafts_of_def)
  have "distinct (dict_keys [] @ map dr_name (ld_instance_drafts l))" "distinct (dict_keys [] @ map dr_name (ld_rule_drafts l))"
    using distinct_draft_names(2) [OF inv] di by (metis append_Nil list.map(1))+
  note di2 = this
  obtain "is" where i: "br = []" "list_all2 (\<lambda>dr i. build_instance st plugins dr = (Some i, [])) (ld_instance_drafts l) is"
    "ins = map (\<lambda>i. (ic_name i, i)) is"
    using build_instances_clean [OF bi es(3) di2(1)] by auto
  obtain rs where r: "list_all2 (rule_ok ?rx) (ld_rule_drafts l) rs" "rules = map (\<lambda>r. (rc_name r, r)) rs"
    using build_rules_clean [OF br es(4) _ di2(2)] i(1) by auto
  show ?thesis
    by (rule that [of found l "is" rs]) (use f inv names i r c di build_daemon_positive [OF d] in auto)
qed

lemma list_all2_map_eq: "list_all2 P xs ys \<Longrightarrow> (\<And>x y. P x y \<Longrightarrow> g y = f x) \<Longrightarrow> map g ys = map f xs"
  by (induction rule: list_all2_induct) auto

text \<open>
  Nothing a file declares is dropped, merged or overridden: the instances and the rules of a
  loaded configuration are, in the order of the sorted files, exactly the names the files
  declare, all of them valid, and no two of them in a namespace fold to the same key.
\<close>

theorem loaded_names_complete:
  assumes "load_configuration files name dir st plugins = Loaded c"
  shows "(\<exists>found. dir = Some found \<and> found \<noteq> [] \<and> c_files c = sort found) \<and>
    dict_keys (c_instances c) = concat (map (declared files NsInstance) (c_files c)) \<and>
    dict_keys (c_rules c) = concat (map (declared files NsRule) (c_files c)) \<and>
    distinct (map uniqueness_key (dict_keys (c_instances c))) \<and> distinct (map uniqueness_key (dict_keys (c_rules c))) \<and>
    (\<forall>n \<in> set (dict_keys (c_instances c)) \<union> set (dict_keys (c_rules c)). find_name_problems n = [])"
proof (rule loaded_parts [OF assms])
  fix found l "is" rs
  assume f: "dir = Some found" "found \<noteq> []" "c_files c = sort found" and inv: "loader_inv l"
    and names: "\<And>ns. map dr_name (drafts_of l ns) = concat (map (declared files ns) (sort found))"
    and i: "list_all2 (\<lambda>dr i. build_instance st plugins dr = (Some i, [])) (drafts_of l NsInstance) is"
      "c_instances c = map (\<lambda>i. (ic_name i, i)) is"
    and r: "list_all2 (rule_ok \<lparr>rx_instances = c_instances c, rx_broken = [], rx_registry = ld_registry l\<rparr>) (drafts_of l NsRule) rs"
      "c_rules c = map (\<lambda>r. (rc_name r, r)) rs"
  have ki: "dict_keys (c_instances c) = map dr_name (drafts_of l NsInstance)"
    using list_all2_map_eq [OF i(1), of ic_name dr_name] by (simp add: i(2) comp_def build_instance_name)
  have kr: "dict_keys (c_rules c) = map dr_name (drafts_of l NsRule)"
    using list_all2_map_eq [OF r(1), of rc_name dr_name] by (simp add: r(2) rule_ok_def comp_def)
  have "distinct (map uniqueness_key (map dr_name (drafts_of l ns)))" for ns
    using distinct_draft_names(1) [OF inv, of ns] by (simp add: comp_def)
  moreover have "\<forall>n \<in> set (map dr_name (drafts_of l ns)). find_name_problems n = []" for ns
    using inv by (auto simp: loader_inv_def)
  ultimately show ?thesis unfolding ki kr ball_Un f(3) names [symmetric] using f(1,2) by blast
qed

lemma list_all2_right: "list_all2 P xs ys \<Longrightarrow> y \<in> set ys \<Longrightarrow> \<exists>x. P x y"
  by (auto simp: list_all2_conv_all_nth in_set_conv_nth)

lemma loaded_instances:
  assumes "load_configuration files name dir st plugins = Loaded c"
  shows "config_keyed c" "daemon_positive (c_daemon c)"
    "\<And>i. i \<in> snd ` set (c_instances c) \<Longrightarrow> \<exists>known. dict_get plugins (ic_plugin i) = Some known \<and>
       ic_directions i = kp_directions known \<and>
       (\<forall>validate. kp_validate known = Some validate \<longrightarrow> validate (ic_settings i) = [])"
    "\<And>r. r \<in> snd ` set (c_rules c) \<Longrightarrow> \<exists>reg dr. rule_ok \<lparr>rx_instances = c_instances c, rx_broken = [], rx_registry = reg\<rparr> dr r"
proof -
  obtain found l "is" rs where inv: "loader_inv l"
    and i: "list_all2 (\<lambda>dr i. build_instance st plugins dr = (Some i, [])) (drafts_of l NsInstance) is"
      "c_instances c = map (\<lambda>i. (ic_name i, i)) is"
    and r: "list_all2 (rule_ok \<lparr>rx_instances = c_instances c, rx_broken = [], rx_registry = ld_registry l\<rparr>) (drafts_of l NsRule) rs"
      "c_rules c = map (\<lambda>r. (rc_name r, r)) rs"
    and d: "daemon_positive (c_daemon c)"
    by (rule loaded_parts [OF assms])
  have "map ic_name is = map dr_name (drafts_of l NsInstance)"
    using list_all2_map_eq [OF i(1), of ic_name dr_name] by (simp add: build_instance_name)
  then have di: "dict_ok (c_instances c)" using distinct_draft_names(2) [OF inv, of NsInstance] by (simp add: i(2) comp_def)
  have "map rc_name rs = map dr_name (drafts_of l NsRule)"
    using list_all2_map_eq [OF r(1), of rc_name dr_name] by (simp add: rule_ok_def)
  then have dr: "dict_ok (c_rules c)" using distinct_draft_names(2) [OF inv, of NsRule] by (simp add: r(2) comp_def)
  show "config_keyed c" using di dr list_all2_right [OF r(1)] by (fastforce simp: config_keyed_def i(2) r(2) rule_ok_def)
  show "daemon_positive (c_daemon c)" by (rule d)
  show "\<exists>known. dict_get plugins (ic_plugin x) = Some known \<and> ic_directions x = kp_directions known \<and>
       (\<forall>validate. kp_validate known = Some validate \<longrightarrow> validate (ic_settings x) = [])"
    if "x \<in> snd ` set (c_instances c)" for x
  proof -
    have "x \<in> set is" using that by (auto simp: i(2))
    then obtain dr where "build_instance st plugins dr = (Some x, [])" using list_all2_right [OF i(1)] by blast
    then show ?thesis by (rule build_instance_Some) auto
  qed
  show "\<exists>reg dr. rule_ok \<lparr>rx_instances = c_instances c, rx_broken = [], rx_registry = reg\<rparr> dr x"
    if "x \<in> snd ` set (c_rules c)" for x
  proof -
    have "x \<in> set rs" using that by (auto simp: r(2))
    then show ?thesis using list_all2_right [OF r(1)] by blast
  qed
qed

text \<open>
  C31. A loaded configuration refers only to what exists: it is keyed by name, every instance's plugin is
  known, gives the instance its directions and found no problem with its settings; every
  rule has inputs and outputs, none twice and none on both sides, each input an instance
  that can be one and each output likewise; and every daemon setting is positive.
\<close>

theorem loaded_configuration_sound:
  assumes "load_configuration files name dir st plugins = Loaded c"
  shows "config_keyed c \<and> daemon_positive (c_daemon c) \<and>
    (\<forall>i \<in> snd ` set (c_instances c). \<exists>known. dict_get plugins (ic_plugin i) = Some known \<and>
       ic_directions i = kp_directions known \<and>
       (\<forall>validate. kp_validate known = Some validate \<longrightarrow> validate (ic_settings i) = [])) \<and>
    (\<forall>r \<in> snd ` set (c_rules c). rc_inputs r \<noteq> [] \<and> rc_outputs r \<noteq> [] \<and> set (rc_inputs r) \<inter> set (rc_outputs r) = {} \<and>
       (\<forall>n \<in> set (rc_inputs r). \<exists>i. dict_get (c_instances c) n = Some i \<and> is_input i) \<and>
       (\<forall>n \<in> set (rc_outputs r). \<exists>i. dict_get (c_instances c) n = Some i \<and> is_output i))"
proof -
  note l = loaded_instances [OF assms]
  have "rc_inputs r \<noteq> [] \<and> rc_outputs r \<noteq> [] \<and> set (rc_inputs r) \<inter> set (rc_outputs r) = {} \<and>
       (\<forall>n \<in> set (rc_inputs r). \<exists>i. dict_get (c_instances c) n = Some i \<and> is_input i) \<and>
       (\<forall>n \<in> set (rc_outputs r). \<exists>i. dict_get (c_instances c) n = Some i \<and> is_output i)"
    if "r \<in> snd ` set (c_rules c)" for r
    using l(4) [OF that] by (auto simp: rule_ok_def member_ok_def list_all_iff is_input_def is_output_def)
  with l(1-3) show ?thesis by blast
qed

text \<open>The names that errors report as unknown instances, and where they can come from.\<close>

definition reported :: "config_error list \<Rightarrow> name list" where
  "reported es = concat (map (\<lambda>e. case ce_problem e of UnknownInstance r n s \<Rightarrow> [n] | _ \<Rightarrow> []) es)"

lemma reported_simps [simp]:
  "reported [] = []" "reported (es @ fs) = reported es @ reported fs"
  "reported (error_at p pos # es) = (case p of UnknownInstance r n s \<Rightarrow> [n] | _ \<Rightarrow> []) @ reported es"
  by (simp_all add: reported_def error_at_def)

lemma set_reported: "set (reported es) = {n. \<exists>e \<in> set es. \<exists>r s. ce_problem e = UnknownInstance r n s}"
  by (auto simp: reported_def split: config_problem.splits) metis

lemma reported_map_at:
  "(\<And>x. (case p x of UnknownInstance r n s \<Rightarrow> [n] | _ \<Rightarrow> []) = []) \<Longrightarrow>
   reported (map (\<lambda>x. error_at (p x) (q x)) xs) = []"
  by (induction xs) auto

lemma collect_named_one_reported:
  "reported (ld_errors (collect_named_one ns pos p l)) = reported (ld_errors l)"
  by (cases p) (auto simp: collect_named_one_def Let_def reported_map_at split: option.split json.split sum.split namespace.split)

lemma fold_reported:
  "(\<And>x l. reported (ld_errors (f x l)) = reported (ld_errors l)) \<Longrightarrow>
   reported (ld_errors (fold f xs l)) = reported (ld_errors l)"
  by (induction xs arbitrary: l) auto

lemma collect_entry_reported: "reported (ld_errors (collect_entry path p l)) = reported (ld_errors l)"
  by (cases p) (auto simp: collect_entry_def Let_def collect_daemon_def collect_named_def
    fold_reported collect_named_one_reported split: option.split json.split)

lemma load_files_reported:
  "load_files files paths l = Inr l' \<Longrightarrow> reported (ld_errors l') = reported (ld_errors l)"
proof (induction paths arbitrary: l)
  case Nil
  then show ?case by (simp add: load_files_def)
next
  case (Cons path paths)
  obtain m where m: "load_file files path l = Inr m" and rest: "load_files files paths m = Inr l'"
    using Cons.prems by (auto simp: load_files_def split: sum.splits)
  have "reported (ld_errors m) = reported (ld_errors l)"
    using m by (auto simp: load_file_def collect_document_def fold_reported collect_entry_reported split: read_answer.splits)
  then show ?case using Cons.IH [OF rest] by simp
qed

lemma reject_unknown_reported [simp]: "reported (reject_unknown_keys body pos allowed subject) = []"
  by (simp add: reject_unknown_keys_def reported_map_at)

lemma field_reported:
  "require_string body pos key subject = (a, es) \<Longrightarrow> reported es = []"
  "optional_bool body pos key b subject = (c, es) \<Longrightarrow> reported es = []"
  "positive_int body pos key i = (j, es) \<Longrightarrow> reported es = []"
  "positive_number body pos key q = Inr (q', es) \<Longrightarrow> reported es = []"
  by (auto simp: require_string_def optional_bool_def positive_int_def positive_number_def Let_def
    split: option.splits json.splits if_splits)

lemma build_daemon_reported: "build_daemon l = Inr (d, es) \<Longrightarrow> reported es = []"
  by (auto simp: build_daemon_def Let_def field_reported split: option.splits prod.splits sum.splits)

lemma resolve_secrets_reported:
  "resolve_secrets st j pos = (j', es) \<Longrightarrow> reported es = []"
  "resolve_secrets_list st js i pos = (js', es) \<Longrightarrow> reported es = []"
  "resolve_secrets_object st ps pos = (ps', es) \<Longrightarrow> reported es = []"
  by (induction st j pos and st js i pos and st ps pos arbitrary: j' es and js' es and ps' es
      rule: resolve_secrets_resolve_secrets_list_resolve_secrets_object.induct)
    (auto simp: Let_def reported_map_at split: prod.splits)

lemma build_settings_reported: "build_settings st dr known = (s, es) \<Longrightarrow> reported es = []"
  by (auto simp: build_settings_def Let_def reported_map_at resolve_secrets_reported
    split: option.splits json.splits prod.splits)

lemma build_instance_reported: "build_instance st plugins dr = (i, es) \<Longrightarrow> reported es = []"
  by (auto simp: build_instance_def Let_def field_reported build_settings_reported split: option.splits prod.splits)

lemma build_instances_names:
  "build_instances st plugins drs (ins, br, es) = (ins', br', es') \<Longrightarrow>
   reported es' = reported es \<and>
   set (dict_keys ins') \<union> set br' = set (dict_keys ins) \<union> set br \<union> dr_name ` set drs"
proof (induction drs arbitrary: ins br es)
  case Nil
  then show ?case by simp
next
  case (Cons dr drs)
  obtain built fs where b: "build_instance st plugins dr = (built, fs)" by (cases "build_instance st plugins dr")
  show ?case
  proof (cases built)
    case None
    then show ?thesis using Cons.IH [of ins "br @ [dr_name dr]" "es @ fs"] Cons.prems
      by (auto simp: b build_instance_reported [OF b])
  next
    case (Some i)
    then have "build_instances st plugins drs (dict_put ins (dr_name dr) i, br, es @ fs) = (ins', br', es')"
      using Cons.prems build_instance_name [OF b [unfolded Some]] by (simp add: b)
    from Cons.IH [OF this] show ?thesis
      unfolding dict_keys_put by (auto simp: build_instance_reported [OF b])
  qed
qed

lemma resolve_member_reported:
  "resolve_member rx dr key direction names index x = (added, es) \<Longrightarrow>
   reported es = [] \<or> (\<exists>n. reported es = [n] \<and> dict_get (rx_instances rx) n = None \<and> n \<notin> set (rx_broken rx))"
  by (auto simp: resolve_member_def Let_def split: json.splits if_splits option.splits)

lemma resolve_loop_reported:
  "resolve_loop rx dr key direction index xs (names, ok, es) = (names', ok', es') \<Longrightarrow>
   set (reported es') \<inter> (set (dict_keys (rx_instances rx)) \<union> set (rx_broken rx)) \<subseteq> set (reported es)"
proof (induction xs arbitrary: index names ok es)
  case Nil
  then show ?case by auto
next
  case (Cons x xs)
  obtain added fs where a: "resolve_member rx dr key direction names index x = (added, fs)"
    by (cases "resolve_member rx dr key direction names index x")
  have "set (reported fs) \<inter> (set (dict_keys (rx_instances rx)) \<union> set (rx_broken rx)) = {}"
    using resolve_member_reported [OF a]
  proof (elim disjE exE conjE)
    fix n
    assume n: "reported fs = [n]" "dict_get (rx_instances rx) n = None" "n \<notin> set (rx_broken rx)"
    then have "n \<notin> set (dict_keys (rx_instances rx))" unfolding set_dict_keys by (simp only: domIff simp_thms)
    then show ?thesis unfolding n(1) using n(3) by (simp only: list.set) blast
  qed simp
  moreover obtain ns o2 where "resolve_loop rx dr key direction (Suc index) xs (ns, o2, es @ fs) = (names', ok', es')"
    using Cons.prems by (cases added) (auto simp: a)
  ultimately show ?case using Cons.IH [of "Suc index" ns o2 "es @ fs"] unfolding reported_simps set_append by blast
qed

lemma rule_members_reported:
  "rule_members rx dr key direction = (ns, es) \<Longrightarrow>
   set (reported es) \<inter> (set (dict_keys (rx_instances rx)) \<union> set (rx_broken rx)) = {}"
proof -
  assume r: "rule_members rx dr key direction = (ns, es)"
  show ?thesis
  proof (cases "\<exists>listed. dict_get (dr_body dr) key = Some (JList listed) \<and> listed \<noteq> []")
    case False
    then have "reported es = []" using r
      by (auto simp: rule_members_def Let_def split: option.splits json.splits if_splits)
    then show ?thesis by simp
  next
    case True
    then obtain listed where l: "dict_get (dr_body dr) key = Some (JList listed)" "listed \<noteq> []" by blast
    obtain names ok es' where q: "resolve_loop rx dr key direction 0 listed ([], True, []) = (names, ok, es')"
      by (cases "resolve_loop rx dr key direction 0 listed ([], True, [])")
    then have "es = es'" using r l by (auto simp: rule_members_def resolve_members_def)
    with resolve_loop_reported [OF q] show ?thesis by auto
  qed
qed

lemma build_rule_reported:
  "build_rule rx dr = (r, es) \<Longrightarrow>
   set (reported es) \<inter> (set (dict_keys (rx_instances rx)) \<union> set (rx_broken rx)) = {}"
proof -
  assume b: "build_rule rx dr = (r, es)"
  obtain ins e1 where i: "rule_members rx dr ''inputs'' DirInput = (ins, e1)" by (cases "rule_members rx dr ''inputs'' DirInput")
  obtain outs e2 where o2: "rule_members rx dr ''outputs'' DirOutput = (outs, e2)"
    by (cases "rule_members rx dr ''outputs'' DirOutput")
  have "set (reported es) = set (reported e1) \<union> set (reported e2)"
    using b by (auto simp: build_rule_def i o2 Let_def reported_map_at field_reported split: option.splits prod.splits if_splits)
  then show ?thesis using rule_members_reported [OF i] rule_members_reported [OF o2] by auto
qed

lemma build_rules_reported:
  "build_rules rx drs (rules, es) = (rules', es') \<Longrightarrow>
   set (reported es') \<inter> (set (dict_keys (rx_instances rx)) \<union> set (rx_broken rx)) \<subseteq> set (reported es)"
proof (induction drs arbitrary: rules es)
  case Nil
  then show ?case by auto
next
  case (Cons dr drs)
  obtain built fs where b: "build_rule rx dr = (built, fs)" by (cases "build_rule rx dr")
  obtain rs where "build_rules rx drs (rs, es @ fs) = (rules', es')" using Cons.prems by (simp add: b)
  from Cons.IH [OF this] build_rule_reported [OF b] show ?case by fastforce
qed

text \<open>
  A load is rejected with every problem found, at least one, ordered by file and by path with
  the problems that have no place last; and a rule is never told that an instance does not
  exist when a file declares it but it could not be built, so one mistake is reported once.
\<close>

theorem rejected_reports:
  assumes "load_configuration files name (Some found) st plugins = Rejected es" "found \<noteq> []"
    and "load_files files (sort found) init_loader = Inr l"
  shows "es \<noteq> [] \<and> sorted (map error_key es) \<and> mset (ld_errors l) \<subseteq># mset es \<and>
    (\<forall>e \<in> set es. \<forall>r n s. ce_problem e = UnknownInstance r n s \<longrightarrow> n \<notin> dr_name ` set (ld_instance_drafts l))"
proof -
  have rd: "read_files name (Some found) = (sort found, [])" using assms(2)
    by (cases found) (simp_all add: read_files_def Let_def insort_not_Nil)
  have ini: "add_errors init_loader [] = init_loader" by (simp add: add_errors_def)
  obtain daemon e1 where d: "build_daemon l = Inr (daemon, e1)"
    using assms(1,3) by (auto simp: load_configuration_def rd ini split: sum.splits)
  obtain ins br e2 where bi: "build_instances st plugins (ld_instance_drafts l) ([], [], []) = (ins, br, e2)"
    by (metis prod_cases3)
  let ?rx = "\<lparr>rx_instances = ins, rx_broken = br, rx_registry = ld_registry l\<rparr>"
  obtain rules e3 where b: "build_rules ?rx (ld_rule_drafts l) ([], []) = (rules, e3)" by fastforce
  have es: "es = sorted_errors (ld_errors l @ e1 @ e2 @ e3)" "ld_errors l @ e1 @ e2 @ e3 \<noteq> []"
    using assms(1,3) by (auto simp: load_configuration_def rd ini d bi b Let_def split: if_splits)
  note names = build_instances_names [OF bi]
  have r0: "reported (ld_errors l) = []" using load_files_reported [OF assms(3)] by (simp add: init_loader_def)
  have r2: "reported e2 = []" and drafts: "dr_name ` set (ld_instance_drafts l) = set (dict_keys ins) \<union> set br"
    using names by auto
  have "set (reported (ld_errors l @ e1 @ e2 @ e3)) \<inter> dr_name ` set (ld_instance_drafts l) = {}"
    using build_rules_reported [OF b] by (simp add: r0 r2 build_daemon_reported [OF d] drafts)
  moreover have "set es = set (ld_errors l @ e1 @ e2 @ e3)" by (simp add: es(1) sorted_errors_def)
  ultimately have "\<forall>e \<in> set es. \<forall>r n s. ce_problem e = UnknownInstance r n s \<longrightarrow> n \<notin> dr_name ` set (ld_instance_drafts l)"
    unfolding set_reported by blast
  moreover have "mset es = mset (ld_errors l @ e1 @ e2 @ e3)" by (simp add: es(1) sorted_errors_def)
  moreover have "es \<noteq> []" using es(2) \<open>set es = _\<close> by (metis set_empty)
  moreover have "sorted (map error_key es)" by (simp add: es(1) sorted_errors_def)
  ultimately show ?thesis by simp
qed

section \<open>Witnesses\<close>

definition ex_document :: "(string, json) dict" where
  "ex_document = [(''instances'', JObj
       [(''mail'', JObj [(''plugin'', JStr ''imap'')]),
        ('' Lamp '', JObj [(''plugin'', JStr ''light''), (''config'', JObj [(''pin'', JStr ''${secret:pin}'')])])]),
     (''rules'', JObj [(''visitor'', JObj [(''inputs'', JList [JStr ''mail'']), (''outputs'', JList [JStr ''Lamp''])])])]"

definition ex_known_plugins :: "(string, known_plugin) dict" where
  "ex_known_plugins = [(''imap'', \<lparr>kp_name = ''imap'', kp_directions = [DirInput], kp_validate = None\<rparr>),
     (''light'', \<lparr>kp_name = ''light'', kp_directions = [DirOutput],
        kp_validate = Some (\<lambda>s. if dict_get s ''pin'' = Some (JStr ''1234'') then [] else [''bad pin''])\<rparr>)]"

definition ex_loaded :: configuration where
  "ex_loaded = \<lparr>c_instances =
       [(''mail'', \<lparr>ic_name = ''mail'', ic_plugin = ''imap'', ic_directions = [DirInput], ic_settings = [],
          ic_enabled = True, ic_origin = \<lparr>cp_file = ''a.json'', cp_steps = [''instances'', py_repr ''mail'']\<rparr>\<rparr>),
        (''Lamp'', \<lparr>ic_name = ''Lamp'', ic_plugin = ''light'', ic_directions = [DirOutput],
          ic_settings = [(''pin'', JStr ''1234'')], ic_enabled = True,
          ic_origin = \<lparr>cp_file = ''a.json'', cp_steps = [''instances'', py_repr '' Lamp '']\<rparr>\<rparr>)],
     c_rules = [(''visitor'', \<lparr>rc_name = ''visitor'', rc_inputs = [''mail''], rc_outputs = [''Lamp''], rc_enabled = True,
          rc_origin = \<lparr>cp_file = ''a.json'', cp_steps = [''rules'', py_repr ''visitor'']\<rparr>\<rparr>)],
     c_files = [''a.json''], c_daemon = default_daemon_settings\<rparr>"

lemma ex_load:
  "load_configuration (\<lambda>_. ReadObject ex_document) ''d'' (Some [''a.json'']) \<lparr>st_path = ''s'', st_values = [(''pin'', ''1234'')]\<rparr>
     ex_known_plugins = Loaded ex_loaded"
  by code_simp

lemma loaded_names_complete_witness:
  "dict_keys (c_instances ex_loaded) = concat (map (declared (\<lambda>_. ReadObject ex_document) NsInstance) [''a.json''])"
  using loaded_names_complete [OF ex_load] by (simp add: ex_loaded_def)

lemma loaded_configuration_sound_witness:
  "config_keyed ex_loaded \<and> (\<exists>i. dict_get (c_instances ex_loaded) ''Lamp'' = Some i \<and> is_output i)"
  using loaded_configuration_sound [OF ex_load] by (simp add: ex_loaded_def)

text \<open>A file whose instance names no plugin and whose rule refers to it and to another.\<close>

definition ex_bad :: "(string, json) dict" where
  "ex_bad = [(''instances'', JObj [(''mail'', JObj [])]),
     (''rules'', JObj [(''r'', JObj [(''inputs'', JList [JStr ''mail'']), (''outputs'', JList [JStr ''web''])])])]"

lemma rejected_reports_witness:
  "\<exists>es. load_configuration (\<lambda>_. ReadObject ex_bad) ''d'' (Some [''a.json'']) (empty_store ''s'') [] = Rejected es \<and>
     length es = 2 \<and> (\<forall>e \<in> set es. \<forall>r n s. ce_problem e = UnknownInstance r n s \<longrightarrow> n \<noteq> ''mail'')"
proof -
  let ?f = "\<lambda>_::string. ReadObject ex_bad"
  let ?r = "load_configuration ?f ''d'' (Some [''a.json'']) (empty_store ''s'') []"
  let ?d = "\<lparr>dr_name = ''mail'', dr_body = [], dr_origin = path_named (path_key (path_root ''a.json'') ''instances'') ''mail''\<rparr>"
  have l: "load_files ?f (sort [''a.json'']) init_loader = Inr (collect_document ex_bad ''a.json'' init_loader)"
    by (simp add: load_files_def load_file_def)
  have dr: "ld_instance_drafts (collect_document ex_bad ''a.json'' init_loader) = [?d]" by code_simp
  obtain es where es: "?r = Rejected es" "length es = 2"
  proof -
    have "case ?r of Rejected es \<Rightarrow> length es = 2 | _ \<Rightarrow> False" by code_simp
    then show ?thesis using that by (auto split: load_result.splits)
  qed
  have "\<forall>e \<in> set es. \<forall>r n s. ce_problem e = UnknownInstance r n s \<longrightarrow> n \<noteq> ''mail''"
    using rejected_reports [OF es(1) _ l] unfolding dr by simp
  with es show ?thesis by blast
qed

end
