(* ===== verification/Discovery.thy ===== *)
theory Discovery
  imports Config_Loader
begin

text \<open>
  \<open>discovery.py\<close>: which plugin directories are plugins and what the scan of the search path
  finds. What Python's import machinery makes of a directory, a module or an exception, is
  an argument; the inspection of the module and the order of the scan are modelled.
\<close>

section \<open>Modules\<close>

text \<open>What a module holds under \<open>PLUGIN_NAME\<close> and under the two class attributes.\<close>

datatype name_attribute = NoName | NotAStringName | NameAttribute string

text \<open>A class attribute, as far as it is inspected: a usable class has its settings validator.\<close>

datatype class_attribute =
    NotAClass
  | NotASubclass
  | AbstractClass "string list"
  | PluginClass "settings \<Rightarrow> string list"

record plugin_module =
  pm_name :: name_attribute
  pm_input :: "class_attribute option"
  pm_output :: "class_attribute option"

record loaded_plugin =
  lp_name :: string
  lp_directory :: string
  lp_input :: "(settings \<Rightarrow> string list) option"
  lp_output :: "(settings \<Rightarrow> string list) option"

datatype load_problem =
    ImportFailed string
  | NoPluginName
  | BadPluginName
  | NoClasses
  | BadClass string string
  | AlreadyProvided string string

record load_failure =
  lf_directory :: string
  lf_problem :: load_problem

definition directions :: "loaded_plugin \<Rightarrow> plugin_direction list" where
  "directions p = (if lp_input p \<noteq> None then [DirInput] else []) @ (if lp_output p \<noteq> None then [DirOutput] else [])"

text \<open>\<open>_check_class\<close>: why an attribute is not a usable class, if it is not.\<close>

definition check_class :: "class_attribute \<Rightarrow> string \<Rightarrow> string option" where
  "check_class c base =
     (case c of
        NotAClass \<Rightarrow> Some ''is not a class''
      | NotASubclass \<Rightarrow> Some (''does not subclass '' @ base)
      | AbstractClass missing \<Rightarrow> Some (''does not implement: '' @ join '', '' (sort missing))
      | PluginClass _ \<Rightarrow> None)"

fun validator_of :: "class_attribute option \<Rightarrow> (settings \<Rightarrow> string list) option" where
  "validator_of (Some (PluginClass v)) = Some v"
| "validator_of _ = None"

definition bad_class :: "class_attribute option \<Rightarrow> string \<Rightarrow> string option" where
  "bad_class c base = (case c of None \<Rightarrow> None | Some k \<Rightarrow> check_class k base)"

definition inspect_module :: "plugin_module \<Rightarrow> string \<Rightarrow> load_failure + loaded_plugin" where
  "inspect_module m dir =
     (let fail = (\<lambda>p. Inl \<lparr>lf_directory = dir, lf_problem = p\<rparr>) in
      case pm_name m of
        NoName \<Rightarrow> fail NoPluginName
      | NotAStringName \<Rightarrow> fail BadPluginName
      | NameAttribute n \<Rightarrow>
          if py_strip n = [] then fail BadPluginName
          else if pm_input m = None \<and> pm_output m = None then fail NoClasses
          else (case bad_class (pm_input m) ''InputPlugin'' of
             Some text \<Rightarrow> fail (BadClass ''INPUT_PLUGIN'' text)
           | None \<Rightarrow>
               (case bad_class (pm_output m) ''OutputPlugin'' of
                  Some text \<Rightarrow> fail (BadClass ''OUTPUT_PLUGIN'' text)
                | None \<Rightarrow> Inr \<lparr>lp_name = py_strip n, lp_directory = dir,
                    lp_input = validator_of (pm_input m), lp_output = validator_of (pm_output m)\<rparr>)))"

section \<open>The scan\<close>

record candidate =
  ca_path :: string
  ca_name :: string
  ca_is_dir :: bool
  ca_has_init :: bool
  ca_import :: "string + plugin_module"

definition looks_like_a_plugin :: "candidate \<Rightarrow> bool" where
  "looks_like_a_plugin c =
     (if \<not> ca_is_dir c then False
      else if ca_name c \<noteq> [] \<and> hd (ca_name c) \<in> {CHR ''.'', CHR ''_''} then False
      else ca_has_init c)"

definition load_one :: "candidate \<Rightarrow> load_failure + loaded_plugin" where
  "load_one c =
     (case ca_import c of
        Inl text \<Rightarrow> Inl \<lparr>lf_directory = ca_path c, lf_problem = ImportFailed text\<rparr>
      | Inr m \<Rightarrow> inspect_module m (ca_path c))"

record discovery =
  ds_plugins :: "(string, loaded_plugin) dict"
  ds_failures :: "load_failure list"

definition consider_candidate :: "candidate \<Rightarrow> discovery \<Rightarrow> discovery" where
  "consider_candidate c d =
     (if \<not> looks_like_a_plugin c then d
      else case load_one c of
        Inl f \<Rightarrow> d\<lparr>ds_failures := ds_failures d @ [f]\<rparr>
      | Inr p \<Rightarrow>
          (case dict_get (ds_plugins d) (lp_name p) of
             Some existing \<Rightarrow> d\<lparr>ds_failures := ds_failures d @
               [\<lparr>lf_directory = lp_directory p, lf_problem = AlreadyProvided (lp_name p) (lp_directory existing)\<rparr>]\<rparr>
           | None \<Rightarrow> d\<lparr>ds_plugins := dict_put (ds_plugins d) (lp_name p) p\<rparr>))"

text \<open>The search path: each directory's entries in any order, or nothing if it is not there.\<close>

definition scan_directory :: "candidate list option \<Rightarrow> discovery \<Rightarrow> discovery" where
  "scan_directory dir d =
     (case dir of None \<Rightarrow> d | Some cs \<Rightarrow> fold consider_candidate (sort_key ca_path cs) d)"

definition discover :: "candidate list option list \<Rightarrow> discovery" where
  "discover path = fold scan_directory path \<lparr>ds_plugins = [], ds_failures = []\<rparr>"

text \<open>The validator configuration loading is given, and the plugins it knows.\<close>

definition settings_validator :: "loaded_plugin \<Rightarrow> settings \<Rightarrow> string list" where
  "settings_validator p s =
     (let problems = (case lp_input p of None \<Rightarrow> [] | Some v \<Rightarrow> v s) in
      case lp_output p of None \<Rightarrow> problems
      | Some v \<Rightarrow> fold (\<lambda>q acc. if q \<notin> set acc then acc @ [q] else acc) (v s) problems)"

definition known_plugins :: "discovery \<Rightarrow> (string, known_plugin) dict" where
  "known_plugins d = map (\<lambda>(n, p). (n, \<lparr>kp_name = n, kp_directions = directions p,
     kp_validate = Some (settings_validator p)\<rparr>)) (ds_plugins d)"

section \<open>Where plugins are looked for\<close>

text \<open>
  The directories that are scanned, in order: the one of a source checkout, when the package is in
  one, then the packaged plugins and the local ones. The root of the checkout is two levels above the
  package, and what the file system says of a path is an argument.
\<close>

definition source_checkout_plugin_directory ::
  "(string \<Rightarrow> bool) \<Rightarrow> (string \<Rightarrow> bool) \<Rightarrow> string \<Rightarrow> string option" where
  "source_checkout_plugin_directory is_file is_dir repository_root =
     (if \<not> is_file (repository_root @ ''/pyproject.toml'') then None
      else let candidate = repository_root @ ''/plugins'' in
        if \<not> is_dir candidate then None else Some candidate)"

definition default_search_path :: "string option \<Rightarrow> string list" where
  "default_search_path in_tree =
     (let directories = (case in_tree of Some d \<Rightarrow> [d] | None \<Rightarrow> []) in
      directories @ [''/usr/lib/noti-mapper/plugins''] @ [''/etc/noti-mapper/plugins''])"

section \<open>Properties\<close>

text \<open>The candidates of a search path that load, in the order of the scan.\<close>

definition scan_order :: "candidate list option list \<Rightarrow> candidate list" where
  "scan_order path = filter looks_like_a_plugin
     (concat (map (\<lambda>dir. case dir of None \<Rightarrow> [] | Some cs \<Rightarrow> sort_key ca_path cs) path))"

definition loads :: "candidate list \<Rightarrow> loaded_plugin list" where
  "loads cs = concat (map (\<lambda>c. case load_one c of Inl _ \<Rightarrow> [] | Inr p \<Rightarrow> [p]) cs)"

lemma consider_fold_filter:
  "fold consider_candidate cs d = fold consider_candidate (filter looks_like_a_plugin cs) d"
  by (induction cs arbitrary: d) (auto simp: consider_candidate_def)

lemma discover_fold: "discover path = fold consider_candidate (scan_order path) \<lparr>ds_plugins = [], ds_failures = []\<rparr>"
proof -
  have "fold scan_directory path d = fold consider_candidate
      (concat (map (\<lambda>dir. case dir of None \<Rightarrow> [] | Some cs \<Rightarrow> sort_key ca_path cs) path)) d" for d
    by (induction path arbitrary: d) (auto simp: scan_directory_def split: option.split)
  then show ?thesis unfolding discover_def scan_order_def by (simp only: consider_fold_filter [symmetric])
qed

lemma loads_append: "loads (xs @ ys) = loads xs @ loads ys"
  by (simp add: loads_def)

lemma consider_fold:
  assumes "\<forall>c \<in> set cs. looks_like_a_plugin c"
  defines "d \<equiv> fold consider_candidate cs \<lparr>ds_plugins = [], ds_failures = []\<rparr>"
  shows "dict_ok (ds_plugins d) \<and> (\<forall>n. dict_get (ds_plugins d) n = find (\<lambda>p. lp_name p = n) (loads cs)) \<and>
    length (ds_plugins d) + length (ds_failures d) = length cs"
  using assms(1) unfolding d_def
proof (induction cs rule: rev_induct)
  case Nil
  then show ?case by (simp add: loads_def)
next
  case (snoc c cs)
  let ?d = "fold consider_candidate cs \<lparr>ds_plugins = [], ds_failures = []\<rparr>"
  have l: "looks_like_a_plugin c" using snoc.prems by simp
  have IH: "dict_ok (ds_plugins ?d)" "\<And>n. dict_get (ds_plugins ?d) n = find (\<lambda>p. lp_name p = n) (loads cs)"
    "length (ds_plugins ?d) + length (ds_failures ?d) = length cs" using snoc by auto
  have fa: "find P (xs @ ys) = (case find P xs of None \<Rightarrow> find P ys | Some x \<Rightarrow> Some x)" for P :: "loaded_plugin \<Rightarrow> bool" and xs ys
    by (induction xs) auto
  show ?case
  proof (cases "load_one c")
    case (Inl f)
    have lc: "loads (cs @ [c]) = loads cs" by (simp add: loads_def Inl)
    show ?thesis unfolding lc using IH l Inl by (simp add: consider_candidate_def [of c])
  next
    case (Inr p)
    then have lc: "loads [c] = [p]" by (simp add: loads_def)
    show ?thesis
    proof (cases "dict_get (ds_plugins ?d) (lp_name p)")
      case None
      then have "lp_name p \<notin> fst ` set (ds_plugins ?d)" by (simp add: map_of_eq_None_iff)
      then have put: "dict_put (ds_plugins ?d) (lp_name p) p = ds_plugins ?d @ [(lp_name p, p)]" by (rule dict_put_fresh)
      have len: "length (dict_put (ds_plugins ?d) (lp_name p) p) = Suc (length (ds_plugins ?d))" by (simp add: put)
      have ok: "dict_ok (dict_put (ds_plugins ?d) (lp_name p) p)" using IH(1) by (rule dict_ok_put)
      have eq: "fold consider_candidate (cs @ [c]) \<lparr>ds_plugins = [], ds_failures = []\<rparr> =
          ?d\<lparr>ds_plugins := dict_put (ds_plugins ?d) (lp_name p) p\<rparr>"
        using Inr l None by (simp add: consider_candidate_def [of c])
      have "find (\<lambda>q. lp_name q = n) (loads (cs @ [c])) = dict_get (dict_put (ds_plugins ?d) (lp_name p) p) n" for n
        using IH(2) [of n] None by (auto simp: loads_append lc fa split: option.splits)
      then show ?thesis unfolding eq using ok IH(3) len by simp
    next
      case (Some e)
      have s: "find (\<lambda>q. lp_name q = lp_name p) (loads cs) = Some e" using IH(2) [of "lp_name p"] Some by simp
      have "find (\<lambda>q. lp_name q = n) (loads (cs @ [c])) = dict_get (ds_plugins ?d) n" for n
        by (cases "n = lp_name p") (simp_all add: IH(2) loads_append lc fa s split: option.split)
      then show ?thesis using Inr l Some IH(1,3) by (simp add: consider_candidate_def [of c])
    qed
  qed
qed

lemma bad_class_None: "bad_class c base = None \<Longrightarrow> validator_of c = None \<longleftrightarrow> c = None"
  by (cases c rule: validator_of.cases) (auto simp: bad_class_def check_class_def)

lemma inspect_module_ok:
  assumes "inspect_module m dir = Inr p"
  shows "lp_name p \<noteq> [] \<and> py_strip (lp_name p) = lp_name p \<and> directions p \<noteq> []"
proof -
  obtain n where n: "pm_name m = NameAttribute n" "py_strip n \<noteq> []"
    using assms by (auto simp: inspect_module_def Let_def split: name_attribute.splits if_splits)
  have c: "pm_input m \<noteq> None \<or> pm_output m \<noteq> None"
    using assms n by (auto simp: inspect_module_def Let_def split: if_splits)
  have "bad_class (pm_input m) ''InputPlugin'' = None"
    using assms n by (auto simp: inspect_module_def Let_def split: if_splits option.splits)
  moreover from this have "bad_class (pm_output m) ''OutputPlugin'' = None"
    using assms n by (auto simp: inspect_module_def Let_def split: if_splits option.splits)
  ultimately have "p = \<lparr>lp_name = py_strip n, lp_directory = dir,
      lp_input = validator_of (pm_input m), lp_output = validator_of (pm_output m)\<rparr>"
    "validator_of (pm_input m) \<noteq> None \<or> validator_of (pm_output m) \<noteq> None"
    using assms n c bad_class_None by (auto simp: inspect_module_def Let_def split: if_splits)
  with n(2) show ?thesis by (auto simp: directions_def)
qed

lemma loaded_plugin_ok:
  assumes "p \<in> set (loads cs)"
  shows "lp_name p \<noteq> [] \<and> py_strip (lp_name p) = lp_name p \<and> directions p \<noteq> []"
proof -
  obtain c where c: "load_one c = Inr p" using assms by (auto simp: loads_def split: sum.splits)
  then obtain m where "inspect_module m (ca_path c) = Inr p" by (auto simp: load_one_def split: sum.splits)
  then show ?thesis by (rule inspect_module_ok)
qed

text \<open>
  The scan finds, under each name, the first plugin of that name in the order of the search
  path and of the paths within a directory; every directory that looks like a plugin is
  either found or reported as a failure, and one that does not load hides nothing. A
  plugin that is found has a name and at least one side, and configuration loading is
  offered exactly the plugins found, with their sides.
\<close>

theorem discover_first_wins:
  "dict_get (ds_plugins (discover path)) n = find (\<lambda>p. lp_name p = n) (loads (scan_order path)) \<and>
   length (ds_plugins (discover path)) + length (ds_failures (discover path)) = length (scan_order path) \<and>
   map_option kp_directions (dict_get (known_plugins (discover path)) n) =
     map_option directions (dict_get (ds_plugins (discover path)) n) \<and>
   (case dict_get (ds_plugins (discover path)) n of None \<Rightarrow> True
    | Some p \<Rightarrow> n = lp_name p \<and> n \<noteq> [] \<and> py_strip n = n \<and> directions p \<noteq> [])"
proof -
  have all: "\<forall>c \<in> set (scan_order path). looks_like_a_plugin c" by (simp add: scan_order_def)
  note f = consider_fold [OF all, folded discover_fold]
  have get: "dict_get (ds_plugins (discover path)) n = find (\<lambda>p. lp_name p = n) (loads (scan_order path))"
    using f by blast
  have kp: "map_option kp_directions (dict_get (known_plugins d) m) = map_option directions (dict_get (ds_plugins d) m)" for d m
  proof -
    have "map_option kp_directions (map_of (map (\<lambda>(n, p). (n, \<lparr>kp_name = n, kp_directions = directions p,
       kp_validate = Some (settings_validator p)\<rparr>)) xs) m) = map_option directions (map_of xs m)" for xs
      by (induction xs) auto
    then show ?thesis by (simp only: known_plugins_def)
  qed
  have "case dict_get (ds_plugins (discover path)) n of None \<Rightarrow> True
    | Some p \<Rightarrow> n = lp_name p \<and> n \<noteq> [] \<and> py_strip n = n \<and> directions p \<noteq> []"
  proof (cases "find (\<lambda>p. lp_name p = n) (loads (scan_order path))")
    case None
    then show ?thesis by (simp add: get)
  next
    case (Some p)
    then have "p \<in> set (loads (scan_order path))" "lp_name p = n" by (auto simp: find_Some_iff)
    with Some loaded_plugin_ok show ?thesis by (auto simp: get)
  qed
  with get f kp show ?thesis by blast
qed

end
