(* ===== verification/Runtime.thy ===== *)
theory Runtime
  imports Engine_Start Discovery
begin

text \<open>
  \<open>runtime.py\<close>: the live plugin instances and the reload that replaces only what changed,
  the startup sequence, the watchdog's judgement of health and the status line. A plugin
  object is known by the identity of the instance holding it; starting and stopping
  objects is recorded, what they then do arrives at the core as messages. An exception of
  a plugin's own \<open>start\<close> or \<open>stop\<close> is caught and logged, and changes nothing here;
  constructing a plugin object is taken not to raise.
\<close>

section \<open>Equality of settings\<close>

text \<open>
  Python's \<open>==\<close> on parsed JSON: numbers and booleans compare as numbers, and objects as
  dicts, in which the order of the keys does not matter.
\<close>

definition number_of :: "json \<Rightarrow> rat option" where
  "number_of j = (case j of JBool b \<Rightarrow> Some (if b then 1 else 0) | JInt i \<Rightarrow> Some (of_int i) | JFloat q \<Rightarrow> Some q | _ \<Rightarrow> None)"

fun json_eq :: "json \<Rightarrow> json \<Rightarrow> bool"
and json_list_eq :: "json list \<Rightarrow> json list \<Rightarrow> bool"
and json_pairs_eq :: "(string \<times> json) list \<Rightarrow> (string \<times> json) list \<Rightarrow> bool" where
  "json_eq (JList js) w = (case w of JList ks \<Rightarrow> json_list_eq js ks | _ \<Rightarrow> False)"
| "json_eq (JObj ps) w = (case w of JObj qs \<Rightarrow> length ps = length qs \<and> json_pairs_eq ps qs | _ \<Rightarrow> False)"
| "json_eq JNull w = (w = JNull)"
| "json_eq (JStr s) w = (w = JStr s)"
| "json_eq j w = (number_of w \<noteq> None \<and> number_of j = number_of w)"
| "json_list_eq [] ks = (ks = [])"
| "json_list_eq (j # js) ks = (case ks of [] \<Rightarrow> False | k # ks' \<Rightarrow> json_eq j k \<and> json_list_eq js ks')"
| "json_pairs_eq [] qs = True"
| "json_pairs_eq ((k, j) # ps) qs =
     (case dict_get qs k of None \<Rightarrow> False | Some w \<Rightarrow> json_eq j w \<and> json_pairs_eq ps qs)"

definition settings_eq :: "settings \<Rightarrow> settings \<Rightarrow> bool" where
  "settings_eq s t \<longleftrightarrow> json_eq (JObj s) (JObj t)"

section \<open>Live instances\<close>

record live_instance =
  li_id :: nat
  li_name :: name
  li_plugin :: string
  li_settings :: settings
  li_input :: bool
  li_output :: bool

definition matches :: "live_instance \<Rightarrow> instance_config \<Rightarrow> bool" where
  "matches l c \<longleftrightarrow> li_plugin l = ic_plugin c \<and> settings_eq (li_settings l) (ic_settings c)"

record daemon =
  dm_engine :: engine
  dm_found :: discovery
  dm_live :: "(name, live_instance) dict"
  dm_configuration :: configuration
  dm_next_id :: nat
  dm_running :: "nat list"

datatype startup_error =
    ConfigurationInvalid "config_error list"
  | SecretsInvalid secrets_error
  | PluginNotLoaded name string
  | Escaped string

definition make_live :: "nat \<Rightarrow> instance_config \<Rightarrow> loaded_plugin \<Rightarrow> live_instance" where
  "make_live k c p = \<lparr>li_id = k, li_name = ic_name c, li_plugin = ic_plugin c, li_settings = ic_settings c,
     li_input = (lp_input p \<noteq> None), li_output = (lp_output p \<noteq> None)\<rparr>"

text \<open>\<open>_build_instances\<close>: a new object for every enabled instance, in the order of their names.\<close>

fun build_live ::
  "(string, loaded_plugin) dict \<Rightarrow> nat \<Rightarrow> instance_config list \<Rightarrow> (name, live_instance) dict \<Rightarrow>
   startup_error + (name, live_instance) dict \<times> nat" where
  "build_live plugins k [] built = Inr (built, k)"
| "build_live plugins k (c # cs) built =
     (case dict_get plugins (ic_plugin c) of
        None \<Rightarrow> Inl (PluginNotLoaded (ic_name c) (ic_plugin c))
      | Some p \<Rightarrow> build_live plugins (Suc k) cs (dict_put built (ic_name c) (make_live k c p)))"

definition plugin_set_of :: "(name, live_instance) dict \<Rightarrow> plugin_set" where
  "plugin_set_of live = \<lparr>ps_inputs = map fst (filter (li_input \<circ> snd) live),
     ps_outputs = map fst (filter (li_output \<circ> snd) live)\<rparr>"

text \<open>
  \<open>_start_instances\<close> and \<open>_stop_instances\<close>: the objects that run afterwards.
\<close>

definition start_instances :: "live_instance list \<Rightarrow> daemon \<Rightarrow> daemon" where
  "start_instances ls d = d\<lparr>dm_running := dm_running d @ map li_id ls\<rparr>"

definition stop_instances :: "live_instance list \<Rightarrow> daemon \<Rightarrow> daemon" where
  "stop_instances ls d = d\<lparr>dm_running := filter (\<lambda>k. k \<notin> set (map li_id ls)) (dm_running d)\<rparr>"

section \<open>Startup\<close>

text \<open>
  \<open>Daemon._load_configuration\<close>, from what the secrets file and the configuration
  directory hold.
\<close>

record installation =
  in_loads :: "string \<Rightarrow> string + raw_json"
  in_secrets_path :: string
  in_secrets :: secrets_file
  in_directory :: string
  in_found :: "string list option"
  in_contents :: "string \<Rightarrow> file_content"

definition load_installation :: "installation \<Rightarrow> (string, known_plugin) dict \<Rightarrow> startup_error + configuration" where
  "load_installation inst known =
     (case load_secrets (in_loads inst) (in_secrets_path inst) (in_secrets inst) of
        Inl e \<Rightarrow> Inl (SecretsInvalid e)
      | Inr store \<Rightarrow>
          (case load_configuration (\<lambda>f. read_object (in_loads inst) (in_contents inst f)) (in_directory inst)
                  (in_found inst) store known of
             Loaded c \<Rightarrow> Inr c
           | Rejected es \<Rightarrow> Inl (ConfigurationInvalid es)
           | LoadRaises e \<Rightarrow> Inl (Escaped e)))"

datatype start_result =
    StartFailed startup_error
  | StartRaises exn
  | Started daemon

text \<open>
  \<open>Daemon.start\<close>: an engine over the mirrored database, the plugins handed to it in a
  first reload that is drained, the instances started, then reconciliation. The
  acknowledgement of that first reload has identity 0.
\<close>

definition start_daemon :: "env \<Rightarrow> installation \<Rightarrow> discovery \<Rightarrow> db \<Rightarrow> start_result" where
  "start_daemon env inst found d =
     (case load_installation inst (known_plugins found) of
        Inl e \<Rightarrow> StartFailed e
      | Inr c \<Rightarrow>
          (case mirror_configuration d c of
             Inl x \<Rightarrow> StartRaises x
           | Inr d' \<Rightarrow>
               (case build_live (ds_plugins found) 0 (enabled_instances c) [] of
                  Inl e \<Rightarrow> StartFailed e
                | Inr (live, k) \<Rightarrow>
                    (case drain env (submit (ReloadMessage c (Some (plugin_set_of live)) 0) (started (env_now env) d' c)) of
                       Inl (x, _) \<Rightarrow> StartRaises x
                     | Inr (_, _, s) \<Rightarrow>
                         (case reconcile env s of
                            Inl (x, _) \<Rightarrow> StartRaises x
                          | Inr s' \<Rightarrow>
                              Started (start_instances (map snd live)
                                \<lparr>dm_engine = s', dm_found = found, dm_live = live, dm_configuration = c,
                                 dm_next_id = k, dm_running = []\<rparr>))))))"

section \<open>Reload\<close>

record reload_plan =
  rp_rebuilt :: "(name, live_instance) dict"
  rp_retained :: "live_instance list"
  rp_started :: "live_instance list"
  rp_removed :: "live_instance list"

text \<open>Keeping the objects whose plugin and settings are unchanged.\<close>

definition retain_one ::
  "(name, live_instance) dict \<Rightarrow> configuration \<Rightarrow> name \<Rightarrow>
   (name, live_instance) dict \<times> live_instance list \<Rightarrow> (name, live_instance) dict \<times> live_instance list" where
  "retain_one previous c n = (\<lambda>(rebuilt, retained).
     case dict_get previous n of
       None \<Rightarrow> (rebuilt, retained)
     | Some existing \<Rightarrow>
         if (case dict_get (c_instances c) n of None \<Rightarrow> False | Some i \<Rightarrow> matches existing i)
         then (dict_put rebuilt n existing, retained @ [existing]) else (rebuilt, retained))"

definition plan_reload ::
  "(name, live_instance) dict \<Rightarrow> (name, live_instance) dict \<Rightarrow> configuration \<Rightarrow> reload_plan" where
  "plan_reload previous built c =
     (let (rebuilt, retained) = fold (retain_one previous c) (dict_keys built) (built, []) in
      \<lparr>rp_rebuilt = rebuilt, rp_retained = retained,
       rp_started = filter (\<lambda>l. l \<notin> set retained) (map snd rebuilt),
       rp_removed = map snd (filter (\<lambda>(n, l). case dict_get rebuilt n of None \<Rightarrow> True | Some r \<Rightarrow> li_id r \<noteq> li_id l) previous)\<rparr>)"

text \<open>
  \<open>_reload\<close> up to the submission of the reload message. The configuration is mirrored and the
  latches reread before anything else, and stay so if building an instance then fails.
\<close>

datatype reload_begun =
    ReloadRefused startup_error
  | ReloadRaises exn
  | ReloadFailed startup_error daemon
  | ReloadSubmitted reload_plan configuration daemon

definition begin_reload :: "nat \<Rightarrow> startup_error + configuration \<Rightarrow> daemon \<Rightarrow> reload_begun" where
  "begin_reload ack loaded d =
     (case loaded of
        Inl e \<Rightarrow> ReloadRefused e
      | Inr c \<Rightarrow>
          (case mirror_configuration (e_db (dm_engine d)) c of
             Inl x \<Rightarrow> ReloadRaises x
           | Inr db' \<Rightarrow>
               (let d1 = d\<lparr>dm_engine := reload_latches ((dm_engine d)\<lparr>e_db := db'\<rparr>)\<rparr> in
                case build_live (ds_plugins (dm_found d1)) (dm_next_id d1) (enabled_instances c) [] of
                  Inl e \<Rightarrow> ReloadFailed e d1
                | Inr (built, k) \<Rightarrow>
                    (let plan = plan_reload (dm_live d1) built c;
                         m = ReloadMessage c (Some (plugin_set_of (rp_rebuilt plan))) ack in
                     ReloadSubmitted plan c (d1\<lparr>dm_engine := submit m (dm_engine d1), dm_next_id := k\<rparr>)))))"

text \<open>The rest of it, after the wait for the core: acknowledged within the timeout or not.\<close>

definition finish_reload :: "bool \<Rightarrow> reload_plan \<Rightarrow> configuration \<Rightarrow> daemon \<Rightarrow> daemon" where
  "finish_reload acknowledged plan c d =
     (if \<not> acknowledged then d
      else start_instances (rp_started plan)
        (stop_instances (rp_removed plan) (d\<lparr>dm_live := rp_rebuilt plan, dm_configuration := c\<rparr>)))"

section \<open>The watchdog\<close>

definition unhealthy_grace_seconds :: seconds where "unhealthy_grace_seconds = 300"
definition heartbeat_grace_seconds :: seconds where "heartbeat_grace_seconds = 60"

datatype unhealthy =
    NotStarted
  | NeverTicked
  | NotTicked seconds
  | InstanceFailed name seconds string

definition seconds_between :: "time \<Rightarrow> time \<Rightarrow> seconds" where
  "seconds_between now t = of_int (now - t) / 1000000"

text \<open>\<open>_unhealthy_reason\<close>, for a daemon whose store is open.\<close>

definition failing :: "time \<Rightarrow> health_record \<Rightarrow> bool" where
  "failing now h \<longleftrightarrow> hr_status h = HsFailed \<and> seconds_between now (hr_updated_at h) \<ge> unhealthy_grace_seconds"

definition unhealthy_reason :: "time \<Rightarrow> engine option \<Rightarrow> unhealthy option" where
  "unhealthy_reason now eng =
     (case eng of None \<Rightarrow> Some NotStarted
      | Some s \<Rightarrow>
          (case e_heartbeat s of None \<Rightarrow> Some NeverTicked
           | Some beat \<Rightarrow>
               if seconds_between now beat > heartbeat_grace_seconds then Some (NotTicked (seconds_between now beat))
               else (case find (failing now) (health_records (e_db s)) of
                  None \<Rightarrow> None
                | Some h \<Rightarrow> Some (InstanceFailed (hr_instance h) (seconds_between now (hr_updated_at h)) (hr_detail h)))))"

section \<open>The status line\<close>

definition status_line :: "daemon \<Rightarrow> string" where
  "status_line d =
     string_of_nat (length (c_rules (dm_configuration d))) @ '' rules, '' @
     string_of_nat (length (c_instances (dm_configuration d))) @ '' instances, '' @
     string_of_nat (length (filter snd (latch_states (dm_engine d)))) @ '' latched''"

end
