(* ===== verification/Runtime_Reload.thy ===== *)
theory Runtime_Reload
  imports Runtime
begin

text \<open>
  What building the instances and planning a reload yield, and that an acknowledged reload
  leaves exactly the instances of the new configuration running.
\<close>

section \<open>What building and planning yield\<close>

lemma build_live_Inr:
  "build_live plugins k cs built = Inr (live, k') \<Longrightarrow> distinct (dict_keys built @ map ic_name cs) \<Longrightarrow>
   k' = k + length cs \<and> (\<forall>c \<in> set cs. dict_get plugins (ic_plugin c) \<noteq> None) \<and>
   live = built @ map (\<lambda>(j, c). (ic_name c, make_live j c (the (dict_get plugins (ic_plugin c))))) (List.enumerate k cs)"
proof (induction cs arbitrary: k built)
  case Nil
  then show ?case by simp
next
  case (Cons c cs)
  obtain p where p: "dict_get plugins (ic_plugin c) = Some p"
    using Cons.prems(1) by (auto split: option.splits)
  have put: "dict_put built (ic_name c) (make_live k c p) = built @ [(ic_name c, make_live k c p)]"
    using Cons.prems(2) by (intro dict_put_fresh) auto
  have r: "build_live plugins (Suc k) cs (built @ [(ic_name c, make_live k c p)]) = Inr (live, k')"
    using Cons.prems(1) by (simp add: p put)
  show ?case using Cons.IH [OF r] Cons.prems(2) p by auto
qed

lemma build_live_Inl:
  "build_live plugins k cs built = Inl e \<Longrightarrow> \<exists>c \<in> set cs. dict_get plugins (ic_plugin c) = None"
  by (induction cs arbitrary: k built) (auto split: option.splits)

definition kept_instance :: "(name, live_instance) dict \<Rightarrow> configuration \<Rightarrow> name \<Rightarrow> bool" where
  "kept_instance previous c n \<longleftrightarrow>
     (case dict_get previous n of None \<Rightarrow> False
      | Some existing \<Rightarrow> (case dict_get (c_instances c) n of None \<Rightarrow> False | Some i \<Rightarrow> matches existing i))"

lemma dict_put_present:
  "dict_ok d \<Longrightarrow> k \<in> fst ` set d \<Longrightarrow> dict_put d k v = map (\<lambda>(n, w). (n, if n = k then v else w)) d"
proof (induction d)
  case (Cons p d)
  obtain n w where p: "p = (n, w)" by (cases p)
  show ?case
  proof (cases "n = k")
    case True
    then have "map (\<lambda>(n, w). (n, if n = k then v else w)) d = d"
      using Cons.prems(1) by (intro map_idI) (force simp: p)
    with True show ?thesis by (simp add: p)
  next
    case False
    then show ?thesis using Cons by (simp add: p)
  qed
qed simp

lemma retain_fold:
  assumes "dict_ok r" "set ns \<subseteq> fst ` set r" "distinct ns"
  shows "fold (retain_one previous c) ns (r, ret) =
    (map (\<lambda>(n, l). (n, if n \<in> set ns \<and> kept_instance previous c n then the (dict_get previous n) else l)) r,
     ret @ map (\<lambda>n. the (dict_get previous n)) (filter (kept_instance previous c) ns))"
  using assms
proof (induction ns arbitrary: r ret)
  case Nil
  then show ?case by (auto intro!: map_idI [symmetric])
next
  case (Cons n ns)
  let ?K = "kept_instance previous c"
  show ?case
  proof (cases "?K n")
    case False
    then have "retain_one previous c n (r, ret) = (r, ret)"
      by (auto simp: retain_one_def kept_instance_def split: option.splits)
    then show ?thesis using Cons False by (auto intro!: map_cong)
  next
    case True
    then obtain ex where ex: "dict_get previous n = Some ex"
      and st: "retain_one previous c n (r, ret) = (dict_put r n ex, ret @ [ex])"
      by (auto simp: retain_one_def kept_instance_def split: option.splits)
    let ?r = "map (\<lambda>(m, w). (m, if m = n then ex else w)) r"
    have put: "dict_put r n ex = ?r" using Cons.prems by (intro dict_put_present) auto
    have k: "dict_keys ?r = dict_keys r" by (simp add: comp_def case_prod_beta)
    have IH: "fold (retain_one previous c) ns (?r, ret @ [ex]) =
       (map (\<lambda>(m, l). (m, if m \<in> set ns \<and> ?K m then the (dict_get previous m) else l)) ?r,
        (ret @ [ex]) @ map (\<lambda>n. the (dict_get previous n)) (filter ?K ns))"
      using Cons.prems k by (intro Cons.IH) (simp_all del: map_map flip: set_map)
    show ?thesis using IH True ex Cons.prems(3) by (auto simp: st put intro!: map_cong)
  qed
qed

text \<open>Every live instance under its name, each with its own object, and just those objects run.\<close>

definition daemon_ok :: "daemon \<Rightarrow> bool" where
  "daemon_ok d \<longleftrightarrow> dict_ok (dm_live d) \<and> (\<forall>p \<in> set (dm_live d). li_name (snd p) = fst p) \<and>
     distinct (map (li_id \<circ> snd) (dm_live d)) \<and> (\<forall>p \<in> set (dm_live d). li_id (snd p) < dm_next_id d) \<and>
     distinct (dm_running d) \<and> set (dm_running d) = (li_id \<circ> snd) ` set (dm_live d)"

text \<open>The instance an enabled one is given: the old object if unchanged, a new one otherwise.\<close>

definition renewed :: "daemon \<Rightarrow> configuration \<Rightarrow> nat \<times> instance_config \<Rightarrow> name \<times> live_instance" where
  "renewed d c = (\<lambda>(j, i). (ic_name i,
     if kept_instance (dm_live d) c (ic_name i) then the (dict_get (dm_live d) (ic_name i))
     else make_live j i (the (dict_get (ds_plugins (dm_found d)) (ic_plugin i)))))"

lemma distinct_enabled_instances:
  assumes "config_keyed c"
  shows "distinct (map ic_name (enabled_instances c))"
proof -
  have k: "map (ic_name \<circ> snd) (c_instances c) = map fst (c_instances c)"
    using assms by (intro map_snd_keys) (simp add: config_keyed_def)
  have "distinct (map ic_name (map snd (c_instances c)))"
    using assms by (simp only: map_map k config_keyed_def)
  then show ?thesis
    by (simp only: enabled_instances_def distinct_map_sort_key distinct_map_filter_keep)
qed

lemma set_enumerate_snd: "snd ` set (List.enumerate k xs) = set xs"
  by (simp flip: set_map)

lemma enumerate_filter_mem: "(j, x) \<in> set (List.enumerate k xs) \<Longrightarrow> k \<le> j \<and> j < k + length xs \<and> x \<in> set xs"
  by (auto simp: in_set_enumerate_eq)

lemma plan_reload_parts:
  assumes ok: "daemon_ok d" and keyed: "config_keyed c"
    and b: "build_live (ds_plugins (dm_found d)) (dm_next_id d) (enabled_instances c) [] = Inr (built, k)"
  defines "plan \<equiv> plan_reload (dm_live d) built c"
  defines "es \<equiv> List.enumerate (dm_next_id d) (enabled_instances c)"
  shows "k = dm_next_id d + length (enabled_instances c)"
    "rp_rebuilt plan = map (renewed d c) es"
    "rp_started plan = map (snd \<circ> renewed d c) (filter (\<lambda>(j, i). \<not> kept_instance (dm_live d) c (ic_name i)) es)"
    "rp_removed plan = map snd (filter (\<lambda>(n, l). \<not> (n \<in> ic_name ` set (enabled_instances c) \<and> kept_instance (dm_live d) c n)) (dm_live d))"
proof -
  let ?cs = "enabled_instances c" and ?prev = "dm_live d" and ?K = "kept_instance (dm_live d) c"
  let ?mk = "\<lambda>(j, i). (ic_name i, make_live j i (the (dict_get (ds_plugins (dm_found d)) (ic_plugin i))))"
  have dist: "distinct (dict_keys [] @ map ic_name ?cs)" using distinct_enabled_instances [OF keyed] by simp
  note B = build_live_Inr [OF b dist]
  show "k = dm_next_id d + length ?cs" using B by simp
  have built: "built = map ?mk es" using B by (simp add: es_def)
  have keys: "dict_keys built = map ic_name ?cs"
    by (simp add: built es_def case_prod_beta comp_def) (simp flip: map_map [unfolded comp_def])
  have f: "fold (retain_one ?prev c) (dict_keys built) (built, []) =
    (map (\<lambda>(n, l). (n, if n \<in> set (dict_keys built) \<and> ?K n then the (dict_get ?prev n) else l)) built,
     [] @ map (\<lambda>n. the (dict_get ?prev n)) (filter ?K (dict_keys built)))"
  proof (rule retain_fold)
    show "dict_ok built" unfolding keys by (rule distinct_enabled_instances [OF keyed])
    then show "distinct (dict_keys built)" .
  qed simp
  let ?ret = "map (\<lambda>n. the (dict_get ?prev n)) (filter ?K (dict_keys built))"
  have reb: "map (\<lambda>(n, l). (n, if n \<in> set (dict_keys built) \<and> ?K n then the (dict_get ?prev n) else l)) built = map (renewed d c) es"
    unfolding built by (auto simp: renewed_def case_prod_beta intro!: map_cong)
  have plan: "plan = \<lparr>rp_rebuilt = map (renewed d c) es, rp_retained = ?ret,
      rp_started = filter (\<lambda>l. l \<notin> set ?ret) (map snd (map (renewed d c) es)),
      rp_removed = map snd (filter (\<lambda>(n, l). case dict_get (map (renewed d c) es) n of None \<Rightarrow> True
         | Some r \<Rightarrow> li_id r \<noteq> li_id l) ?prev)\<rparr>"
    unfolding plan_def plan_reload_def f reb Let_def prod.case append_Nil ..
  show rebuilt: "rp_rebuilt plan = map (renewed d c) es" by (simp only: plan reload_plan.simps)
  have old: "li_id l < dm_next_id d" if "(n, l) \<in> set ?prev" for n l using ok that by (auto simp: daemon_ok_def)
  have kept: "dict_get ?prev n = Some (the (dict_get ?prev n)) \<and> (n, the (dict_get ?prev n)) \<in> set ?prev" if "?K n" for n
    using that by (auto simp: kept_instance_def split: option.splits dest: map_of_SomeD)
  have ret_old: "li_id l < dm_next_id d" if "l \<in> set ?ret" for l
    using that kept old by auto
  have in_ret: "snd (renewed d c (j, i)) \<in> set ?ret \<longleftrightarrow> ?K (ic_name i)" if m: "(j, i) \<in> set es" for j i
  proof (cases "?K (ic_name i)")
    case True
    have "ic_name i \<in> set (dict_keys built)"
      using enumerate_filter_mem [OF m [unfolded es_def]] unfolding keys by simp
    with True show ?thesis by (auto simp: renewed_def)
  next
    case False
    then have "li_id (snd (renewed d c (j, i))) = j" by (simp add: renewed_def make_live_def)
    moreover have "dm_next_id d \<le> j" using enumerate_filter_mem [OF m [unfolded es_def]] by simp
    ultimately show ?thesis using False ret_old by fastforce
  qed
  have "rp_started plan = filter (\<lambda>l. l \<notin> set ?ret) (map snd (map (renewed d c) es))"
    by (simp only: plan reload_plan.simps)
  also have "\<dots> = map (snd \<circ> renewed d c) (filter (\<lambda>p. snd (renewed d c p) \<notin> set ?ret) es)"
    by (simp add: filter_map comp_def)
  also have "filter (\<lambda>p. snd (renewed d c p) \<notin> set ?ret) es = filter (\<lambda>(j, i). \<not> ?K (ic_name i)) es"
    by (rule filter_cong [OF refl]) (use in_ret in auto)
  finally show "rp_started plan = map (snd \<circ> renewed d c) (filter (\<lambda>(j, i). \<not> ?K (ic_name i)) es)" .
  have get: "dict_get (map (renewed d c) es) n =
      (case dict_get built n of None \<Rightarrow> None | Some l \<Rightarrow> Some (if ?K n then the (dict_get ?prev n) else l))" for n
  proof -
    have "dict_get (map (\<lambda>(n, l). (n, if n \<in> N \<and> ?K n then the (dict_get ?prev n) else l)) xs) n =
      (case dict_get xs n of None \<Rightarrow> None | Some l \<Rightarrow> Some (if n \<in> N \<and> ?K n then the (dict_get ?prev n) else l))" for N xs
      by (induction xs) auto
    moreover have "n \<in> set (dict_keys built)" if "dict_get built n = Some l" for l
      using map_of_SomeD [OF that] by force
    ultimately show ?thesis unfolding reb [symmetric] by (cases "dict_get built n") auto
  qed
  have new: "dm_next_id d \<le> li_id l" if "dict_get built n = Some l" for n l
    using map_of_SomeD [OF that] unfolding built by (auto simp: es_def make_live_def dest: enumerate_filter_mem)
  have dom: "dict_get built n \<noteq> None \<longleftrightarrow> n \<in> ic_name ` set ?cs" for n
  proof -
    have "dict_get built n \<noteq> None \<longleftrightarrow> n \<in> set (dict_keys built)" unfolding set_dict_keys by (simp only: domIff simp_thms)
    then show ?thesis unfolding keys by simp
  qed
  have prevget: "dict_get ?prev n = Some l" if "(n, l) \<in> set ?prev" for n l
    by (rule dict_get_mem [THEN iffD1, OF _ that]) (use ok in \<open>simp add: daemon_ok_def\<close>)
  have "(case dict_get (map (renewed d c) es) n of None \<Rightarrow> True | Some r \<Rightarrow> li_id r \<noteq> li_id l) \<longleftrightarrow>
      \<not> (n \<in> ic_name ` set ?cs \<and> ?K n)" if m: "(n, l) \<in> set ?prev" for n l
  proof (cases "dict_get built n")
    case None
    then show ?thesis using dom [of n] by (simp add: get)
  next
    case (Some r)
    then have "n \<in> ic_name ` set ?cs" using dom [of n] by simp
    moreover have "li_id r \<noteq> li_id l" using new [OF Some] old [OF m] by simp
    ultimately show ?thesis using Some prevget [OF m] by (simp add: get)
  qed
  then have "filter (\<lambda>(n, l). case dict_get (map (renewed d c) es) n of None \<Rightarrow> True | Some r \<Rightarrow> li_id r \<noteq> li_id l) ?prev =
      filter (\<lambda>(n, l). \<not> (n \<in> ic_name ` set ?cs \<and> ?K n)) ?prev"
    by (intro filter_cong) auto
  moreover have "rp_removed plan = map snd (filter (\<lambda>(n, l). case dict_get (map (renewed d c) es) n of None \<Rightarrow> True | Some r \<Rightarrow> li_id r \<noteq> li_id l) ?prev)"
    by (simp only: plan reload_plan.simps)
  ultimately show "rp_removed plan = map snd (filter (\<lambda>(n, l). \<not> (n \<in> ic_name ` set ?cs \<and> ?K n)) ?prev)" by simp
qed

text \<open>What a reload that the core acknowledged leaves running.\<close>

lemma make_live_simps [simp]:
  "li_id (make_live k i p) = k" "li_name (make_live k i p) = ic_name i" "li_plugin (make_live k i p) = ic_plugin i"
  "li_settings (make_live k i p) = ic_settings i"
  by (simp_all add: make_live_def)

lemma finish_reload_ok:
  assumes ok: "daemon_ok d" and keyed: "config_keyed c"
    and b: "build_live (ds_plugins (dm_found d)) (dm_next_id d) (enabled_instances c) [] = Inr (built, k)"
    and d': "dm_live d' = dm_live d" "dm_running d' = dm_running d" "dm_next_id d' = k"
  defines "t \<equiv> finish_reload True (plan_reload (dm_live d) built c) c d'"
  shows "daemon_ok t" "dm_live t = map (renewed d c) (List.enumerate (dm_next_id d) (enabled_instances c))"
proof -
  let ?cs = "enabled_instances c" and ?K = "kept_instance (dm_live d) c" and ?n = "dm_next_id d"
  let ?es = "List.enumerate ?n ?cs" and ?plan = "plan_reload (dm_live d) built c"
  note parts = plan_reload_parts [OF ok keyed b]
  show live: "dm_live t = map (renewed d c) ?es"
    by (simp add: t_def finish_reload_def start_instances_def stop_instances_def parts(2))
  have run: "dm_running t = filter (\<lambda>j. j \<notin> set (map li_id (rp_removed ?plan))) (dm_running d) @ map li_id (rp_started ?plan)"
    and nid: "dm_next_id t = ?n + length ?cs"
    by (simp_all add: t_def finish_reload_def start_instances_def stop_instances_def d' parts(1))
  have prev: "dict_ok (dm_live d)" "\<And>n l. (n, l) \<in> set (dm_live d) \<Longrightarrow> li_name l = n \<and> li_id l < ?n"
    "distinct (map (li_id \<circ> snd) (dm_live d))" "distinct (dm_running d)" "set (dm_running d) = (li_id \<circ> snd) ` set (dm_live d)"
    using ok by (auto simp: daemon_ok_def)
  have names: "distinct (map ic_name ?cs)" by (rule distinct_enabled_instances [OF keyed])
  have kept: "(ic_name i, snd (renewed d c (j, i))) \<in> set (dm_live d)" if "?K (ic_name i)" for j i
    using that by (auto simp: renewed_def kept_instance_def split: option.splits dest: map_of_SomeD)
  have fresh: "li_id (snd (renewed d c (j, i))) = j" "li_name (snd (renewed d c (j, i))) = ic_name i" if "\<not> ?K (ic_name i)" for j i
    using that by (simp_all add: renewed_def)
  have idx: "?n \<le> j \<and> j < ?n + length ?cs \<and> i \<in> set ?cs" if "(j, i) \<in> set ?es" for j i
    using enumerate_filter_mem [OF that] .
  have id_cases: "(if ?K (ic_name i) then li_id (snd (renewed d c (j, i))) < ?n else li_id (snd (renewed d c (j, i))) = j)" for j i
    using kept prev(2) fresh by auto
  have inj: "inj_on (li_id \<circ> snd \<circ> renewed d c) (set ?es)"
  proof (rule inj_onI, clarify)
    fix j i j' i'
    assume m: "(j, i) \<in> set ?es" "(j', i') \<in> set ?es"
      and eq: "(li_id \<circ> snd \<circ> renewed d c) (j, i) = (li_id \<circ> snd \<circ> renewed d c) (j', i')"
    have same: "?K (ic_name i) = ?K (ic_name i')"
      using eq id_cases [of i j] id_cases [of i' j'] idx [OF m(1)] idx [OF m(2)] by (auto split: if_splits)
    show "j = j' \<and> i = i'"
    proof (cases "?K (ic_name i)")
      case True
      have "inj_on (li_id \<circ> snd) (set (dm_live d))" using prev(3) by (simp add: distinct_map)
      then have "(ic_name i, snd (renewed d c (j, i))) = (ic_name i', snd (renewed d c (j', i')))"
        by (rule inj_onD) (use kept [OF True, of j] kept [of i' j'] True same eq in simp_all)
      then have "ic_name i = ic_name i'" by simp
      moreover have "inj_on ic_name (set ?cs)" using names by (simp add: distinct_map)
      ultimately have i: "i = i'" using idx [OF m(1)] idx [OF m(2)] by (auto dest: inj_onD)
      have "distinct ?cs" using names by (simp add: distinct_map)
      with m i show ?thesis by (auto simp: in_set_enumerate_eq nth_eq_iff_index_eq)
    next
      case False
      then have "j = j'" using eq id_cases [of i j] id_cases [of i' j'] same by simp
      with m show ?thesis by (auto simp: in_set_enumerate_eq)
    qed
  qed
  have ids: "distinct (map (li_id \<circ> snd) (dm_live t))"
    using inj by (simp add: live distinct_map comp_assoc inj_on_imageI2)
  have keys: "dict_keys (dm_live t) = map ic_name ?cs"
    by (simp add: live renewed_def case_prod_beta comp_def) (simp flip: map_map [unfolded comp_def])
  have started: "set (map li_id (rp_started ?plan)) = {j. \<exists>i. (j, i) \<in> set ?es \<and> \<not> ?K (ic_name i)}"
    using fresh by (auto simp: parts(3) image_iff) force+
  have "distinct (map li_id (rp_started ?plan))"
    using inj by (auto simp: parts(3) distinct_map comp_assoc inj_on_def)
  moreover have "j \<notin> set (dm_running d)" if "j \<in> set (map li_id (rp_started ?plan))" for j
  proof
    assume "j \<in> set (dm_running d)"
    then have "j < ?n" using prev(2) unfolding prev(5) by auto
    moreover have "?n \<le> j" using that idx unfolding started by blast
    ultimately show False by simp
  qed
  ultimately have dr: "distinct (dm_running t)" using prev(4) unfolding run distinct_append by (simp only: distinct_filter set_filter) blast
  have inj_prev: "inj_on (li_id \<circ> snd) (set (dm_live d))" using prev(3) by (simp add: distinct_map)
  have removed: "set (map li_id (rp_removed ?plan)) =
      {li_id l |n l. (n, l) \<in> set (dm_live d) \<and> \<not> (n \<in> ic_name ` set ?cs \<and> ?K n)}"
    unfolding parts(4) by force
  have sr: "set (dm_running t) = (li_id \<circ> snd) ` set (dm_live t)"
  proof (intro equalityI subsetI)
    fix x
    assume "x \<in> set (dm_running t)"
    then consider "x \<in> set (dm_running d)" "x \<notin> set (map li_id (rp_removed ?plan))" | j i where "x = j" "(j, i) \<in> set ?es" "\<not> ?K (ic_name i)"
      unfolding run set_append started by auto
    then show "x \<in> (li_id \<circ> snd) ` set (dm_live t)"
    proof cases
      case 1
      then obtain n l where l: "(n, l) \<in> set (dm_live d)" "x = li_id l" unfolding prev(5) by auto
      with 1(2) have k: "n \<in> ic_name ` set ?cs" "?K n" unfolding removed by auto
      then obtain i where i: "i \<in> set ?cs" "n = ic_name i" by blast
      then obtain j where j: "(j, i) \<in> set ?es" using set_enumerate_snd [of ?n ?cs] by force
      have "dict_get (dm_live d) n = Some l" by (rule dict_get_mem [THEN iffD1, OF prev(1) l(1)])
      then have "renewed d c (j, i) = (n, l)" using k(2) by (simp add: renewed_def i(2))
      with l(2) show ?thesis unfolding live set_map by (intro image_eqI [OF _ image_eqI [OF _ j]]) simp_all
    next
      case (2 j i)
      then show ?thesis unfolding live set_map by (intro image_eqI [OF _ image_eqI [OF _ 2(2)]]) (simp_all add: fresh(1))
    qed
  next
    fix x
    assume "x \<in> (li_id \<circ> snd) ` set (dm_live t)"
    then obtain j i where m: "(j, i) \<in> set ?es" and x: "x = li_id (snd (renewed d c (j, i)))" unfolding live by auto
    show "x \<in> set (dm_running t)"
    proof (cases "?K (ic_name i)")
      case True
      note k = kept [OF True, of j]
      have "x \<in> set (dm_running d)" unfolding prev(5) using x by (intro image_eqI [OF _ k]) simp
      moreover have "x \<notin> set (map li_id (rp_removed ?plan))"
      proof
        assume "x \<in> set (map li_id (rp_removed ?plan))"
        then obtain n l where l: "(n, l) \<in> set (dm_live d)" "x = li_id l" "\<not> (n \<in> ic_name ` set ?cs \<and> ?K n)"
          unfolding removed by auto
        have "(n, l) = (ic_name i, snd (renewed d c (j, i)))"
          by (rule inj_onD [OF inj_prev]) (use l k x in simp_all)
        with l(3) True idx [OF m] show False by simp
      qed
      ultimately show ?thesis unfolding run by simp
    next
      case False
      then show ?thesis using m x fresh(1) unfolding run set_append started by auto
    qed
  qed
  have "li_name (snd p) = fst p \<and> li_id (snd p) < dm_next_id t" if "p \<in> set (dm_live t)" for p
  proof -
    obtain j i where m: "(j, i) \<in> set ?es" and p: "p = renewed d c (j, i)" using \<open>p \<in> set (dm_live t)\<close> unfolding live by auto
    have f: "fst p = ic_name i" by (simp add: p renewed_def)
    show ?thesis
    proof (cases "?K (ic_name i)")
      case True
      then show ?thesis using prev(2) [OF kept [OF True, of j]] by (simp add: p [symmetric] f nid)
    next
      case False
      then show ?thesis using fresh [OF False, of j] idx [OF m] by (simp add: p [symmetric] f nid)
    qed
  qed
  with ids keys names dr sr show "daemon_ok t" unfolding daemon_ok_def by metis
qed

end
