(* ===== verification/Runtime_Properties.thy ===== *)
theory Runtime_Properties
  imports Runtime_Reload
begin

text \<open>The properties of startup, of reload and of the watchdog, with their witnesses.\<close>

section \<open>Properties\<close>

lemma known_plugins_found:
  "dict_get (known_plugins found) n = Some known \<Longrightarrow> dict_get (ds_plugins found) n \<noteq> None"
proof -
  have "map_of (map (\<lambda>(n, p). (n, \<lparr>kp_name = n, kp_directions = directions p,
      kp_validate = Some (settings_validator p)\<rparr>)) xs) n = Some known \<Longrightarrow> map_of xs n \<noteq> None" for xs
    by (induction xs) (auto split: if_splits)
  then show "dict_get (known_plugins found) n = Some known \<Longrightarrow> dict_get (ds_plugins found) n \<noteq> None"
    unfolding known_plugins_def .
qed

text \<open>A configuration loaded against the plugins found can be built with them.\<close>

lemma loaded_installation:
  assumes "load_installation inst (known_plugins found) = Inr c"
  shows "config_keyed c" "\<exists>live j. build_live (ds_plugins found) k (enabled_instances c) [] = Inr (live, j)"
proof -
  obtain store where l: "load_configuration (\<lambda>f. read_object (in_loads inst) (in_contents inst f)) (in_directory inst)
      (in_found inst) store (known_plugins found) = Loaded c"
    using assms by (auto simp: load_installation_def split: sum.splits load_result.splits)
  note loaded = loaded_instances [OF l]
  show "config_keyed c" by (rule loaded(1))
  have "dict_get (ds_plugins found) (ic_plugin i) \<noteq> None" if "i \<in> set (enabled_instances c)" for i
    using loaded(3) [of i] that known_plugins_found unfolding set_enabled_instances by blast
  then have "build_live (ds_plugins found) k (enabled_instances c) [] \<noteq> Inl e" for e
    using build_live_Inl [of "ds_plugins found" k "enabled_instances c" "[]" e] by blast
  then show "\<exists>live j. build_live (ds_plugins found) k (enabled_instances c) [] = Inr (live, j)"
    by (cases "build_live (ds_plugins found) k (enabled_instances c) []") auto
qed

lemma enabled_instance_configured:
  "config_keyed c \<Longrightarrow> i \<in> set (enabled_instances c) \<Longrightarrow> dict_get (c_instances c) (ic_name i) = Some i"
  by (force simp: config_keyed_def set_enabled_instances dict_get_mem [symmetric])

lemma dict_get_renewed:
  assumes "config_keyed c" "i \<in> set (enabled_instances c)"
  obtains j where "n \<le> j" "dict_get (map (renewed d c) (List.enumerate n (enabled_instances c))) (ic_name i) = Some (snd (renewed d c (j, i)))"
proof -
  let ?es = "List.enumerate n (enabled_instances c)"
  obtain j where j: "(j, i) \<in> set ?es" using set_enumerate_snd [of n "enabled_instances c"] assms(2) by force
  have "map fst (map (renewed d c) ?es) = map ic_name (map snd ?es)"
    unfolding map_map by (rule map_cong) (auto simp: renewed_def)
  then have "dict_ok (map (renewed d c) ?es)" using distinct_enabled_instances [OF assms(1)] by simp
  moreover have "(ic_name i, snd (renewed d c (j, i))) \<in> set (map (renewed d c) ?es)"
    using j by (force simp: renewed_def)
  ultimately have "dict_get (map (renewed d c) ?es) (ic_name i) = Some (snd (renewed d c (j, i)))" by (simp add: dict_get_mem)
  moreover have "n \<le> j" using enumerate_filter_mem [OF j] by simp
  ultimately show ?thesis using that by blast
qed

text \<open>
  C28. A reload of a valid configuration always gets as far as the core. Once the core has
  acknowledged it, in whatever state it is by then, exactly the enabled instances are
  live, each running once and nothing else running; an instance whose plugin and
  settings are unchanged keeps the object it had, and any other has a new one, built from
  its settings, that was never running before.
\<close>

theorem reload_replaces_what_changed:
  assumes "daemon_ok d" "db_ok (e_db (dm_engine d))"
    and "load_installation inst (known_plugins (dm_found d)) = Inr c"
  shows "\<exists>plan d'. begin_reload ack (load_installation inst (known_plugins (dm_found d))) d = ReloadSubmitted plan c d' \<and>
    (\<forall>s. let t = finish_reload True plan c (d'\<lparr>dm_engine := s\<rparr>) in
       daemon_ok t \<and> dict_keys (dm_live t) = map ic_name (enabled_instances c) \<and>
       (\<forall>i \<in> set (enabled_instances c).
          if (\<exists>old. dict_get (dm_live d) (ic_name i) = Some old \<and> matches old i)
          then dict_get (dm_live t) (ic_name i) = dict_get (dm_live d) (ic_name i)
          else (\<exists>l. dict_get (dm_live t) (ic_name i) = Some l \<and> li_plugin l = ic_plugin i \<and>
                  li_settings l = ic_settings i \<and> li_id l \<notin> set (dm_running d))))"
proof -
  note keyed = loaded_installation(1) [OF assms(3)]
  obtain db' where m: "mirror_configuration (e_db (dm_engine d)) c = Inr db'"
    using mirror_configuration_ok [OF assms(2) keyed] by blast
  obtain built k where b: "build_live (ds_plugins (dm_found d)) (dm_next_id d) (enabled_instances c) [] = Inr (built, k)"
    using loaded_installation(2) [OF assms(3)] by blast
  let ?plan = "plan_reload (dm_live d) built c"
  let ?eng = "reload_latches ((dm_engine d)\<lparr>e_db := db'\<rparr>)"
  let ?d' = "d\<lparr>dm_engine := submit (ReloadMessage c (Some (plugin_set_of (rp_rebuilt ?plan))) ack) ?eng, dm_next_id := k\<rparr>"
  have begun: "begin_reload ack (load_installation inst (known_plugins (dm_found d))) d = ReloadSubmitted ?plan c ?d'"
    by (simp add: begin_reload_def assms(3) m b Let_def)
  have after: "daemon_ok t \<and> dict_keys (dm_live t) = map ic_name (enabled_instances c) \<and>
       (\<forall>i \<in> set (enabled_instances c).
          if (\<exists>old. dict_get (dm_live d) (ic_name i) = Some old \<and> matches old i)
          then dict_get (dm_live t) (ic_name i) = dict_get (dm_live d) (ic_name i)
          else (\<exists>l. dict_get (dm_live t) (ic_name i) = Some l \<and> li_plugin l = ic_plugin i \<and>
                  li_settings l = ic_settings i \<and> li_id l \<notin> set (dm_running d)))"
    if t: "t = finish_reload True ?plan c (?d'\<lparr>dm_engine := s\<rparr>)" for s t
  proof (intro conjI ballI)
    have "dm_live (?d'\<lparr>dm_engine := s\<rparr>) = dm_live d" "dm_running (?d'\<lparr>dm_engine := s\<rparr>) = dm_running d"
      "dm_next_id (?d'\<lparr>dm_engine := s\<rparr>) = k" by simp_all
    note fin = finish_reload_ok [OF assms(1) keyed b this, folded t]
    show "daemon_ok t" by (rule fin(1))
    show "dict_keys (dm_live t) = map ic_name (enabled_instances c)"
      by (simp add: fin(2) renewed_def case_prod_beta comp_def) (simp flip: map_map [unfolded comp_def])
    fix i
    assume i: "i \<in> set (enabled_instances c)"
    obtain j where j: "dm_next_id d \<le> j" "dict_get (dm_live t) (ic_name i) = Some (snd (renewed d c (j, i)))"
      using dict_get_renewed [OF keyed i] unfolding fin(2) by blast
    have "\<forall>r \<in> set (dm_running d). r < dm_next_id d" using assms(1) by (auto simp: daemon_ok_def)
    then have "j \<notin> set (dm_running d)" using j(1) by auto
    with j(2) show "if (\<exists>old. dict_get (dm_live d) (ic_name i) = Some old \<and> matches old i)
          then dict_get (dm_live t) (ic_name i) = dict_get (dm_live d) (ic_name i)
          else (\<exists>l. dict_get (dm_live t) (ic_name i) = Some l \<and> li_plugin l = ic_plugin i \<and>
                  li_settings l = ic_settings i \<and> li_id l \<notin> set (dm_running d))"
      by (auto simp: renewed_def kept_instance_def enabled_instance_configured [OF keyed i] split: option.split)
  qed
  show ?thesis
    by (intro exI [of _ ?plan] exI [of _ ?d'] conjI [OF begun] allI, unfold Let_def, rule after [OF refl])
qed

section \<open>What the watchdog can see\<close>

definition health_ok :: "db \<Rightarrow> bool" where
  "health_ok d \<longleftrightarrow> dict_ok (db_health d) \<and> (\<forall>p \<in> set (db_health d). hr_instance (snd p) = fst p)"

definition health_of :: "db \<Rightarrow> name \<Rightarrow> health_record option" where
  "health_of d n = dict_get (db_health d) n"

lemma health_ok_records:
  "health_ok d \<Longrightarrow> h \<in> set (health_records d) \<longleftrightarrow> health_of d (hr_instance h) = Some h"
  by (force simp: health_ok_def health_records_def health_of_def dict_get_mem [symmetric])

lemma health_ok_write: "health_ok d \<Longrightarrow> health_ok (write_health d h)"
proof -
  assume ok: "health_ok d"
  then have k: "dict_ok (db_health d)" by (simp add: health_ok_def)
  have "hr_instance w = n" if "(n, w) \<in> set (dict_put (db_health d) (hr_instance h) h)" for n w
  proof -
    have "dict_get (dict_put (db_health d) (hr_instance h) h) n = Some w"
      by (rule dict_get_mem [THEN iffD1, OF dict_ok_put [OF k] that])
    then have "n = hr_instance h \<and> w = h \<or> dict_get (db_health d) n = Some w" by (auto split: if_splits)
    then show ?thesis using ok by (auto simp: health_ok_def dest!: map_of_SomeD)
  qed
  then show ?thesis using k by (auto simp: health_ok_def write_health_def)
qed

definition polled :: "time \<Rightarrow> name \<Rightarrow> plugin_health \<Rightarrow> health_record" where
  "polled now n h = \<lparr>hr_instance = n, hr_status = ph_status h, hr_detail = ph_detail h, hr_updated_at = now\<rparr>"

lemma record_health_fold:
  "health_ok (e_db s) \<Longrightarrow>
   health_ok (e_db (fold (\<lambda>i. record_health now i (f i)) is s)) \<and>
   e_heartbeat (fold (\<lambda>i. record_health now i (f i)) is s) = e_heartbeat s \<and>
   health_of (e_db (fold (\<lambda>i. record_health now i (f i)) is s)) n =
     (if n \<in> set is then Some (polled now n (f n)) else health_of (e_db s) n)"
proof (induction "is" arbitrary: s)
  case (Cons i "is")
  let ?u = "record_health now i (f i) s"
  have u: "health_ok (e_db ?u)" using Cons.prems by (simp add: record_health_def health_ok_write)
  have "health_of (e_db ?u) n = (if n = i then Some (polled now i (f i)) else health_of (e_db s) n)"
    by (simp add: record_health_def health_of_def write_health_def polled_def)
  moreover have "e_heartbeat ?u = e_heartbeat s" by (simp add: record_health_def)
  ultimately show ?case using Cons.IH [OF u] by auto
qed simp

text \<open>
  The watchdog never sees a polled instance fail: after a poll, and until five minutes pass
  without another, whether it withholds its ping depends only on rows of instances that are
  no longer polled, whatever the plugins answered, because every poll renews the time
  that is taken for the start of the failure.
\<close>

theorem watchdog_judges_unpolled_rows_only:
  assumes "health_ok (e_db s)" "handle_poll_health env s = Inr t"
    and "e_heartbeat t = Some beat" "seconds_between now beat \<le> heartbeat_grace_seconds"
    and "seconds_between now (env_now env) < unhealthy_grace_seconds"
  shows "unhealthy_reason now (Some t) \<noteq> None \<longleftrightarrow>
    (\<exists>h \<in> set (health_records (e_db s)). failing now h \<and>
       hr_instance h \<notin> set (ps_inputs (e_plugins s)) \<union> set (ps_outputs (e_plugins s)))"
proof -
  let ?in = "fold (\<lambda>i. record_health (env_now env) i (ask_health (env_input_health env i))) (ps_inputs (e_plugins s)) s"
  let ?P = "set (ps_inputs (e_plugins s)) \<union> set (ps_outputs (e_plugins s))"
  let ?ans = "\<lambda>n. if n \<in> set (ps_outputs (e_plugins s)) then ask_health (env_output_health env n) else ask_health (env_input_health env n)"
  have one: "health_ok (e_db ?in)" "\<And>n. health_of (e_db ?in) n = (if n \<in> set (ps_inputs (e_plugins s))
      then Some (polled (env_now env) n (ask_health (env_input_health env n))) else health_of (e_db s) n)"
    using record_health_fold [OF assms(1), where f = "\<lambda>i. ask_health (env_input_health env i)"] by simp_all
  have db: "e_db t = e_db (fold (\<lambda>i. record_health (env_now env) i (ask_health (env_output_health env i))) (ps_outputs (e_plugins s)) ?in)"
    using assms(2) by (auto simp: handle_poll_health_def Let_def schedule_def)
  have ok: "health_ok (e_db t)" and of: "health_of (e_db t) n = (if n \<in> ?P then Some (polled (env_now env) n (?ans n)) else health_of (e_db s) n)" for n
    using record_health_fold [OF one(1), where f = "\<lambda>i. ask_health (env_output_health env i)"] one(2)
    unfolding db by simp_all
  have "unhealthy_reason now (Some t) \<noteq> None \<longleftrightarrow> (\<exists>h \<in> set (health_records (e_db t)). failing now h)"
  proof -
    have "unhealthy_reason now (Some t) \<noteq> None \<longleftrightarrow> find (failing now) (health_records (e_db t)) \<noteq> None"
      using assms(3,4) by (auto simp: unhealthy_reason_def split: option.splits)
    then show ?thesis unfolding find_None_iff by blast
  qed
  also have "\<dots> \<longleftrightarrow> (\<exists>h. health_of (e_db t) (hr_instance h) = Some h \<and> failing now h)"
    using health_ok_records [OF ok] by blast
  also have "\<dots> \<longleftrightarrow> (\<exists>h. health_of (e_db s) (hr_instance h) = Some h \<and> failing now h \<and> hr_instance h \<notin> ?P)"
  proof -
    have "\<not> failing now (polled (env_now env) n (?ans n))" for n
      using assms(5) by (simp add: failing_def polled_def)
    then show ?thesis unfolding of by (metis option.inject)
  qed
  also have "\<dots> \<longleftrightarrow> (\<exists>h \<in> set (health_records (e_db s)). failing now h \<and> hr_instance h \<notin> ?P)"
    using health_ok_records [OF assms(1)] by blast
  finally show ?thesis .
qed

lemma sync_outputs_plugins: "e_plugins (sync_outputs now is s) = e_plugins s"
proof -
  have "e_plugins (sync_output now b i s) = e_plugins s" for b i s
    by (simp add: sync_output_def Let_def)
  then have "e_plugins (fold (sync_output now False) is s) = e_plugins s" by (induction "is" arbitrary: s) simp_all
  then show ?thesis by (simp add: sync_outputs_def)
qed

text \<open>
  A reload the core does not acknowledge in time is not undone: the daemon keeps its instances, yet
  the message stays queued, and when the core gets to it the engine serves the rebuilt
  plugins, among which every new object is one that was never started.
\<close>

theorem unacknowledged_reload_strands_plugins:
  assumes "daemon_ok d" "config_keyed c" "begin_reload ack (Inr c) d = ReloadSubmitted plan c d'"
    and "handle env (last (e_queue (dm_engine d'))) s = Inr t"
  shows "finish_reload False plan c d' = d' \<and> dm_live d' = dm_live d \<and> dm_running d' = dm_running d \<and>
    e_plugins t = plugin_set_of (rp_rebuilt plan) \<and>
    (\<forall>l \<in> set (rp_started plan). l \<in> snd ` set (rp_rebuilt plan) \<and> li_id l \<notin> set (dm_running d'))"
proof -
  obtain db' built k where b: "build_live (ds_plugins (dm_found d)) (dm_next_id d) (enabled_instances c) [] = Inr (built, k)"
    and plan: "plan = plan_reload (dm_live d) built c"
    and d': "d' = d\<lparr>dm_engine := submit (ReloadMessage c (Some (plugin_set_of (rp_rebuilt plan))) ack)
        (reload_latches ((dm_engine d)\<lparr>e_db := db'\<rparr>)), dm_next_id := k\<rparr>"
    using assms(3) by (auto simp: begin_reload_def Let_def split: sum.splits)
  have "last (e_queue (dm_engine d')) = ReloadMessage c (Some (plugin_set_of (rp_rebuilt plan))) ack"
    by (simp add: d' submit_def)
  then have "e_plugins t = plugin_set_of (rp_rebuilt plan)"
    using assms(4) by (auto simp: handle_def handle_reload_def Let_def reload_latches_def append_event_e_def sync_outputs_plugins)
  moreover have "l \<in> snd ` set (rp_rebuilt plan) \<and> li_id l \<notin> set (dm_running d')" if l: "l \<in> set (rp_started plan)" for l
  proof -
    note parts = plan_reload_parts [OF assms(1,2) b, folded plan]
    obtain j i where m: "(j, i) \<in> set (List.enumerate (dm_next_id d) (enabled_instances c))"
      and k: "\<not> kept_instance (dm_live d) c (ic_name i)" and eq: "l = snd (renewed d c (j, i))"
      using l unfolding parts(3) by auto
    have "li_id l = j" using k by (simp add: eq renewed_def)
    moreover have "dm_next_id d \<le> j" using enumerate_filter_mem [OF m] by simp
    moreover have "\<forall>r \<in> set (dm_running d). r < dm_next_id d" using assms(1) by (auto simp: daemon_ok_def)
    ultimately have "li_id l \<notin> set (dm_running d')" by (auto simp: d')
    moreover have "l \<in> snd ` set (rp_rebuilt plan)" unfolding parts(2) using m eq by force
    ultimately show ?thesis by simp
  qed
  ultimately show ?thesis by (simp add: finish_reload_def) (simp add: d')
qed

section \<open>Startup\<close>

lemma reconcile_ok: "engine_ok s \<Longrightarrow> \<exists>t. reconcile env s = Inr t \<and> engine_ok t \<and> e_ready t"
proof -
  assume ok: "engine_ok s"
  obtain u where "reconcile env s = Inr ((dispatch_due_pushes (env_now env) u)\<lparr>e_ready := True\<rparr>)" "engine_ok u"
    using reconcile_refines [OF ok, of env] by blast
  moreover have "engine_ok (dispatch_due_pushes (env_now env) u)"
    using dispatch_due_pushes_facts [OF \<open>engine_ok u\<close>] by blast
  ultimately show ?thesis by simp
qed

lemma start_instances_ok:
  assumes keyed: "config_keyed c" and b: "build_live plugins 0 (enabled_instances c) [] = Inr (live, k)"
    and d: "dm_live d = live" "dm_next_id d = k" "dm_running d = []"
  shows "daemon_ok (start_instances (map snd live) d)" "dict_keys live = map ic_name (enabled_instances c)"
proof -
  let ?es = "List.enumerate 0 (enabled_instances c)"
  note B = build_live_Inr [OF b, simplified, OF distinct_enabled_instances [OF keyed]]
  show keys: "dict_keys live = map ic_name (enabled_instances c)"
    by (simp add: B case_prod_beta comp_def) (simp flip: map_map [unfolded comp_def])
  have ids: "map (li_id \<circ> snd) live = [0..<length (enabled_instances c)]"
    by (simp add: B case_prod_beta comp_def)
  have "\<forall>p \<in> set live. li_name (snd p) = fst p" using B by auto
  moreover have "\<forall>j \<in> set (map (li_id \<circ> snd) live). j < k" unfolding ids using B by simp
  moreover have "distinct (map (li_id \<circ> snd) live)" unfolding ids by simp
  ultimately show "daemon_ok (start_instances (map snd live) d)"
    using keys distinct_enabled_instances [OF keyed]
    by (auto simp: daemon_ok_def start_instances_def d)
qed

text \<open>
  Startup either reports what is wrong with the installation before anything is touched, or ends
  with the core reconciled, over a consistent database and cache, and every enabled
  instance of the configuration live and started exactly once; the only exception that can
  end it is the overflow of a retry delay.
\<close>

theorem start_daemon_ready:
  assumes "db_ok d"
  shows "case start_daemon env inst found d of
      StartFailed e \<Rightarrow> load_installation inst (known_plugins found) = Inl e
    | StartRaises x \<Rightarrow> x = OverflowError
    | Started dm \<Rightarrow> load_installation inst (known_plugins found) = Inr (dm_configuration dm) \<and>
        engine_ok (dm_engine dm) \<and> e_ready (dm_engine dm) \<and> daemon_ok dm \<and>
        dict_keys (dm_live dm) = map ic_name (enabled_instances (dm_configuration dm))"
proof (cases "load_installation inst (known_plugins found)")
  case (Inl e)
  then show ?thesis by (simp add: start_daemon_def)
next
  case (Inr c)
  note keyed = loaded_installation(1) [OF Inr]
  obtain d' where m: "mirror_configuration d c = Inr d'" and d': "db_ok d'"
      "\<forall>r \<in> snd ` set (c_rules c). dict_get (db_rules d') (rc_name r) \<noteq> None"
    using mirror_configuration_ok [OF assms keyed] by blast
  obtain live k where b: "build_live (ds_plugins found) 0 (enabled_instances c) [] = Inr (live, k)"
    using loaded_installation(2) [OF Inr] by blast
  let ?s = "submit (ReloadMessage c (Some (plugin_set_of live)) 0) (started (env_now env) d' c)"
  have "admissible (e_db (started (env_now env) d' c)) (ReloadMessage c (Some (plugin_set_of live)) 0)"
    using mirrored_rows [OF keyed d'(2)] by (simp add: admissible_def started_def init_engine_def schedule_def reload_latches_def)
  then have "loop_inv ?s" using started_inv [OF assms keyed m, of "env_now env"] by (auto simp: loop_inv_def submit_def)
  note dr = drain_inv [OF this, of env]
  show ?thesis
  proof (cases "drain env ?s")
    case (Inl p)
    with dr show ?thesis by (cases p) (simp add: start_daemon_def \<open>load_installation _ _ = Inr c\<close> m b)
  next
    case (Inr q)
    obtain h w u where q: "q = (h, w, u)" by (cases q)
    have "engine_ok u" using dr Inr q by (simp add: loop_inv_def core_inv_def)
    then obtain t where t: "reconcile env u = Inr t" "engine_ok t" "e_ready t" using reconcile_ok by blast
    let ?d = "\<lparr>dm_engine = t, dm_found = found, dm_live = live, dm_configuration = c, dm_next_id = k, dm_running = []\<rparr>"
    have "start_daemon env inst found d = Started (start_instances (map snd live) ?d)"
      by (simp add: start_daemon_def \<open>load_installation _ _ = Inr c\<close> m b Inr q t(1))
    moreover have "daemon_ok (start_instances (map snd live) ?d)" "dict_keys live = map ic_name (enabled_instances c)"
      using start_instances_ok [OF keyed b, of ?d] by simp_all
    ultimately show ?thesis using t \<open>load_installation _ _ = Inr c\<close> by (simp add: start_instances_def)
  qed
qed

section \<open>Witnesses\<close>

definition ex_found :: discovery where
  "ex_found = \<lparr>ds_plugins =
      [(''imap'', \<lparr>lp_name = ''imap'', lp_directory = ''p/imap'', lp_input = Some (\<lambda>_. []), lp_output = None\<rparr>),
       (''light'', \<lparr>lp_name = ''light'', lp_directory = ''p/light'', lp_input = None,
          lp_output = Some (\<lambda>s. if dict_get s ''pin'' = Some (JStr ''1234'') then [] else [''bad pin''])\<rparr>)],
     ds_failures = []\<rparr>"

definition ex_installation :: installation where
  "ex_installation = \<lparr>in_loads = (\<lambda>t. Inr (if t = ''s'' then RObj [(''pin'', RStr ''1234'')] else unstrict (JObj ex_document))),
     in_secrets_path = ''s'', in_secrets = SecretsContent 384 (Inr ''s''), in_directory = ''d'',
     in_found = Some [''a.json''], in_contents = (\<lambda>_. FileText ''c'')\<rparr>"

lemma ex_installation_loads: "load_installation ex_installation (known_plugins ex_found) = Inr ex_loaded"
  by code_simp

definition ex_daemon :: daemon where
  "ex_daemon = \<lparr>dm_engine = ex_engine, dm_found = ex_found,
     dm_live = [(''mail'', \<lparr>li_id = 0, li_name = ''mail'', li_plugin = ''imap'', li_settings = [], li_input = True, li_output = False\<rparr>)],
     dm_configuration = ex_config, dm_next_id = 1, dm_running = [0]\<rparr>"

lemma ex_daemon_ok: "daemon_ok ex_daemon"
  by (simp add: daemon_ok_def ex_daemon_def)

lemma ex_daemon_db: "db_ok (e_db (dm_engine ex_daemon))"
  using engine_okD(1) [OF ex_engine_ok] by (simp add: ex_daemon_def)

lemma reload_replaces_what_changed_witness:
  "\<exists>plan d'. begin_reload 1 (load_installation ex_installation (known_plugins ex_found)) ex_daemon = ReloadSubmitted plan ex_loaded d' \<and>
     daemon_ok (finish_reload True plan ex_loaded (d'\<lparr>dm_engine := ex_engine\<rparr>))"
proof -
  have "load_installation ex_installation (known_plugins (dm_found ex_daemon)) = Inr ex_loaded"
    using ex_installation_loads by (simp add: ex_daemon_def)
  from reload_replaces_what_changed [OF ex_daemon_ok ex_daemon_db this, of 1]
  obtain plan d' where b: "begin_reload 1 (load_installation ex_installation (known_plugins (dm_found ex_daemon))) ex_daemon = ReloadSubmitted plan ex_loaded d'"
    and a: "\<forall>s. daemon_ok (finish_reload True plan ex_loaded (d'\<lparr>dm_engine := s\<rparr>))"
    unfolding Let_def by blast
  have "dm_found ex_daemon = ex_found" by (simp add: ex_daemon_def)
  with a b show ?thesis by auto
qed

lemma unacknowledged_reload_strands_plugins_witness:
  "\<exists>plan d' t. begin_reload 1 (Inr ex_loaded) ex_daemon = ReloadSubmitted plan ex_loaded d' \<and>
     handle (ex_env 5) (last (e_queue (dm_engine d'))) ex_engine = Inr t \<and> e_plugins t = plugin_set_of (rp_rebuilt plan)"
proof -
  note keyed = loaded_installation(1) [OF ex_installation_loads]
  obtain db' where m: "mirror_configuration (e_db (dm_engine ex_daemon)) ex_loaded = Inr db'"
    using mirror_configuration_ok [OF ex_daemon_db keyed] by blast
  obtain built k where "build_live (ds_plugins ex_found) 1 (enabled_instances ex_loaded) [] = Inr (built, k)"
    using loaded_installation(2) [OF ex_installation_loads] by blast
  then have bl: "build_live (ds_plugins (dm_found ex_daemon)) (dm_next_id ex_daemon) (enabled_instances ex_loaded) [] = Inr (built, k)"
    by (simp add: ex_daemon_def)
  obtain plan d' where b: "begin_reload 1 (Inr ex_loaded) ex_daemon = ReloadSubmitted plan ex_loaded d'"
    and l: "last (e_queue (dm_engine d')) = ReloadMessage ex_loaded (Some (plugin_set_of (rp_rebuilt plan))) 1"
    using m bl by (simp add: begin_reload_def Let_def submit_def)
  then obtain t where h: "handle (ex_env 5) (last (e_queue (dm_engine d'))) ex_engine = Inr t"
    by (simp add: handle_def handle_reload_def Let_def)
  from unacknowledged_reload_strands_plugins [OF ex_daemon_ok keyed b h] b h show ?thesis by blast
qed

lemma watchdog_judges_unpolled_rows_only_witness:
  "\<exists>t. handle_poll_health ((ex_env 5)\<lparr>env_input_health := (\<lambda>_. Inr \<lparr>ph_status = HsFailed, ph_detail = []\<rparr>)\<rparr>)
       (ex_engine\<lparr>e_heartbeat := Some 5\<rparr>) = Inr t \<and> unhealthy_reason 6 (Some t) = None"
proof -
  let ?env = "(ex_env 5)\<lparr>env_input_health := (\<lambda>_. Inr \<lparr>ph_status = HsFailed, ph_detail = []\<rparr>)\<rparr>"
  let ?s = "ex_engine\<lparr>e_heartbeat := Some 5\<rparr>"
  obtain t where t: "handle_poll_health ?env ?s = Inr t" by (simp add: handle_poll_health_def Let_def)
  have "db_health (e_db ?s) = []"
  proof -
    have "db_health ex_db = db_health empty_db"
      using mirror_configuration_ok [OF db_ok_empty ex_keyed] ex_mirror by (auto simp: mirror_step_def)
    then show ?thesis by (simp add: ex_engine_def init_engine_def schedule_def reload_latches_def empty_db_def)
  qed
  then have ok: "health_ok (e_db ?s)" and none: "health_records (e_db ?s) = []"
    by (simp_all add: health_ok_def health_records_def)
  have "e_heartbeat t = Some 5"
  proof -
    have "e_heartbeat (fold (\<lambda>i. record_health now i (f i)) is u) = e_heartbeat u" for now f "is" u
      by (induction "is" arbitrary: u) (simp_all add: record_health_def)
    then show ?thesis using t by (auto simp: handle_poll_health_def Let_def schedule_def)
  qed
  from watchdog_judges_unpolled_rows_only [OF ok t this, of 6] t none show ?thesis
    by (simp add: seconds_between_def heartbeat_grace_seconds_def unhealthy_grace_seconds_def ex_env_def)
qed

lemma start_daemon_ready_witness:
  "\<not> (\<exists>e. start_daemon (ex_env 5) ex_installation ex_found empty_db = StartFailed e)"
  using start_daemon_ready [OF db_ok_empty, where inst = ex_installation and found = ex_found and env = "ex_env 5"] ex_installation_loads
  by (auto split: start_result.splits)

end
