(* ===== verification/Plugin_Settings.thy ===== *)
theory Plugin_Settings
  imports Plugin_Api Config_Data
begin

text \<open>
  How the plugins read their settings: the tests their \<open>validate_settings\<close> share, and the
  conversions \<open>str(...)\<close>, \<open>int(str(...))\<close> and \<open>float(str(...))\<close> their constructors apply. A default
  stands in only for a missing key: JSON null is the value \<open>None\<close>, which the validators
  pass over and the conversions do not.
\<close>

section \<open>Validation\<close>

text \<open>\<open>settings.get(key)\<close>: JSON null and a missing key are both \<open>None\<close>.\<close>

definition setting :: "settings \<Rightarrow> string \<Rightarrow> json option" where
  "setting s key = (case dict_get s key of None \<Rightarrow> None | Some JNull \<Rightarrow> None | Some j \<Rightarrow> Some j)"

definition unknown_settings :: "string list \<Rightarrow> settings \<Rightarrow> string list" where
  "unknown_settings known s =
     map (\<lambda>key. ''unknown setting \"'' @ key @ ''\"'') (filter (\<lambda>key. key \<notin> set known) (dict_keys s))"

definition nonempty_string :: "json \<Rightarrow> bool" where
  "nonempty_string j = (case j of JStr t \<Rightarrow> py_strip t \<noteq> [] | _ \<Rightarrow> False)"

definition positive_json :: "json \<Rightarrow> bool" where
  "positive_json j = (case j of JInt i \<Rightarrow> i > 0 | JFloat q \<Rightarrow> q > 0 | _ \<Rightarrow> False)"

definition int_at_least :: "int \<Rightarrow> json \<Rightarrow> bool" where
  "int_at_least m j = (case j of JInt i \<Rightarrow> m \<le> i | _ \<Rightarrow> False)"

definition is_json_bool :: "json \<Rightarrow> bool" where
  "is_json_bool j = (case j of JBool _ \<Rightarrow> True | _ \<Rightarrow> False)"

text \<open>One problem when the setting is given and fails the test.\<close>

definition setting_problem :: "settings \<Rightarrow> (json \<Rightarrow> bool) \<Rightarrow> string \<Rightarrow> string \<Rightarrow> string list" where
  "setting_problem s test expectation key =
     (case setting s key of None \<Rightarrow> [] | Some j \<Rightarrow> if test j then [] else [''\"'' @ key @ ''\" must be '' @ expectation])"

lemma setting_problem_Nil:
  "setting_problem s test e key = [] \<longleftrightarrow> (\<forall>j. setting s key = Some j \<longrightarrow> test j)"
  by (simp add: setting_problem_def split: option.split)

lemma setting_Some: "setting s key = Some j \<longleftrightarrow> dict_get s key = Some j \<and> j \<noteq> JNull"
  by (auto simp: setting_def split: option.splits json.splits)

lemma setting_None: "setting s key = None \<longleftrightarrow> dict_get s key = None \<or> dict_get s key = Some JNull"
  by (auto simp: setting_def split: option.splits json.splits)

section \<open>Conversions\<close>

text \<open>\<open>repr\<close> and \<open>str\<close> of a parsed JSON value; how a float is written is an argument.\<close>

fun json_repr :: "(rat \<Rightarrow> string) \<Rightarrow> json \<Rightarrow> string" where
  "json_repr fl JNull = ''None''"
| "json_repr fl (JBool b) = py_bool b"
| "json_repr fl (JInt i) = string_of_int i"
| "json_repr fl (JFloat q) = fl q"
| "json_repr fl (JStr t) = py_repr t"
| "json_repr fl (JList js) = ''['' @ join '', '' (map (json_repr fl) js) @ '']''"
| "json_repr fl (JObj kvs) = ''{'' @ join '', '' (map (\<lambda>(k, j). py_repr k @ '': '' @ json_repr fl j) kvs) @ ''}''"

definition json_str :: "(rat \<Rightarrow> string) \<Rightarrow> json \<Rightarrow> string" where
  "json_str fl j = (case j of JStr t \<Rightarrow> t | _ \<Rightarrow> json_repr fl j)"

text \<open>
  \<open>int(text)\<close>, with \<open>None\<close> for \<open>ValueError\<close>: surrounding white space, a sign, digits with single
  underscores between them, and at most 4300 digits.
\<close>

definition is_digit :: "char \<Rightarrow> bool" where
  "is_digit c = (let n = (of_char c :: nat) in 48 \<le> n \<and> n \<le> 57)"

definition digit_value :: "char \<Rightarrow> int" where
  "digit_value c = of_char c - 48"

fun digit_groups :: "bool \<Rightarrow> string \<Rightarrow> bool" where
  "digit_groups after [] = after"
| "digit_groups after (c # cs) =
     (if is_digit c then digit_groups True cs else c = CHR ''_'' \<and> after \<and> digit_groups False cs)"

definition parse_digits :: "string \<Rightarrow> int option" where
  "parse_digits t = (let ds = filter is_digit t in
     if digit_groups False t \<and> length ds \<le> 4300
     then Some (fold (\<lambda>c acc. acc * 10 + digit_value c) ds 0) else None)"

definition parse_int :: "string \<Rightarrow> int option" where
  "parse_int text = (case py_strip text of
      [] \<Rightarrow> None
    | c # cs \<Rightarrow> if c = CHR ''-'' then map_option uminus (parse_digits cs)
        else if c = CHR ''+'' then parse_digits cs else parse_digits (c # cs))"

lemma digit_facts:
  assumes "is_digit c"
  shows "\<not> is_space c" "c \<noteq> CHR ''-''" "c \<noteq> CHR ''+''" "0 \<le> digit_value c" "digit_value c \<le> 9"
proof -
  have d: "48 \<le> (of_char c :: nat)" "(of_char c :: nat) \<le> 57" using assms by (simp_all add: is_digit_def Let_def)
  then show "\<not> is_space c" "c \<noteq> CHR ''-''" "c \<noteq> CHR ''+''" by (auto simp: is_space_def Let_def)
  have "(of_char c :: int) = int (of_char c)" by (rule of_nat_of_char [symmetric])
  with d show "0 \<le> digit_value c" "digit_value c \<le> 9" by (simp_all add: digit_value_def)
qed

lemma digit_groups_all: "\<forall>c \<in> set ds. is_digit c \<Longrightarrow> digit_groups b ds \<longleftrightarrow> b \<or> ds \<noteq> []"
  by (induction ds arbitrary: b) auto

lemma py_strip_none: "\<forall>c \<in> set s. \<not> is_space c \<Longrightarrow> py_strip s = s"
proof -
  have d: "dropWhile is_space xs = xs" if "\<forall>c \<in> set xs. \<not> is_space c" for xs using that by (cases xs) auto
  assume "\<forall>c \<in> set s. \<not> is_space c"
  then show ?thesis using d [of s] d [of "rev s"] by (simp add: py_strip_def)
qed

lemma parse_digits_run:
  assumes "\<forall>c \<in> set ds. is_digit c" "ds \<noteq> []" "length ds \<le> 4300"
  shows "parse_digits ds = Some (fold (\<lambda>c acc. acc * 10 + digit_value c) ds 0)"
proof -
  have "filter is_digit ds = ds" using assms(1) by (simp add: filter_id_conv)
  then show ?thesis using assms digit_groups_all [of ds False] by (simp add: parse_digits_def Let_def)
qed

lemma parse_int_digits:
  assumes "\<forall>c \<in> set ds. is_digit c" "ds \<noteq> []" "length ds \<le> 4300"
  shows "parse_int ds = Some (fold (\<lambda>c acc. acc * 10 + digit_value c) ds 0)"
proof -
  obtain c cs where ds: "ds = c # cs" using assms(2) by (cases ds) auto
  have "py_strip ds = c # cs" using py_strip_none [of ds] assms(1) digit_facts(1) by (simp add: ds)
  moreover have "c \<noteq> CHR ''-''" "c \<noteq> CHR ''+''" using assms(1) digit_facts by (auto simp: ds)
  ultimately show ?thesis using parse_digits_run [OF assms] by (simp add: parse_int_def ds)
qed

text \<open>A written number reads back.\<close>

lemma digit_char_value: "d < 10 \<Longrightarrow> is_digit (digit_char d) \<and> digit_value (digit_char d) = int d"
proof -
  have "list_all (\<lambda>d. is_digit (digit_char d) \<and> digit_value (digit_char d) = int d) [0..<10]" by code_simp
  then show "d < 10 \<Longrightarrow> ?thesis" by (simp add: list_all_iff)
qed

lemma string_of_nat_digits:
  "(\<forall>c \<in> set (string_of_nat n). is_digit c) \<and> string_of_nat n \<noteq> [] \<and>
   fold (\<lambda>c acc. acc * 10 + digit_value c) (string_of_nat n) 0 = int n"
proof (induction n rule: string_of_nat.induct)
  case (1 n)
  show ?case
  proof (cases "n < 10")
    case True
    then show ?thesis by (simp add: string_of_nat.simps digit_char_value)
  next
    case False
    have "int (n div 10) * 10 + int (n mod 10) = int (n div 10 * 10 + n mod 10)" by (simp only: of_nat_add of_nat_mult of_nat_numeral)
    then have "int (n div 10) * 10 + int (n mod 10) = int n" by (simp only: div_mult_mod_eq)
    then show ?thesis using False 1 digit_char_value [of "n mod 10"]
      by (subst (1 2 3) string_of_nat.simps) auto
  qed
qed

lemma length_string_of_nat: "n < 10 ^ k \<Longrightarrow> 0 < k \<Longrightarrow> length (string_of_nat n) \<le> k"
proof (induction k arbitrary: n)
  case (Suc k)
  show ?case
  proof (cases "n < 10")
    case False
    then have "0 < k" using Suc.prems by (cases k) auto
    moreover have "n div 10 < 10 ^ k" using Suc.prems by (simp add: less_mult_imp_div_less mult.commute)
    ultimately show ?thesis using Suc.IH [of "n div 10"] False by (subst string_of_nat.simps) simp
  qed (simp add: string_of_nat.simps)
qed simp

lemma parse_int_string_of_int:
  assumes "0 \<le> i" "i < 10 ^ 4300"
  shows "parse_int (string_of_int i) = Some i"
proof -
  have "nat i < nat (10 ^ 4300)" using assms by (simp only: nat_less_eq_zless)
  then have "nat i < 10 ^ 4300" by (simp only: nat_power_eq [of 10] nat_numeral zero_le_numeral)
  then have "length (string_of_nat (nat i)) \<le> 4300" by (rule length_string_of_nat) (simp only: zero_less_numeral)
  then show ?thesis using parse_int_digits [of "string_of_nat (nat i)"] string_of_nat_digits [of "nat i"] assms(1)
    by (simp add: string_of_int_def)
qed

text \<open>
  \<open>str(settings.get(key, dflt))\<close>, \<open>int(str(...))\<close> and \<open>float(str(...))\<close>; \<open>None\<close> is a \<open>ValueError\<close>.
  The validators refuse a string for a number of seconds, so none is converted here.
\<close>

definition str_setting :: "(rat \<Rightarrow> string) \<Rightarrow> settings \<Rightarrow> string \<Rightarrow> string \<Rightarrow> string" where
  "str_setting fl s key dflt = (case dict_get s key of None \<Rightarrow> dflt | Some j \<Rightarrow> json_str fl j)"

definition int_setting :: "settings \<Rightarrow> string \<Rightarrow> int \<Rightarrow> int option" where
  "int_setting s key dflt =
     (case dict_get s key of None \<Rightarrow> Some dflt
      | Some (JInt i) \<Rightarrow> Some i | Some (JStr t) \<Rightarrow> parse_int t | Some _ \<Rightarrow> None)"

definition float_setting :: "settings \<Rightarrow> string \<Rightarrow> rat \<Rightarrow> rat option" where
  "float_setting s key dflt =
     (case dict_get s key of None \<Rightarrow> Some dflt
      | Some (JInt i) \<Rightarrow> Some (of_int i) | Some (JFloat q) \<Rightarrow> Some q | Some _ \<Rightarrow> None)"

lemma accepted_float_setting:
  assumes "\<forall>j. setting s key = Some j \<longrightarrow> positive_json j" "0 < d"
  shows "case float_setting s key d of None \<Rightarrow> dict_get s key = Some JNull
    | Some q \<Rightarrow> 0 < q \<and> dict_get s key \<noteq> Some JNull"
  using assms by (auto simp: setting_def float_setting_def positive_json_def split: option.splits json.splits)

lemma accepted_int_setting:
  assumes "\<forall>j. setting s key = Some j \<longrightarrow> int_at_least m j" "m \<le> d"
  shows "case int_setting s key d of None \<Rightarrow> dict_get s key = Some JNull
    | Some i \<Rightarrow> m \<le> i \<and> dict_get s key \<noteq> Some JNull"
  using assms by (auto simp: setting_def int_setting_def int_at_least_def split: option.splits json.splits)

end
