(* ===== verification/Service.thy ===== *)
theory Service
  imports Runtime_Properties Plugin_Settings
begin

text \<open>
  The daemon as a service: the notifications of \<open>sdnotify.py\<close> and the parts of \<open>runtime.py\<close>
  that signals and background threads drive, namely the reload loop, the watchdog loop and
  the two ways to shut down. The state is the daemon of \<open>Runtime\<close> with the two events, the
  notifications sent so far and whether the dispatcher was told to stop; a thread's pass is
  one step of a relation.
\<close>

section \<open>Notifications\<close>

definition ready_message :: "string \<Rightarrow> string" where
  "ready_message status = (if status \<noteq> [] then ''READY=1'' @ [CHR 0x0A] @ ''STATUS='' @ status else ''READY=1'')"

definition status_message :: "string \<Rightarrow> string" where
  "status_message text = ''STATUS='' @ text"

definition reloading_message :: string where "reloading_message = ''RELOADING=1''"
definition stopping_message :: string where "stopping_message = ''STOPPING=1''"
definition watchdog_message :: string where "watchdog_message = ''WATCHDOG=1''"

text \<open>
  The socket a notification goes to and its datagram; none when there is no address. A
  leading at sign names an abstract socket, which begins with a zero byte.
\<close>

definition datagram :: "string option \<Rightarrow> string \<Rightarrow> (string \<times> string) option" where
  "datagram address message =
     (case address of None \<Rightarrow> None
      | Some [] \<Rightarrow> None
      | Some (c # cs) \<Rightarrow> Some (if c = CHR ''@'' then CHR 0x00 # cs else c # cs, message))"

text \<open>
  The watchdog's interval, half of what systemd asks for, from the two environment variables
  and the process id. Left is the \<open>OverflowError\<close> of a number no float can hold; the rounding of
  the quotient is left out.
\<close>

definition watchdog_interval_seconds :: "string option \<Rightarrow> string option \<Rightarrow> nat \<Rightarrow> exn + seconds option" where
  "watchdog_interval_seconds raw expected_pid pid =
     (case raw of None \<Rightarrow> Inr None
      | Some text \<Rightarrow>
          if text = [] then Inr None
          else if (case expected_pid of None \<Rightarrow> False | Some e \<Rightarrow> e \<noteq> [] \<and> e \<noteq> string_of_nat pid) then Inr None
          else (case parse_int text of None \<Rightarrow> Inr None
            | Some us \<Rightarrow>
                if us \<le> 0 then Inr None
                else (case float_of_pos us of None \<Rightarrow> Inl OverflowError | Some f \<Rightarrow> Inr (Some (f / 2000000)))))"

section \<open>State\<close>

record service =
  sv_daemon :: daemon
  sv_shutting_down :: bool
  sv_reload_requested :: bool
  sv_dispatcher_stopped :: bool
  sv_sent :: "string list"

definition notify :: "string \<Rightarrow> service \<Rightarrow> service" where
  "notify m s = s\<lparr>sv_sent := sv_sent s @ [m]\<rparr>"

definition submit_to :: "core_message \<Rightarrow> daemon \<Rightarrow> daemon" where
  "submit_to m d = d\<lparr>dm_engine := submit m (dm_engine d)\<rparr>"

text \<open>\<open>_report_push_result\<close>: a result that arrives before there is an engine is dropped.\<close>

definition report_push_result :: "core_message \<Rightarrow> engine option \<Rightarrow> engine option" where
  "report_push_result m e = map_option (submit m) e"

text \<open>The end of \<open>start\<close>: the service of a daemon that has started, and what it has sent.\<close>

definition started_service :: "daemon \<Rightarrow> service" where
  "started_service d = \<lparr>sv_daemon = d, sv_shutting_down = False, sv_reload_requested = False,
     sv_dispatcher_stopped = False, sv_sent = [status_message ''reconciling'', ready_message (status_line d)]\<rparr>"

section \<open>Signals\<close>

definition on_terminate :: "service \<Rightarrow> service" where
  "on_terminate s = s\<lparr>sv_shutting_down := True, sv_reload_requested := True,
     sv_daemon := submit_to ShutdownMessage (sv_daemon s)\<rparr>"

definition on_hangup :: "service \<Rightarrow> service" where
  "on_hangup s = s\<lparr>sv_reload_requested := True\<rparr>"

section \<open>Stopping\<close>

text \<open>\<open>Daemon.stop\<close>; joining the threads and closing the connection leave nothing to see here.\<close>

definition stop_service :: "service \<Rightarrow> service" where
  "stop_service s =
     (if sv_shutting_down s then s
      else let s1 = notify stopping_message (s\<lparr>sv_shutting_down := True\<rparr>);
               d = submit_to ShutdownMessage (sv_daemon s1) in
        s1\<lparr>sv_reload_requested := True,
           sv_daemon := (stop_instances (map snd (dm_live d)) d)\<lparr>dm_live := []\<rparr>,
           sv_dispatcher_stopped := True\<rparr>)"

section \<open>The reload thread\<close>

text \<open>
  One \<open>_reload\<close>: from what loading the configuration gives, what the core does to its
  engine while the thread waits, and whether the core acknowledged in time. An exception
  other than a \<open>StartupError\<close> of the loading leaves the function; the loop logs it.
\<close>

definition reload_once ::
  "nat \<Rightarrow> startup_error + configuration \<Rightarrow> (engine \<Rightarrow> engine) \<Rightarrow> bool \<Rightarrow> service \<Rightarrow> service" where
  "reload_once ack loaded core acknowledged s =
     (let s1 = notify reloading_message s in
      case begin_reload ack loaded (sv_daemon s1) of
        ReloadRefused e \<Rightarrow>
          (case e of Escaped _ \<Rightarrow> s1 | _ \<Rightarrow> notify (ready_message (status_line (sv_daemon s1))) s1)
      | ReloadRaises x \<Rightarrow> s1
      | ReloadFailed e d \<Rightarrow> s1\<lparr>sv_daemon := d\<rparr>
      | ReloadSubmitted plan c d \<Rightarrow>
          (let d1 = d\<lparr>dm_engine := core (dm_engine d)\<rparr> in
           if \<not> acknowledged then s1\<lparr>sv_daemon := d1\<rparr>
           else let d2 = finish_reload True plan c d1 in
             notify (ready_message (status_line d2)) (s1\<lparr>sv_daemon := d2\<rparr>)))"

section \<open>The watchdog thread\<close>

definition watchdog_pass :: "time \<Rightarrow> service \<Rightarrow> service" where
  "watchdog_pass now s =
     (if unhealthy_reason now (Some (dm_engine (sv_daemon s))) = None then notify watchdog_message s else s)"

section \<open>The service as a transition system\<close>

text \<open>
  The loops of the reload thread and of the watchdog thread end once the service is shutting
  down. The core and the plugins only ever change the engine.
\<close>

inductive service_step :: "service \<Rightarrow> service \<Rightarrow> bool" where
  terminated: "service_step s (on_terminate s)"
| hung_up: "service_step s (on_hangup s)"
| stopped: "service_step s (stop_service s)"
| reloaded: "sv_reload_requested s \<Longrightarrow> \<not> sv_shutting_down s \<Longrightarrow>
    service_step s (reload_once ack loaded core acknowledged (s\<lparr>sv_reload_requested := False\<rparr>))"
| watched: "\<not> sv_shutting_down s \<Longrightarrow> service_step s (watchdog_pass now s)"
| worked: "service_step s (s\<lparr>sv_daemon := (sv_daemon s)\<lparr>dm_engine := e\<rparr>\<rparr>)"

inductive_cases service_step_cases: "service_step s t"

lemma notify_simps [simp]:
  "sv_daemon (notify m s) = sv_daemon s" "sv_shutting_down (notify m s) = sv_shutting_down s"
  "sv_reload_requested (notify m s) = sv_reload_requested s"
  "sv_dispatcher_stopped (notify m s) = sv_dispatcher_stopped s" "sv_sent (notify m s) = sv_sent s @ [m]"
  by (simp_all add: notify_def)

lemma message_kinds [simp]:
  "ready_message t \<noteq> stopping_message" "status_message t \<noteq> stopping_message"
  "reloading_message \<noteq> stopping_message" "watchdog_message \<noteq> stopping_message"
  "ready_message t \<noteq> reloading_message" "status_message t \<noteq> reloading_message" "watchdog_message \<noteq> reloading_message"
  "stopping_message \<noteq> reloading_message"
  by (simp_all add: ready_message_def status_message_def stopping_message_def reloading_message_def watchdog_message_def)

section \<open>The protocol\<close>






section \<open>Shutting down\<close>

text \<open>Everything but the engine: what a service that is shutting down no longer changes.\<close>

definition same_but_engine :: "service \<Rightarrow> service \<Rightarrow> bool" where
  "same_but_engine s t \<longleftrightarrow> sv_sent t = sv_sent s \<and> sv_dispatcher_stopped t = sv_dispatcher_stopped s \<and>
     dm_live (sv_daemon t) = dm_live (sv_daemon s) \<and> dm_running (sv_daemon t) = dm_running (sv_daemon s) \<and>
     dm_configuration (sv_daemon t) = dm_configuration (sv_daemon s)"

lemma service_step_shutting:
  "service_step s t \<Longrightarrow> sv_shutting_down s \<Longrightarrow> sv_shutting_down t \<and> same_but_engine s t"
  by (induction rule: service_step.induct)
    (auto simp: same_but_engine_def on_terminate_def on_hangup_def stop_service_def submit_to_def)

lemma service_steps_shutting:
  "service_step\<^sup>*\<^sup>* s t \<Longrightarrow> sv_shutting_down s \<Longrightarrow> sv_shutting_down t \<and> same_but_engine s t"
proof (induction rule: rtranclp_induct)
  case base
  then show ?case by (simp add: same_but_engine_def)
next
  case (step t u)
  then show ?case using service_step_shutting [of t u] by (simp add: same_but_engine_def)
qed

text \<open>
  C16. A signal leaves the shutdown undone. \<open>SIGTERM\<close> and \<open>SIGINT\<close> set the flag by which \<open>stop\<close> recognises
  that it has run before, so whatever happens after the signal, the \<open>stop\<close> that ends the command
  included, no plugin is stopped, the dispatcher is not stopped and systemd is not told.
\<close>

theorem signalled_shutdown_stops_nothing:
  assumes "service_step\<^sup>*\<^sup>* (on_terminate s) t"
  shows "sv_sent t = sv_sent s \<and> sv_dispatcher_stopped t = sv_dispatcher_stopped s \<and>
    dm_live (sv_daemon t) = dm_live (sv_daemon s) \<and> dm_running (sv_daemon t) = dm_running (sv_daemon s)"
  using service_steps_shutting [OF assms] by (simp add: same_but_engine_def on_terminate_def submit_to_def)


section \<open>Answering a reload\<close>


section \<open>Witnesses\<close>

lemma signalled_shutdown_stops_nothing_witness:
  "dm_running (sv_daemon (stop_service (on_terminate (started_service ex_daemon)))) = [0] \<and>
   stopping_message \<notin> set (sv_sent (stop_service (on_terminate (started_service ex_daemon))))"
proof -
  let ?s = "started_service ex_daemon"
  have "service_step\<^sup>*\<^sup>* (on_terminate ?s) (stop_service (on_terminate ?s))" by (rule r_into_rtranclp) (rule stopped)
  note same = signalled_shutdown_stops_nothing [OF this]
  have "dm_running (sv_daemon ?s) = [0]" by (simp add: started_service_def ex_daemon_def)
  moreover have "stopping_message \<notin> set (sv_sent ?s)" by (simp add: started_service_def message_kinds [symmetric])
  ultimately show ?thesis using same by (simp only: simp_thms)
qed



end
