(* ===== verification/Clock.thy ===== *)
theory Clock
  imports Prelude
begin

text \<open>
  \<open>clock.py\<close>: the ISO 8601 text a timestamp is stored as, with the calendar it needs, the
  parser of that text, and the manual clock. \<open>SystemClock\<close> only calls the operating system.
\<close>

section \<open>The calendar\<close>

definition is_leap :: "int \<Rightarrow> bool" where
  "is_leap y \<longleftrightarrow> y mod 4 = 0 \<and> (y mod 100 \<noteq> 0 \<or> y mod 400 = 0)"

definition days_before_year :: "int \<Rightarrow> int" where
  "days_before_year y = (let k = y - 1 in 365 * k + k div 4 - k div 100 + k div 400)"

definition month_lengths :: "int \<Rightarrow> int list" where
  "month_lengths y = [31, if is_leap y then 29 else 28, 31, 30, 31, 30, 31, 31, 30, 31, 30, 31]"

text \<open>The year a day number (day 0 is 1 January of year 1) falls in: an estimate that is off by one at most.\<close>

definition year_of_day :: "int \<Rightarrow> int" where
  "year_of_day n = (let y = 400 * n div 146097 + 1 in
     if n < days_before_year y then y - 1 else if days_before_year (y + 1) \<le> n then y + 1 else y)"

fun split_month :: "int \<Rightarrow> int list \<Rightarrow> int \<Rightarrow> int \<times> int" where
  "split_month m [] n = (m, n + 1)"
| "split_month m (l # ls) n = (if n < l then (m, n + 1) else split_month (m + 1) ls (n - l))"

text \<open>A moment as year, month, day, hour, minute, second and microsecond.\<close>

definition epoch_day :: int where
  "epoch_day = 719162"

definition day_us :: int where
  "day_us = 86400000000"

definition moment_fields :: "time \<Rightarrow> int list" where
  "moment_fields t =
     (let n = t div day_us + epoch_day; us = t mod day_us; y = year_of_day n;
          (m, d) = split_month 1 (month_lengths y) (n - days_before_year y) in
      [y, m, d, us div 3600000000, us div 60000000 mod 60, us div 1000000 mod 60, us mod 1000000])"

section \<open>Text\<close>

fun pad_digits :: "nat \<Rightarrow> int \<Rightarrow> string" where
  "pad_digits 0 k = []"
| "pad_digits (Suc w) k = pad_digits w (k div 10) @ [digit_char (nat (k mod 10))]"

text \<open>The fields' widths and what follows each.\<close>

definition iso_layout :: "(nat \<times> string) list" where
  "iso_layout = [(4, ''-''), (2, ''-''), (2, ''T''), (2, '':''), (2, '':''), (2, ''.''), (6, ''+00:00'')]"

fun render :: "(nat \<times> string) list \<Rightarrow> int list \<Rightarrow> string" where
  "render ((w, sep) # ls) (v # vs) = pad_digits w v @ sep @ render ls vs"
| "render _ _ = []"

definition to_iso :: "time \<Rightarrow> string" where
  "to_iso t = render iso_layout (moment_fields t)"

text \<open>\<open>isoformat()\<close> without a \<open>timespec\<close> leaves the microseconds out when there are none.\<close>

definition isoformat :: "time \<Rightarrow> string" where
  "isoformat t = (if t mod 1000000 = 0
     then render [(4, ''-''), (2, ''-''), (2, ''T''), (2, '':''), (2, '':''), (2, ''+00:00'')] (butlast (moment_fields t))
     else to_iso t)"

text \<open>
  \<open>from_iso\<close> on the texts \<open>to_iso\<close> writes, the only ones the database holds; on them
  \<open>fromisoformat\<close> reads the fields back and checks their ranges. None is a \<open>ValueError\<close>.
\<close>

definition digit_of :: "char \<Rightarrow> int option" where
  "digit_of c = (let n = (of_char c :: int) in if 48 \<le> n \<and> n \<le> 57 then Some (n - 48) else None)"

fun read_digits :: "int \<Rightarrow> string \<Rightarrow> int option" where
  "read_digits acc [] = Some acc"
| "read_digits acc (c # cs) = (case digit_of c of None \<Rightarrow> None | Some d \<Rightarrow> read_digits (10 * acc + d) cs)"

fun parse_fields :: "(nat \<times> string) list \<Rightarrow> string \<Rightarrow> int list option" where
  "parse_fields [] s = (if s = [] then Some [] else None)"
| "parse_fields ((w, sep) # ls) s =
     (if length s < w \<or> take (length sep) (drop w s) \<noteq> sep then None
      else case read_digits 0 (take w s) of None \<Rightarrow> None
        | Some v \<Rightarrow> map_option ((#) v) (parse_fields ls (drop (w + length sep) s)))"

definition moment_of_fields :: "int list \<Rightarrow> time option" where
  "moment_of_fields fs =
     (case fs of [y, m, d, h, mi, s, us] \<Rightarrow>
        if 1 \<le> y \<and> 1 \<le> m \<and> m \<le> 12 \<and> 1 \<le> d \<and> d \<le> month_lengths y ! nat (m - 1) \<and> h < 24 \<and> mi < 60 \<and> s < 60
        then Some ((days_before_year y + sum_list (take (nat (m - 1)) (month_lengths y)) + d - 1 - epoch_day) * day_us
               + h * 3600000000 + mi * 60000000 + s * 1000000 + us)
        else None
      | _ \<Rightarrow> None)"

definition from_iso :: "string \<Rightarrow> time option" where
  "from_iso s = (case parse_fields iso_layout s of None \<Rightarrow> None | Some fs \<Rightarrow> moment_of_fields fs)"

text \<open>What a \<open>datetime\<close> can hold: years 1 to 9999.\<close>

definition representable :: "time \<Rightarrow> bool" where
  "representable t \<longleftrightarrow> 0 \<le> t div day_us + epoch_day \<and> t div day_us + epoch_day < days_before_year 10000"

section \<open>The manual clock\<close>

record manual_clock =
  mc_now :: time
  mc_monotonic :: rat

definition advance :: "seconds \<Rightarrow> manual_clock \<Rightarrow> manual_clock" where
  "advance s c = \<lparr>mc_now = mc_now c + timedelta_us s, mc_monotonic = mc_monotonic c + s\<rparr>"

section \<open>Years\<close>

lemma div_succ:
  fixes k c :: int
  assumes "1 < c"
  shows "(k + 1) div c = k div c + (if (k + 1) mod c = 0 then 1 else 0)"
proof -
  obtain q r where k: "k = c * q + r" "0 \<le> r" "r < c"
    using assms by (metis mult_div_mod_eq pos_mod_bound pos_mod_sign order.strict_trans zero_less_one)
  have q: "k div c = q" using k by (intro int_div_pos_eq)
  show ?thesis
  proof (cases "r + 1 = c")
    case True
    then have "k + 1 = c * (q + 1)" using k(1) by (simp add: algebra_simps)
    then show ?thesis using assms q by simp
  next
    case False
    have "k + 1 = c * q + (r + 1)" "0 \<le> r + 1" "r + 1 < c" using k False by simp_all
    then have "(k + 1) div c = q" "(k + 1) mod c = r + 1"
      by (rule int_div_pos_eq, rule int_mod_pos_eq)
    then show ?thesis using k q by simp
  qed
qed

lemma days_before_next_year: "days_before_year (y + 1) = days_before_year y + (if is_leap y then 366 else 365)"
proof -
  have i: "y mod 400 = 0 \<Longrightarrow> y mod 100 = 0" "y mod 100 = 0 \<Longrightarrow> y mod 4 = 0"
    using mod_mod_cancel [of 100 400 y] mod_mod_cancel [of 4 100 y] by auto
  have d: "y div c = (y - 1) div c + (if y mod c = 0 then 1 else 0)" if "1 < c" for c
    using div_succ [OF that, of "y - 1"] by simp
  have arith: "365 * k + a - b + c = 365 * (k - 1) + a' - b' + c' + (if p4 \<and> (\<not> p100 \<or> p400) then 366 else 365)"
    if "a = a' + (if p4 then 1 else 0)" "b = b' + (if p100 then 1 else 0)" "c = c' + (if p400 then 1 else 0)"
      "p400 \<longrightarrow> p100" "p100 \<longrightarrow> p4" for a a' b b' c c' k :: int and p4 p100 p400
    using that by (cases p4; cases p100; cases p400) simp_all
  have "365 * y + y div 4 - y div 100 + y div 400 = 365 * (y - 1) + (y - 1) div 4 - (y - 1) div 100 + (y - 1) div 400 +
      (if y mod 4 = 0 \<and> (\<not> y mod 100 = 0 \<or> y mod 400 = 0) then 366 else 365)"
    using i by (intro arith d) (simp | blast)+
  then show ?thesis by (simp only: days_before_year_def is_leap_def Let_def add_diff_cancel_right')
qed

lemma days_before_year_mono: "y \<le> z \<Longrightarrow> days_before_year y \<le> days_before_year z"
proof (induction z rule: int_ge_induct)
  case (step z)
  have "days_before_year z \<le> days_before_year (z + 1)" by (simp add: days_before_next_year)
  then show ?case using step by (meson order_trans)
qed simp

lemma year_of_day:
  "days_before_year (year_of_day n) \<le> n \<and> n < days_before_year (year_of_day n + 1)"
proof -
  let ?k = "400 * n div 146097"
  have k: "146097 * ?k \<le> 400 * n" "400 * n < 146097 * ?k + 146097"
    using mult_div_mod_eq [of 146097 "400 * n"] pos_mod_sign [of 146097 "400 * n"] pos_mod_bound [of 146097 "400 * n"]
    by linarith+
  have arith: "146097 * j - 699 \<le> 400 * (365 * j + a - b + c) \<and> 400 * (365 * j + a - b + c) \<le> 146097 * j + 396"
    if "4 * a \<le> j" "j < 4 * a + 4" "100 * b \<le> j" "j < 100 * b + 100" "400 * c \<le> j" "j < 400 * c + 400"
    for a b c j :: int
    using that by (simp add: algebra_simps)
  have m: "c * (j div c) \<le> j \<and> j < c * (j div c) + c" if "0 < c" for c j :: int
    using that mult_div_mod_eq [of c j] pos_mod_sign [of c j] pos_mod_bound [of c j] by (intro conjI; linarith)
  have b: "146097 * j - 699 \<le> 400 * days_before_year (j + 1)" "400 * days_before_year (j + 1) \<le> 146097 * j + 396" for j
    unfolding days_before_year_def Let_def add_diff_cancel_right'
    using arith [OF m [THEN conjunct1] m [THEN conjunct2] m [THEN conjunct1] m [THEN conjunct2] m [THEN conjunct1] m [THEN conjunct2], of j] by simp_all
  have "400 * days_before_year ?k \<le> 400 * n" using b(2) [of "?k - 1"] k by simp
  moreover have "400 * n < 400 * days_before_year (?k + 3)" using b(1) [of "?k + 2"] k by (simp add: add.commute)
  ultimately show ?thesis by (simp add: year_of_day_def Let_def algebra_simps)
qed

lemma year_of_day_unique:
  assumes "days_before_year y \<le> n" "n < days_before_year (y + 1)"
  shows "year_of_day n = y"
proof -
  have "\<not> y + 1 \<le> year_of_day n" "\<not> year_of_day n + 1 \<le> y"
    using year_of_day [of n] assms days_before_year_mono [of "y + 1" "year_of_day n"]
      days_before_year_mono [of "year_of_day n + 1" y] by linarith+
  then show ?thesis by simp
qed

lemma year_of_day_mono: "n \<le> n' \<Longrightarrow> year_of_day n \<le> year_of_day n'"
  using year_of_day [of n] year_of_day [of n'] days_before_year_mono [of "year_of_day n' + 1" "year_of_day n"]
  by (meson not_le less_le_trans order_trans zless_add1_eq le_less add1_zle_eq)

section \<open>Days within a year\<close>

lemma split_month_inverse:
  assumes "0 \<le> n" "n < sum_list ls" "split_month m ls n = (m', d)"
  shows "\<exists>i < length ls. m' = m + int i \<and> 1 \<le> d \<and> d \<le> ls ! i \<and> n = sum_list (take i ls) + d - 1"
  using assms
proof (induction ls arbitrary: m n)
  case (Cons l ls)
  show ?case
  proof (cases "n < l")
    case True
    then show ?thesis using Cons.prems by (intro exI [of _ 0]) auto
  next
    case False
    obtain i where "i < length ls" "m' = m + 1 + int i" "1 \<le> d" "d \<le> ls ! i" "n - l = sum_list (take i ls) + d - 1"
      using Cons.IH [of "n - l" "m + 1"] Cons.prems False by auto
    then show ?thesis by (intro exI [of _ "Suc i"]) auto
  qed
qed simp

lemma split_month_ge: "m \<le> fst (split_month m ls n)"
proof (induction ls arbitrary: m n)
  case (Cons l ls)
  have "m + 1 \<le> fst (split_month (m + 1) ls (n - l))" by (rule Cons.IH)
  then show ?case by simp
qed simp

lemma split_month_less:
  "n < n' \<Longrightarrow> fst (split_month m ls n) < fst (split_month m ls n') \<or>
     fst (split_month m ls n) = fst (split_month m ls n') \<and> snd (split_month m ls n) < snd (split_month m ls n')"
proof (induction ls arbitrary: m n n')
  case (Cons l ls)
  consider "n' < l" | "n < l" "l \<le> n'" | "l \<le> n" by linarith
  then show ?case
  proof cases
    case 2
    have "m + 1 \<le> fst (split_month (m + 1) ls (n' - l))" by (rule split_month_ge)
    then show ?thesis using 2 by simp
  next
    case 3
    then show ?thesis using Cons.IH [of "n - l" "n' - l" "m + 1"] Cons.prems by simp
  qed (use Cons.prems in simp)
qed simp

lemma sum_month_lengths: "sum_list (month_lengths y) = (if is_leap y then 366 else 365)"
  by (simp add: month_lengths_def)

lemma month_length_bounds: "i < 12 \<Longrightarrow> month_lengths y ! i \<le> 31"
  by (auto simp: month_lengths_def less_Suc_eq numeral_eq_Suc)

section \<open>Texts of fixed width\<close>

lemma length_pad_digits [simp]: "length (pad_digits w k) = w"
  by (induction w arbitrary: k) auto

lemma digit_of_digit_char: "0 \<le> d \<Longrightarrow> d < 10 \<Longrightarrow> digit_of (digit_char (nat d)) = Some d"
proof -
  assume "0 \<le> d" "d < 10"
  then have "d = 0 \<or> d = 1 \<or> d = 2 \<or> d = 3 \<or> d = 4 \<or> d = 5 \<or> d = 6 \<or> d = 7 \<or> d = 8 \<or> d = 9" by presburger
  then show ?thesis by (auto simp: digit_char_def digit_of_def Let_def)
qed

lemma read_digits_append:
  "read_digits acc (xs @ ys) = (case read_digits acc xs of None \<Rightarrow> None | Some a \<Rightarrow> read_digits a ys)"
  by (induction xs arbitrary: acc) (auto split: option.split)

lemma read_pad_digits: "0 \<le> k \<Longrightarrow> k < 10 ^ w \<Longrightarrow> read_digits 0 (pad_digits w k) = Some k"
proof (induction w arbitrary: k)
  case (Suc w)
  have "10 * (k div 10) \<le> k" using mult_div_mod_eq [of 10 k] pos_mod_sign [of 10 k] by simp
  then have "k div 10 < 10 ^ w" using Suc.prems by simp
  then have "read_digits 0 (pad_digits w (k div 10)) = Some (k div 10)" using Suc by simp
  then show ?case using digit_of_digit_char [of "k mod 10"] by (simp add: read_digits_append)
qed simp

text \<open>A value fits its field.\<close>

fun fields_fit :: "(nat \<times> string) list \<Rightarrow> int list \<Rightarrow> bool" where
  "fields_fit ((w, sep) # ls) (v # vs) = (0 \<le> v \<and> v < 10 ^ w \<and> fields_fit ls vs)"
| "fields_fit [] [] = True"
| "fields_fit _ _ = False"

lemma parse_render: "fields_fit ls vs \<Longrightarrow> parse_fields ls (render ls vs) = Some vs"
  by (induction ls vs rule: fields_fit.induct) (auto simp: read_pad_digits)

lemma append_less_same_length:
  "length xs = length ys \<Longrightarrow> xs @ us < ys @ vs \<longleftrightarrow> xs < ys \<or> xs = ys \<and> us < (vs :: 'a :: linorder list)"
  by (induction xs ys rule: list_induct2) auto

lemma div_mod_less:
  fixes a b c :: int
  assumes "a < b" "0 < c"
  shows "a div c < b div c \<or> a div c = b div c \<and> a mod c < b mod c"
proof -
  have "a div c \<le> b div c" using assms by (simp add: zdiv_mono1)
  moreover have "a mod c < b mod c" if "a div c = b div c"
    using assms(1) mult_div_mod_eq [of c a] mult_div_mod_eq [of c b] unfolding that by linarith
  ultimately show ?thesis by linarith
qed

lemma digit_char_less: "0 \<le> a \<Longrightarrow> a < b \<Longrightarrow> b < 10 \<Longrightarrow> digit_char (nat a) < digit_char (nat b)"
proof -
  have v: "of_char (digit_char (nat d)) = 48 + nat d" if d: "0 \<le> d" "d < 10" for d
  proof -
    have "d = 0 \<or> d = 1 \<or> d = 2 \<or> d = 3 \<or> d = 4 \<or> d = 5 \<or> d = 6 \<or> d = 7 \<or> d = 8 \<or> d = 9" using d by presburger
    then show ?thesis by (auto simp: digit_char_def)
  qed
  assume "0 \<le> a" "a < b" "b < 10"
  then show ?thesis using v [of a] v [of b] by (simp add: less_char_def)
qed

lemma pad_digits_less: "0 \<le> a \<Longrightarrow> a < b \<Longrightarrow> b < 10 ^ w \<Longrightarrow> pad_digits w a < pad_digits w b"
proof (induction w arbitrary: a b)
  case (Suc w)
  have b: "b div 10 < 10 ^ w" using Suc.prems mult_div_mod_eq [of 10 b] pos_mod_sign [of 10 b] by simp
  consider "a div 10 < b div 10" | "a div 10 = b div 10" "a mod 10 < b mod 10"
    using div_mod_less [OF Suc.prems(2), of 10] by auto
  then show ?case
  proof cases
    case 1
    then show ?thesis using Suc.IH [of "a div 10" "b div 10"] Suc.prems b by (simp add: append_less_same_length)
  next
    case 2
    then show ?thesis using digit_char_less [of "a mod 10" "b mod 10"] by (simp add: append_less_same_length)
  qed
qed simp

lemma render_less:
  "fields_fit ls vs \<Longrightarrow> fields_fit ls vs' \<Longrightarrow> vs < vs' \<Longrightarrow> render ls vs < render ls vs'"
proof (induction ls vs arbitrary: vs' rule: fields_fit.induct)
  case (1 w sep ls v vs)
  then obtain v' us where [simp]: "vs' = v' # us" by (cases vs') auto
  consider "v < v'" | "v = v'" "vs < us" using "1.prems"(3) by auto
  then show ?case
    using "1" by cases (simp_all add: append_less_same_length pad_digits_less)
next
  case 2
  then show ?case by (cases vs') auto
qed auto

section \<open>Moments as fields\<close>

lemma clock_fields:
  fixes us :: int
  shows "us div 3600000000 = us div 1000000 div 60 div 60" "us div 60000000 = us div 1000000 div 60"
  by (simp_all flip: zdiv_zmult2_eq)

lemma moment_fields_eq:
  assumes "n = t div day_us + epoch_day" "us = t mod day_us" "y = year_of_day n"
    "split_month 1 (month_lengths y) (n - days_before_year y) = (m, d)"
  shows "moment_fields t = [y, m, d] @
    [us div 1000000 div 60 div 60, us div 1000000 div 60 mod 60, us div 1000000 mod 60, us mod 1000000]"
  using assms by (simp add: moment_fields_def Let_def clock_fields)

lemma clock_less:
  fixes q q' m m' :: int
  assumes "q < q' \<or> q = q' \<and> r < r'" "q < q' \<Longrightarrow> m < m' \<or> m = m' \<and> s < s'" "m < m' \<Longrightarrow> h < h' \<or> h = h' \<and> mi < mi'"
    and "q = q' \<Longrightarrow> m = m' \<and> s = s'" "m = m' \<Longrightarrow> h = h' \<and> mi = mi'"
  shows "[h, mi, s, r] < [h', mi', s', r' :: int]"
  using assms by auto

lemma moment_fields_less:
  assumes "t < t'"
  shows "moment_fields t < moment_fields t'"
proof -
  define n us y where d: "n = t div day_us + epoch_day" "us = t mod day_us" "y = year_of_day n"
  define n' us' y' where d': "n' = t' div day_us + epoch_day" "us' = t' mod day_us" "y' = year_of_day n'"
  obtain m dd where md: "split_month 1 (month_lengths y) (n - days_before_year y) = (m, dd)" by fastforce
  obtain m' dd' where md': "split_month 1 (month_lengths y') (n' - days_before_year y') = (m', dd')" by fastforce
  note f = moment_fields_eq [OF d md] moment_fields_eq [OF d' md']
  consider "n < n'" | "n = n'" "us < us'"
    using div_mod_less [OF assms, of day_us] by (auto simp: d d' day_us_def)
  then show ?thesis
  proof cases
    case 1
    then have "y \<le> y'" by (simp add: d d' year_of_day_mono)
    moreover have "m < m' \<or> m = m' \<and> dd < dd'" if "y = y'"
      using split_month_less [of "n - days_before_year y" "n' - days_before_year y" 1 "month_lengths y"] 1 md md' that by simp
    ultimately show ?thesis unfolding f by (auto simp: append_less_same_length)
  next
    case 2
    then have same: "y = y'" "m = m'" "dd = dd'" using md md' by (simp_all add: d d')
    have "[us div 1000000 div 60 div 60, us div 1000000 div 60 mod 60, us div 1000000 mod 60, us mod 1000000] <
        [us' div 1000000 div 60 div 60, us' div 1000000 div 60 mod 60, us' div 1000000 mod 60, us' mod 1000000]"
      by (rule clock_less [OF div_mod_less [OF 2(2)] div_mod_less div_mod_less]) simp_all
    then show ?thesis unfolding f same by (simp add: append_less_same_length)
  qed
qed

lemma fields_fit_iso:
  "fields_fit iso_layout [y, m, d, h, mi, s, us] \<longleftrightarrow> 0 \<le> y \<and> y < 10000 \<and> 0 \<le> m \<and> m < 100 \<and> 0 \<le> d \<and> d < 100 \<and>
     0 \<le> h \<and> h < 100 \<and> 0 \<le> mi \<and> mi < 100 \<and> 0 \<le> s \<and> s < 100 \<and> 0 \<le> us \<and> us < 1000000"
  by (auto simp: iso_layout_def)

lemma moment_of_clock_fields:
  assumes "1 \<le> y" "i < 12" "1 \<le> d" "d \<le> month_lengths y ! i" "h < 24" "mi < 60" "s < 60"
    and "n - days_before_year y = sum_list (take i (month_lengths y)) + d - 1"
  shows "moment_of_fields [y, 1 + int i, d, h, mi, s, us] =
    Some ((n - epoch_day) * day_us + (h * 3600000000 + mi * 60000000 + s * 1000000 + us))"
proof -
  have "nat (1 + int i - 1) = i" by simp
  moreover have "days_before_year y + sum_list (take i (month_lengths y)) + d - 1 - epoch_day = n - epoch_day"
    using assms(8) by simp
  ultimately show ?thesis using assms(1-7) by (simp add: moment_of_fields_def)
qed

lemma moment_fields_fit:
  assumes "representable t"
  shows "fields_fit iso_layout (moment_fields t) \<and> moment_of_fields (moment_fields t) = Some t"
proof -
  define n us y where d: "n = t div day_us + epoch_day" "us = t mod day_us" "y = year_of_day n"
  obtain m dd where md: "split_month 1 (month_lengths y) (n - days_before_year y) = (m, dd)" by fastforce
  note f = moment_fields_eq [OF d md]
  have yr: "days_before_year y \<le> n" "n < days_before_year (y + 1)" using year_of_day [of n] by (simp_all add: d)
  have n: "0 \<le> n" "n < days_before_year 10000" using assms by (simp_all add: representable_def d)
  have y: "1 \<le> y" "y < 10000"
  proof -
    have "\<not> y + 1 \<le> 1" using days_before_year_mono [of "y + 1" 1] yr n by (auto simp: days_before_year_def [of 1])
    moreover have "\<not> 10000 \<le> y" using days_before_year_mono [of 10000 y] yr n by auto
    ultimately show "1 \<le> y" "y < 10000" by simp_all
  qed
  have bound: "n - days_before_year y < sum_list (month_lengths y)"
    using yr(2) by (simp add: days_before_next_year sum_month_lengths split: if_splits)
  obtain i where i: "i < 12" "m = 1 + int i" "1 \<le> dd" "dd \<le> month_lengths y ! i"
    "n - days_before_year y = sum_list (take i (month_lengths y)) + dd - 1"
    using split_month_inverse [OF _ bound md] yr(1) by (auto simp: month_lengths_def)
  have us: "0 \<le> us" "us < 86400000000" by (simp_all add: d day_us_def)
  let ?q = "us div 1000000"
  have q: "0 \<le> ?q" "?q < 86400" using us by simp_all
  have h: "0 \<le> ?q div 60 div 60" "?q div 60 div 60 < 24" using q by simp_all
  have m60: "j mod 60 < 60 \<and> j mod 60 < 100" for j :: int using pos_mod_bound [of 60 j] by simp
  have parts: "?q div 60 div 60 * 3600000000 + ?q div 60 mod 60 * 60000000 + ?q mod 60 * 1000000 + us mod 1000000 = us"
    using mult_div_mod_eq [of 60 "?q div 60"] mult_div_mod_eq [of 60 ?q] mult_div_mod_eq [of 1000000 us] by linarith
  have "fields_fit iso_layout (moment_fields t)"
    unfolding f append.simps fields_fit_iso using y i month_length_bounds [OF i(1), of y] h m60 by simp
  moreover have "moment_of_fields (moment_fields t) =
      Some ((n - epoch_day) * day_us + (?q div 60 div 60 * 3600000000 + ?q div 60 mod 60 * 60000000 + ?q mod 60 * 1000000 + us mod 1000000))"
    unfolding f i(2) append.simps using moment_of_clock_fields [OF y(1) i(1,3,4) h(2) _ _ i(5)] m60 by simp
  moreover have "(n - epoch_day) * day_us + us = t" by (simp add: d)
  ultimately show ?thesis unfolding parts by simp
qed

text \<open>A timestamp written to the database reads back as the same moment, to the microsecond.\<close>

theorem from_iso_to_iso:
  assumes "representable t"
  shows "from_iso (to_iso t) = Some t"
  using moment_fields_fit [OF assms] by (simp add: from_iso_def to_iso_def parse_render)

text \<open>
  Stored timestamps sort as text exactly as the moments they stand for, which is what lets the database
  compare and minimize them as strings.
\<close>

theorem to_iso_order:
  assumes "representable a" "representable b"
  shows "to_iso a \<le> to_iso b \<longleftrightarrow> a \<le> b"
proof -
  have less: "to_iso s < to_iso t" if "representable s" "representable t" "s < t" for s t
    using that moment_fields_fit moment_fields_less by (simp add: to_iso_def render_less)
  show ?thesis using less [OF assms] less [OF assms(2,1)] by (cases a b rule: linorder_cases) auto
qed

lemma from_iso_to_iso_witness:
  "to_iso 1772323199000001 = ''2026-02-28T23:59:59.000001+00:00'' \<and> from_iso (to_iso 1772323199000001) = Some 1772323199000001"
proof -
  have "representable 1772323199000001" by (simp add: representable_def day_us_def epoch_day_def days_before_year_def)
  then have "from_iso (to_iso 1772323199000001) = Some 1772323199000001" by (rule from_iso_to_iso)
  moreover have "to_iso 1772323199000001 = ''2026-02-28T23:59:59.000001+00:00''" by code_simp
  ultimately show ?thesis by simp
qed

lemma to_iso_order_witness: "to_iso 999999 \<le> to_iso 1000000 \<and> \<not> to_iso 1000000 \<le> to_iso (- 1)"
proof -
  have r: "representable 999999" "representable 1000000" "representable (- 1)"
    by (simp_all add: representable_def day_us_def epoch_day_def days_before_year_def)
  show ?thesis using to_iso_order [OF r(1,2)] to_iso_order [OF r(2,3)] by simp
qed

end
