(* ===== verification/Storage_Rows.thy ===== *)
theory Storage_Rows
  imports Storage Clock
begin

text \<open>
  The rows under \<open>Storage\<close>: what \<open>storage.py\<close> writes into the columns of a table and how it
  reads a row back, the queries whose \<open>WHERE\<close>, \<open>ORDER BY\<close> and \<open>MIN\<close> work on the stored text
  of a timestamp, and the opening of the file. The other theories work on the records and
  times of \<open>Storage\<close>; the lemmas here are what entitles them to.

  A column is typed as the schema types it: an \<open>INTEGER\<close> or a \<open>TEXT\<close>, an option where it may
  be null. Reading answers None where a \<open>ValueError\<close> would be raised.
\<close>

section \<open>Columns\<close>

definition as_bool_column :: "int \<Rightarrow> bool" where
  "as_bool_column v = (v \<noteq> 0)"

definition optional_bool_column :: "int option \<Rightarrow> bool option" where
  "optional_bool_column v = (case v of None \<Rightarrow> None | Some i \<Rightarrow> Some (i \<noteq> 0))"

definition optional_time_column :: "string option \<Rightarrow> time option option" where
  "optional_time_column v = (case v of None \<Rightarrow> Some None | Some s \<Rightarrow> map_option Some (from_iso s))"

definition int_of_bool :: "bool \<Rightarrow> int" where
  "int_of_bool b = (if b then 1 else 0)"

fun event_kind_value :: "event_kind \<Rightarrow> string" where
  "event_kind_value InputEventKind = ''input-event''"
| "event_kind_value LatchSet = ''latch-set''"
| "event_kind_value LatchRetriggered = ''latch-retriggered''"
| "event_kind_value LatchCleared = ''latch-cleared''"
| "event_kind_value UnlatchIgnored = ''unlatch-ignored''"
| "event_kind_value OutputPushSucceeded = ''output-push-succeeded''"
| "event_kind_value OutputPushFailed = ''output-push-failed''"
| "event_kind_value Reconciled = ''reconciled''"
| "event_kind_value ConfigLoaded = ''config-loaded''"
| "event_kind_value RuleOrphaned = ''rule-orphaned''"
| "event_kind_value RuleAdopted = ''rule-adopted''"
| "event_kind_value Renamed = ''renamed''"
| "event_kind_value Purged = ''purged''"
| "event_kind_value DaemonStarted = ''daemon-started''"
| "event_kind_value DaemonStopped = ''daemon-stopped''"

definition event_kinds :: "event_kind list" where
  "event_kinds = [InputEventKind, LatchSet, LatchRetriggered, LatchCleared, UnlatchIgnored,
     OutputPushSucceeded, OutputPushFailed, Reconciled, ConfigLoaded, RuleOrphaned, RuleAdopted,
     Renamed, Purged, DaemonStarted, DaemonStopped]"

text \<open>\<open>EventKind(text)\<close> and \<open>HealthStatus(text)\<close>.\<close>

definition event_kind_of :: "string \<Rightarrow> event_kind option" where
  "event_kind_of s = find (\<lambda>k. event_kind_value k = s) event_kinds"

fun health_value :: "health_status \<Rightarrow> string" where
  "health_value HsUnknown = ''unknown''"
| "health_value HsStarting = ''starting''"
| "health_value HsOk = ''ok''"
| "health_value HsDegraded = ''degraded''"
| "health_value HsFailed = ''failed''"
| "health_value HsStopped = ''stopped''"

definition health_status_of :: "string \<Rightarrow> health_status option" where
  "health_status_of s = find (\<lambda>h. health_value h = s) [HsUnknown, HsStarting, HsOk, HsDegraded, HsFailed, HsStopped]"

section \<open>Rows\<close>

record latch_row =
  lw_rule_name :: string
  lw_state :: int
  lw_set_at :: "string option"
  lw_cleared_at :: "string option"
  lw_trigger_count :: int
  lw_last_cause :: "string option"
  lw_last_detail :: "string option"

record output_state_row =
  ow_instance_name :: string
  ow_last_applied :: "int option"
  ow_last_confirmed :: "int option"
  ow_last_sync_at :: "string option"

record pending_row =
  pw_instance_name :: string
  pw_target_value :: int
  pw_attempt_count :: int
  pw_next_attempt_at :: string
  pw_last_error :: "string option"

record health_row =
  hw_instance_name :: string
  hw_status :: string
  hw_detail :: string
  hw_updated_at :: string

record event_row =
  ew_id :: int
  ew_at :: string
  ew_kind :: string
  ew_instance_name :: "string option"
  ew_rule_name :: "string option"
  ew_detail :: string

text \<open>What the writing statements bind to their parameters.\<close>

definition latch_row_of :: "latch_record \<Rightarrow> latch_row" where
  "latch_row_of l = \<lparr>lw_rule_name = lr_rule l, lw_state = int_of_bool (lr_state l),
     lw_set_at = map_option to_iso (lr_set_at l), lw_cleared_at = map_option to_iso (lr_cleared_at l),
     lw_trigger_count = lr_trigger_count l, lw_last_cause = lr_last_cause l, lw_last_detail = lr_last_detail l\<rparr>"

definition output_state_row_of :: "output_state_record \<Rightarrow> output_state_row" where
  "output_state_row_of r = \<lparr>ow_instance_name = os_instance r,
     ow_last_applied = map_option int_of_bool (os_last_applied r),
     ow_last_confirmed = map_option int_of_bool (os_last_confirmed r),
     ow_last_sync_at = map_option to_iso (os_last_sync_at r)\<rparr>"

definition pending_row_of :: "pending_push \<Rightarrow> pending_row" where
  "pending_row_of p = \<lparr>pw_instance_name = pp_instance p, pw_target_value = int_of_bool (pp_target p),
     pw_attempt_count = pp_attempts p, pw_next_attempt_at = to_iso (pp_next_attempt_at p),
     pw_last_error = pp_last_error p\<rparr>"

definition health_row_of :: "health_record \<Rightarrow> health_row" where
  "health_row_of h = \<lparr>hw_instance_name = hr_instance h, hw_status = health_value (hr_status h),
     hw_detail = hr_detail h, hw_updated_at = to_iso (hr_updated_at h)\<rparr>"

definition event_row_of :: "event_log_entry \<Rightarrow> event_row" where
  "event_row_of e = \<lparr>ew_id = el_id e, ew_at = to_iso (el_at e), ew_kind = event_kind_value (el_kind e),
     ew_instance_name = el_instance e, ew_rule_name = el_rule e, ew_detail = el_detail e\<rparr>"

text \<open>The reading functions.\<close>

definition latch_from_row :: "latch_row \<Rightarrow> latch_record option" where
  "latch_from_row w =
     (case (optional_time_column (lw_set_at w), optional_time_column (lw_cleared_at w)) of
        (Some set_at, Some cleared_at) \<Rightarrow>
          Some \<lparr>lr_rule = lw_rule_name w, lr_state = as_bool_column (lw_state w), lr_set_at = set_at,
            lr_cleared_at = cleared_at, lr_trigger_count = lw_trigger_count w,
            lr_last_cause = lw_last_cause w, lr_last_detail = lw_last_detail w\<rparr>
      | _ \<Rightarrow> None)"

definition output_state_from_row :: "output_state_row \<Rightarrow> output_state_record option" where
  "output_state_from_row w =
     (case optional_time_column (ow_last_sync_at w) of
        None \<Rightarrow> None
      | Some t \<Rightarrow> Some \<lparr>os_instance = ow_instance_name w, os_last_applied = optional_bool_column (ow_last_applied w),
          os_last_confirmed = optional_bool_column (ow_last_confirmed w), os_last_sync_at = t\<rparr>)"

definition pending_push_from_row :: "pending_row \<Rightarrow> pending_push option" where
  "pending_push_from_row w =
     (case from_iso (pw_next_attempt_at w) of
        None \<Rightarrow> None
      | Some t \<Rightarrow> Some \<lparr>pp_instance = pw_instance_name w, pp_target = as_bool_column (pw_target_value w),
          pp_attempts = pw_attempt_count w, pp_next_attempt_at = t, pp_last_error = pw_last_error w\<rparr>)"

definition health_from_row :: "health_row \<Rightarrow> health_record option" where
  "health_from_row w =
     (case (health_status_of (hw_status w), from_iso (hw_updated_at w)) of
        (Some s, Some t) \<Rightarrow> Some \<lparr>hr_instance = hw_instance_name w, hr_status = s, hr_detail = hw_detail w,
          hr_updated_at = t\<rparr>
      | _ \<Rightarrow> None)"

definition event_from_row :: "event_row \<Rightarrow> event_log_entry option" where
  "event_from_row w =
     (case (from_iso (ew_at w), event_kind_of (ew_kind w)) of
        (Some t, Some k) \<Rightarrow> Some \<lparr>el_id = ew_id w, el_at = t, el_kind = k, el_instance = ew_instance_name w,
          el_rule = ew_rule_name w, el_detail = ew_detail w\<rparr>
      | _ \<Rightarrow> None)"

section \<open>Queries on stored timestamps\<close>

definition order_pending :: "pending_row list \<Rightarrow> pending_row list" where
  "order_pending ws = sort_key pw_next_attempt_at (sort_key pw_instance_name ws)"

definition select_pending :: "pending_row list \<Rightarrow> pending_push option list" where
  "select_pending ws = map pending_push_from_row (order_pending ws)"

definition select_pending_due :: "pending_row list \<Rightarrow> time \<Rightarrow> pending_push option list" where
  "select_pending_due ws moment =
     map pending_push_from_row (order_pending (filter (\<lambda>w. pw_next_attempt_at w \<le> to_iso moment) ws))"

text \<open>\<open>MIN\<close> is null on an empty table; the outer None is a text that does not parse.\<close>

definition select_soonest :: "pending_row list \<Rightarrow> time option option" where
  "select_soonest ws =
     (case ws of [] \<Rightarrow> Some None
      | _ \<Rightarrow> map_option Some (from_iso (Min (set (map pw_next_attempt_at ws)))))"

section \<open>The file\<close>

definition schema_version :: int where
  "schema_version = 1"

datatype db_file =
    NoSchema
  | Schema int db

text \<open>
  \<open>initialize\<close>: the tables are created in a file that has none, and a version this build does
  not speak is refused with a \<open>StorageError\<close> that names the path and both versions. The
  database that results is one of this version.
\<close>

definition initialize :: "string \<Rightarrow> db_file \<Rightarrow> string + db" where
  "initialize path f =
     (case f of
        NoSchema \<Rightarrow> Inr empty_db
      | Schema v d \<Rightarrow>
          if v \<noteq> schema_version
          then Inl (path @ '' has schema version '' @ string_of_int v @ '', but this build of '' @
                 ''noti-mapper speaks version '' @ string_of_int schema_version)
          else Inr d)"

section \<open>What is written reads back\<close>

definition times_of_latch :: "latch_record \<Rightarrow> time set" where
  "times_of_latch l = set_option (lr_set_at l) \<union> set_option (lr_cleared_at l)"

lemma bool_columns [simp]:
  "as_bool_column (int_of_bool b) = b" "optional_bool_column (map_option int_of_bool v) = v"
  by (cases b; simp add: as_bool_column_def int_of_bool_def)
    (cases v; simp add: optional_bool_column_def int_of_bool_def)

lemma optional_time_iso:
  "\<forall>t \<in> set_option v. representable t \<Longrightarrow> optional_time_column (map_option to_iso v) = Some v"
  by (cases v) (simp_all add: optional_time_column_def from_iso_to_iso)

lemma event_kind_of_value [simp]: "event_kind_of (event_kind_value k) = Some k"
  by (cases k) (simp_all add: event_kind_of_def event_kinds_def)

lemma health_status_of_value [simp]: "health_status_of (health_value h) = Some h"
  by (cases h) (simp_all add: health_status_of_def)

text \<open>
  C14. A record that is written reads back as itself: latches, output states, pending pushes,
  health reports and log entries, as long as their times are ones a \<open>datetime\<close> can hold.
\<close>

theorem rows_read_back:
  "((\<forall>t \<in> times_of_latch l. representable t) \<longrightarrow> latch_from_row (latch_row_of l) = Some l) \<and>
   ((\<forall>t \<in> set_option (os_last_sync_at r). representable t) \<longrightarrow> output_state_from_row (output_state_row_of r) = Some r) \<and>
   (representable (pp_next_attempt_at p) \<longrightarrow> pending_push_from_row (pending_row_of p) = Some p) \<and>
   (representable (hr_updated_at h) \<longrightarrow> health_from_row (health_row_of h) = Some h) \<and>
   (representable (el_at e) \<longrightarrow> event_from_row (event_row_of e) = Some e)"
  by (simp add: latch_from_row_def latch_row_of_def times_of_latch_def optional_time_iso
      output_state_from_row_def output_state_row_of_def pending_push_from_row_def pending_row_of_def
      health_from_row_def health_row_of_def event_from_row_def event_row_of_def from_iso_to_iso)

section \<open>Comparing texts is comparing moments\<close>

lemma insort_key_order_cong:
  "\<forall>y \<in> set ys. (f x \<le> f y) = (g x \<le> g y) \<Longrightarrow> insort_key f x ys = insort_key g x ys"
  by (induction ys) auto

lemma sort_key_order_cong:
  "\<forall>x \<in> set xs. \<forall>y \<in> set xs. (f x \<le> f y) = (g x \<le> g y) \<Longrightarrow> sort_key f xs = sort_key g xs"
proof (induction xs)
  case Nil
  then show ?case by simp
next
  case (Cons x xs)
  then have "sort_key f xs = sort_key g xs" by simp
  moreover have "insort_key f x (sort_key g xs) = insort_key g x (sort_key g xs)"
    using Cons.prems by (intro insort_key_order_cong) simp
  ultimately show ?case by simp
qed

lemma sort_key_map: "sort_key f (map h xs) = map h (sort_key (\<lambda>a. f (h a)) xs)"
proof -
  have ins: "insort_key f (h x) (map h ys) = map h (insort_key (\<lambda>a. f (h a)) x ys)" for x ys
    by (induction ys) auto
  show ?thesis by (induction xs) (simp_all add: ins)
qed

text \<open>The rows of the table of pending pushes, in the order they were first inserted.\<close>

definition stored_pending :: "db \<Rightarrow> pending_row list" where
  "stored_pending d = map (pending_row_of \<circ> snd) (db_pending d)"

definition pending_times_ok :: "db \<Rightarrow> bool" where
  "pending_times_ok d \<longleftrightarrow> (\<forall>q \<in> set (db_pending d). representable (pp_next_attempt_at (snd q)))"

lemma pending_keyed:
  assumes "db_ok d" "q \<in> set (db_pending d)"
  shows "pp_instance (snd q) = fst q"
proof -
  have "dict_ok (db_pending d)" and key: "\<And>i p. pending_push_of d i = Some p \<Longrightarrow> pp_instance p = i"
    using assms(1) by (simp_all add: db_ok_def)
  with assms(2) show ?thesis
    using key [of "fst q" "snd q"] dict_get_mem [of "db_pending d" "fst q" "snd q"]
    by (simp add: pending_push_of_def)
qed

lemma order_stored_pending:
  assumes "db_ok d" "pending_times_ok d"
  shows "order_pending (stored_pending d) = map pending_row_of (pending_pushes d)"
proof -
  let ?D = "db_pending d"
  have times: "\<forall>q \<in> set ?D. representable (pp_next_attempt_at (snd q))"
    using assms(2) by (simp add: pending_times_ok_def)
  have 1: "sort_key (\<lambda>q. pw_instance_name (pending_row_of (snd q))) ?D = sort_key fst ?D"
    by (rule sort_key_order_cong) (simp add: pending_row_of_def pending_keyed [OF assms(1)])
  have 2: "sort_key (\<lambda>q. pw_next_attempt_at (pending_row_of (snd q))) (sort_key fst ?D) =
      sort_key (\<lambda>q. pp_next_attempt_at (snd q)) (sort_key fst ?D)"
    using times by (intro sort_key_order_cong) (simp add: pending_row_of_def to_iso_order)
  show ?thesis
    by (simp add: order_pending_def stored_pending_def pending_pushes_def sort_key_map comp_def 1 2)
qed

lemma read_pending:
  assumes "pending_times_ok d"
  shows "\<forall>p \<in> set (pending_pushes d). pending_push_from_row (pending_row_of p) = Some p"
  using assms by (auto simp: pending_pushes_def pending_times_ok_def pending_row_of_def
      pending_push_from_row_def from_iso_to_iso)

lemma Min_image_mono:
  fixes f :: "'a::linorder \<Rightarrow> 'b::linorder"
  assumes "finite A" "A \<noteq> {}" "\<And>x y. x \<in> A \<Longrightarrow> y \<in> A \<Longrightarrow> (f x \<le> f y) = (x \<le> y)"
  shows "Min (f ` A) = f (Min A)"
proof (rule Min_eqI)
  show "finite (f ` A)" using assms(1) by simp
  show "f (Min A) \<in> f ` A" using assms(1,2) by simp
  show "f (Min A) \<le> y" if "y \<in> f ` A" for y
    using that assms(1,2) assms(3) [OF Min_in [OF assms(1,2)]] by (auto intro: Min_le)
qed

lemma soonest_stored:
  assumes "pending_times_ok d"
  shows "select_soonest (stored_pending d) = Some (earliest_pending_attempt d)"
proof (cases "db_pending d = []")
  case True
  then show ?thesis by (simp add: select_soonest_def stored_pending_def earliest_pending_attempt_def)
next
  case False
  define A where "A = set (map (pp_next_attempt_at \<circ> snd) (db_pending d))"
  have A: "finite A" "A \<noteq> {}" "\<And>t. t \<in> A \<Longrightarrow> representable t"
    using False assms by (auto simp: A_def pending_times_ok_def)
  have "set (map pw_next_attempt_at (stored_pending d)) = to_iso ` A"
    by (auto simp: stored_pending_def A_def pending_row_of_def image_image)
  moreover have "Min (to_iso ` A) = to_iso (Min A)"
    by (rule Min_image_mono [OF A(1,2)]) (simp add: to_iso_order A(3))
  moreover have "representable (Min A)" using A by (simp add: Min_in)
  ultimately have "select_soonest (stored_pending d) = Some (Some (Min A))"
    using False by (cases "stored_pending d") (simp_all add: select_soonest_def from_iso_to_iso, simp add: stored_pending_def)
  moreover have "earliest_pending_attempt d = Some (Min A)"
    using False by (cases "db_pending d") (simp_all add: earliest_pending_attempt_def A_def)
  ultimately show ?thesis by simp
qed

text \<open>
  C13. The queries over the stored texts answer what the operations on times answer: the pending
  pushes in the order of their moments, those that are due, and the soonest moment. It is
  the fixed width of the stored text that makes this so.
\<close>

theorem pending_queries_refine:
  assumes "db_ok d" "pending_times_ok d" "representable moment"
  shows "select_pending (stored_pending d) = map Some (pending_pushes d) \<and>
    select_pending_due (stored_pending d) moment = map Some (pending_pushes_due d moment) \<and>
    select_soonest (stored_pending d) = Some (earliest_pending_attempt d)"
proof (intro conjI)
  note rd = read_pending [OF assms(2)]
  show "select_pending (stored_pending d) = map Some (pending_pushes d)"
    using rd by (simp add: select_pending_def order_stored_pending [OF assms(1,2)])
  have "order_pending (filter (\<lambda>w. pw_next_attempt_at w \<le> to_iso moment) (stored_pending d)) =
      filter (\<lambda>w. pw_next_attempt_at w \<le> to_iso moment) (map pending_row_of (pending_pushes d))"
    by (simp add: order_pending_def filter_sort order_stored_pending [OF assms(1,2), unfolded order_pending_def] flip: filter_sort)
  also have "\<dots> = map pending_row_of (pending_pushes_due d moment)"
  proof -
    have "\<forall>p \<in> set (pending_pushes d). representable (pp_next_attempt_at p)"
      using assms(2) by (auto simp: pending_pushes_def pending_times_ok_def)
    then show ?thesis
      by (auto simp: filter_map pending_pushes_due_def comp_def pending_row_of_def to_iso_order assms(3)
          intro!: filter_cong arg_cong [of _ _ "map pending_row_of"])
  qed
  finally show "select_pending_due (stored_pending d) moment = map Some (pending_pushes_due d moment)"
    using rd by (simp add: select_pending_due_def pending_pushes_due_def)
  show "select_soonest (stored_pending d) = Some (earliest_pending_attempt d)"
    by (rule soonest_stored [OF assms(2)])
qed

section \<open>Examples\<close>

lemma representable_examples: "representable 0" "representable 1000000" "representable 1000001"
  by (simp_all add: representable_def day_us_def epoch_day_def days_before_year_def)

lemma rows_read_back_witness:
  "latch_from_row (latch_row_of (fresh_latch ''Porch''\<lparr>lr_state := True, lr_set_at := Some 1000001\<rparr>)) =
     Some (fresh_latch ''Porch''\<lparr>lr_state := True, lr_set_at := Some 1000001\<rparr>) \<and>
   event_from_row (event_row_of \<lparr>el_id = 1, el_at = 0, el_kind = Purged, el_instance = None, el_rule = None, el_detail = []\<rparr>) =
     Some \<lparr>el_id = 1, el_at = 0, el_kind = Purged, el_instance = None, el_rule = None, el_detail = []\<rparr>"
  using rows_read_back [of "fresh_latch ''Porch''\<lparr>lr_state := True, lr_set_at := Some 1000001\<rparr>" undefined undefined undefined
      "\<lparr>el_id = 1, el_at = 0, el_kind = Purged, el_instance = None, el_rule = None, el_detail = []\<rparr>"]
    representable_examples
  by (simp add: times_of_latch_def fresh_latch_def)

definition example_pending :: "name \<Rightarrow> time \<Rightarrow> pending_push" where
  "example_pending i t = \<lparr>pp_instance = i, pp_target = True, pp_attempts = 1, pp_next_attempt_at = t, pp_last_error = None\<rparr>"

definition example_queue :: db where
  "example_queue = write_pending_push (write_pending_push empty_db (example_pending ''b'' 1000001)) (example_pending ''a'' 1000000)"

lemma pending_queries_refine_witness:
  "select_pending (stored_pending example_queue) = [Some (example_pending ''a'' 1000000), Some (example_pending ''b'' 1000001)] \<and>
   select_pending_due (stored_pending example_queue) 1000000 = [Some (example_pending ''a'' 1000000)] \<and>
   select_soonest (stored_pending example_queue) = Some (Some 1000000)"
proof -
  have q: "db_pending example_queue = [(''b'', example_pending ''b'' 1000001), (''a'', example_pending ''a'' 1000000)]"
    by (simp add: example_queue_def write_pending_push_def empty_db_def example_pending_def)
  have "db_ok example_queue" by (simp add: example_queue_def db_ok_empty)
  moreover have "pending_times_ok example_queue"
    by (simp add: pending_times_ok_def q example_pending_def representable_examples)
  moreover have "pending_pushes example_queue = [example_pending ''a'' 1000000, example_pending ''b'' 1000001]"
    by (simp add: pending_pushes_def q example_pending_def)
  moreover have "earliest_pending_attempt example_queue = Some 1000000"
    by (simp add: earliest_pending_attempt_def q example_pending_def)
  ultimately show ?thesis
    using pending_queries_refine [of example_queue 1000000] representable_examples
    by (simp add: pending_pushes_due_def) (simp add: example_pending_def)
qed

end
