(* ===== verification/Logging.thy ===== *)
theory Logging
  imports Prelude
begin

text \<open>
  \<open>logging_setup.py\<close>: the text of a log line and the meaning of \<open>--log-level\<close>. A record is
  given by its rendered message, its attributes with the \<open>repr\<close> of each, and its traceback
  where it has one; the standard library renders those.
\<close>

section \<open>Levels\<close>

datatype syslog_priority = PrioError | PrioWarning | PrioNotice | PrioInfo | PrioDebug

fun priority_value :: "syslog_priority \<Rightarrow> int" where
  "priority_value PrioError = 3"
| "priority_value PrioWarning = 4"
| "priority_value PrioNotice = 5"
| "priority_value PrioInfo = 6"
| "priority_value PrioDebug = 7"

definition priority_for :: "int \<Rightarrow> syslog_priority" where
  "priority_for level =
     (if level \<ge> 40 then PrioError else if level \<ge> 30 then PrioWarning else if level \<ge> 20 then PrioInfo
      else PrioDebug)"

text \<open>\<open>logging.getLevelNamesMapping()\<close>.\<close>

definition level_names :: "(string, int) dict" where
  "level_names = [(''CRITICAL'', 50), (''FATAL'', 50), (''ERROR'', 40), (''WARN'', 30), (''WARNING'', 30),
     (''INFO'', 20), (''DEBUG'', 10), (''NOTSET'', 0)]"

text \<open>
  \<open>str.upper()\<close> as code points: the micro sign, sharp s and y with diaeresis leave the range
  below 256 or grow, every other letter moves 32 down.
\<close>

definition upper_char :: "char \<Rightarrow> nat list" where
  "upper_char c = (let n = of_char c in
     if (97 \<le> n \<and> n \<le> 122) \<or> (224 \<le> n \<and> n \<le> 254 \<and> n \<noteq> 247) then [n - 32]
     else if n = 181 then [924] else if n = 223 then [83, 83] else if n = 255 then [376] else [n])"

definition upper :: "string \<Rightarrow> nat list" where
  "upper s = concat (map upper_char s)"

text \<open>None is the \<open>ValueError\<close> for a name that is no level.\<close>

definition level_from_name :: "string \<Rightarrow> int option" where
  "level_from_name n = map_option snd (find (\<lambda>(k, _). map of_char k = upper n) level_names)"

section \<open>Lines\<close>

definition standard_record_attributes :: "string list" where
  "standard_record_attributes = [''args'', ''asctime'', ''created'', ''exc_info'', ''exc_text'', ''filename'',
     ''funcName'', ''levelname'', ''levelno'', ''lineno'', ''message'', ''module'', ''msecs'', ''msg'', ''name'',
     ''pathname'', ''process'', ''processName'', ''relativeCreated'', ''stack_info'', ''taskName'', ''thread'',
     ''threadName'']"

record log_record =
  rec_message :: string
  rec_level :: int
  rec_level_name :: string
  rec_logger :: string
  rec_traceback :: "string option"
  rec_attributes :: "(string, string) dict"

definition is_extra :: "string \<Rightarrow> bool" where
  "is_extra key \<longleftrightarrow> \<not> (key \<in> set standard_record_attributes \<or> take 1 key = ''_'')"

definition extras_of :: "log_record \<Rightarrow> string" where
  "extras_of r = join '' '' (map (\<lambda>key. key @ ''='' @ the (dict_get (rec_attributes r) key))
     (filter is_extra (sort (dict_keys (rec_attributes r)))))"

definition pad_right :: "nat \<Rightarrow> string \<Rightarrow> string" where
  "pad_right w s = s @ replicate (w - length s) CHR '' ''"

definition format_record :: "bool \<Rightarrow> log_record \<Rightarrow> string" where
  "format_record journal r =
     (let extras = extras_of r;
          m1 = (if extras \<noteq> [] then rec_message r @ '' '' @ extras else rec_message r);
          m2 = (case rec_traceback r of None \<Rightarrow> m1 | Some text \<Rightarrow> m1 @ [CHR 0x0A] @ text) in
      if journal then ''<'' @ string_of_int (priority_value (priority_for (rec_level r))) @ ''>'' @ m2
      else pad_right 8 (rec_level_name r) @ '' '' @ rec_logger r @ '': '' @ m2)"

section \<open>What the line is good for\<close>

lemma priority_antitone: "a \<le> b \<Longrightarrow> priority_value (priority_for b) \<le> priority_value (priority_for a)"
  by (auto simp: priority_for_def)

lemma level_names_distinct: "distinct (map fst level_names)"
  by (simp add: level_names_def)

lemma level_from_name_examples:
  "level_from_name ''warning'' = Some 30" "level_from_name ''Info'' = Some 20" "level_from_name ''loud'' = None"
  by code_simp+

text \<open>Every level the command line accepts is filed by journald under a priority of its own kind.\<close>

lemma level_from_name_range: "level_from_name n = Some l \<Longrightarrow> l \<in> {0, 10, 20, 30, 40, 50}"
  by (auto simp: level_from_name_def level_names_def split: if_splits)

end
