(* ===== verification/Cli.thy ===== *)
theory Cli
  imports Runtime_Properties Storage_Rows Logging
begin

text \<open>
  \<open>cli.py\<close>: the commands over the modelled operations. A command prints lines, ends with an
  exit status or an exception nothing catches, and leaves the state file as it is then. The
  text of an error that the other theories keep as data is printed as that data; argument
  parsing is \<open>argparse\<close>'s, so a command starts from the parsed arguments.
\<close>

section \<open>Endings\<close>

definition exit_ok :: int where "exit_ok = 0"
definition exit_failure :: int where "exit_failure = 1"
definition exit_config_error :: int where "exit_config_error = 2"

datatype printed =
    Out string
  | Err string
  | ErrNames "name_problem list"
  | ErrSecrets secrets_error
  | ErrConfig "config_error list"
  | ErrPlugin load_failure

datatype ending = Exits int | Uncaught string

section \<open>Paths\<close>

record arguments =
  ag_config_dir :: "string option"
  ag_secrets :: "string option"
  ag_state_dir :: "string option"
  ag_plugin_directories :: "string list option"
  ag_log_level :: string

record paths =
  pa_config_directory :: string
  pa_secrets_path :: string
  pa_state_directory :: string
  pa_plugin_directories :: "string list"

definition default_config_directory :: string where "default_config_directory = ''/etc/noti-mapper.d''"
definition default_secrets_path :: string where "default_secrets_path = ''/etc/noti-mapper/secrets.json''"
definition default_state_directory :: string where "default_state_directory = ''/var/lib/noti-mapper''"

text \<open>An empty environment variable counts as unset.\<close>

definition directory_from :: "string option \<Rightarrow> string option \<Rightarrow> string \<Rightarrow> string" where
  "directory_from given from_environment dflt =
     (case given of Some d \<Rightarrow> d
      | None \<Rightarrow> (case from_environment of None \<Rightarrow> dflt | Some e \<Rightarrow> if e \<noteq> [] then e else dflt))"

definition paths_from :: "(string \<Rightarrow> string option) \<Rightarrow> string list \<Rightarrow> arguments \<Rightarrow> paths" where
  "paths_from environ search_path a =
     \<lparr>pa_config_directory = directory_from (ag_config_dir a) (environ ''CONFIGURATION_DIRECTORY'') default_config_directory,
      pa_secrets_path = (case ag_secrets a of None \<Rightarrow> default_secrets_path | Some p \<Rightarrow> p),
      pa_state_directory = directory_from (ag_state_dir a) (environ ''STATE_DIRECTORY'') default_state_directory,
      pa_plugin_directories = (case ag_plugin_directories a of None \<Rightarrow> search_path | Some ds \<Rightarrow> ds)\<rparr>"

section \<open>run\<close>

definition exn_name :: "exn \<Rightarrow> string" where
  "exn_name x = (case x of IntegrityError \<Rightarrow> ''IntegrityError'' | OverflowError \<Rightarrow> ''OverflowError'' | _ \<Rightarrow> ''StorageError'')"

text \<open>
  \<open>Daemon.start\<close> as the command runs it: the configuration is loaded before the database is
  opened. A \<open>StartupError\<close> and a \<open>StorageError\<close> are caught.
\<close>

definition start_command :: "env \<Rightarrow> installation \<Rightarrow> discovery \<Rightarrow> string \<Rightarrow> db_file \<Rightarrow> ending + daemon" where
  "start_command env inst found path f =
     (case load_installation inst (known_plugins found) of
        Inl (Escaped e) \<Rightarrow> Inl (Uncaught e)
      | Inl _ \<Rightarrow> Inl (Exits exit_config_error)
      | Inr _ \<Rightarrow>
          (case initialize path f of
             Inl _ \<Rightarrow> Inl (Exits exit_failure)
           | Inr d \<Rightarrow>
               (case start_daemon env inst found d of
                  StartFailed _ \<Rightarrow> Inl (Exits exit_config_error)
                | StartRaises x \<Rightarrow> Inl (Uncaught (exn_name x))
                | Started dm \<Rightarrow> Inr dm)))"

definition run_command ::
  "env \<Rightarrow> installation \<Rightarrow> discovery \<Rightarrow> string \<Rightarrow> db_file \<Rightarrow> env \<Rightarrow> (core_message list \<times> env) list \<Rightarrow> ending option" where
  "run_command env inst found path f stop_env its =
     (case start_command env inst found path f of
        Inl e \<Rightarrow> Some e
      | Inr dm \<Rightarrow>
          (case run_loop stop_env its (dm_engine dm) of
             None \<Rightarrow> None
           | Some (Inl (x, _)) \<Rightarrow> Some (Uncaught (exn_name x))
           | Some (Inr _) \<Rightarrow> Some (Exits exit_ok)))"

section \<open>validate\<close>

definition validate_command :: "installation \<Rightarrow> discovery \<Rightarrow> printed list \<times> ending" where
  "validate_command inst found =
     (let warnings = map ErrPlugin (ds_failures found) in
      case load_secrets (in_loads inst) (in_secrets_path inst) (in_secrets inst) of
        Inl e \<Rightarrow> (warnings @ [ErrSecrets e], Exits exit_config_error)
      | Inr store \<Rightarrow>
          (case load_configuration (\<lambda>f. read_object (in_loads inst) (in_contents inst f)) (in_directory inst)
                  (in_found inst) store (known_plugins found) of
             Rejected es \<Rightarrow> (warnings @ [ErrConfig es], Exits exit_config_error)
           | LoadRaises e \<Rightarrow> (warnings, Uncaught e)
           | Loaded c \<Rightarrow>
               (warnings @ [Out (''configuration is valid: '' @ string_of_nat (length (c_instances c)) @ '' instances, '' @
                  string_of_nat (length (c_rules c)) @ '' rules, from '' @ string_of_nat (length (c_files c)) @ '' file(s)'')],
                Exits exit_ok)))"

section \<open>Reaching the state database\<close>

datatype open_answer = Opens | NotFound | NotPermitted | OtherError string

definition database_problem :: "string \<Rightarrow> open_answer \<Rightarrow> string option" where
  "database_problem path a =
     (case a of
        Opens \<Rightarrow> None
      | NotFound \<Rightarrow> Some (''no state database at '' @ path @ ''; has the daemon ever run?'')
      | NotPermitted \<Rightarrow> Some (''cannot read '' @ path @ '': Permission denied. The state directory belongs '' @
          ''to the user the daemon runs as; try again with sudo.'')
      | OtherError strerror \<Rightarrow> Some (''cannot read '' @ path @ '': '' @ strerror))"

definition prefixed :: "string \<Rightarrow> string" where
  "prefixed text = ''noti-mapper: '' @ text"

text \<open>The texts of the \<open>StorageError\<close>s the operations raise; the other exceptions are not caught.\<close>

definition storage_error :: "string \<Rightarrow> exn \<Rightarrow> string option" where
  "storage_error path x =
     (case x of
        NoSuchRule n \<Rightarrow> Some (''no rule named '' @ py_repr n @ '' in '' @ path)
      | RuleExists n \<Rightarrow> Some (''a rule named '' @ py_repr n @ '' already exists'')
      | _ \<Rightarrow> None)"

section \<open>status\<close>

text \<open>
  Durations. \<open>:.1f\<close> prints the double nearest to the quotient, so the two divisions round to
  53 significant bits first; \<open>:.0f\<close> of a quotient below 60 is the same with and without.
\<close>

definition to_double :: "rat \<Rightarrow> rat" where
  "to_double r = (let e = 53 - bit_length (nat \<lfloor>r\<rfloor>) in of_int (round_half_even (r * 2 ^ e)) / 2 ^ e)"

definition fmt1f :: "rat \<Rightarrow> string" where
  "fmt1f r = (let n = round_half_even (r * 10) in string_of_int (n div 10) @ ''.'' @ string_of_int (n mod 10))"

definition duration :: "seconds \<Rightarrow> string" where
  "duration s =
     (if s < 60 then fmt0f s @ ''s''
      else if s < 3600 then fmt0f (s / 60) @ ''m''
      else if s < 86400 then fmt1f (to_double (to_double s / 3600)) @ ''h''
      else fmt1f (to_double (to_double s / 86400)) @ ''d'')"

definition ago :: "time \<Rightarrow> time \<Rightarrow> string" where
  "ago moment now =
     (let s = seconds_between now moment in
      if s < 0 then ''in '' @ duration (- s) else duration s @ '' ago'')"

definition or_dash :: "string option \<Rightarrow> string" where
  "or_dash v = (case v of None \<Rightarrow> ''-'' | Some s \<Rightarrow> if s = [] then ''-'' else s)"

definition detail_text :: "string \<Rightarrow> string" where
  "detail_text s = (if s = [] then [] else ''  '' @ s)"

definition none_if_empty :: "printed list \<Rightarrow> string \<Rightarrow> printed list" where
  "none_if_empty ls text = (if ls = [] then [Out text] else ls)"

definition latch_line :: "(name, rule_record) dict \<Rightarrow> time \<Rightarrow> latch_record \<Rightarrow> printed" where
  "latch_line rule_dict now l =
     (let rule = dict_get rule_dict (lr_rule l);
          orphaned = (case rule of Some r \<Rightarrow> if rr_orphaned r then '' [orphaned]'' else [] | None \<Rightarrow> []);
          disabled = (case rule of Some r \<Rightarrow> if \<not> rr_enabled r then '' [disabled]'' else [] | None \<Rightarrow> []);
          state = (if lr_state l then ''SET '' else ''clear'');
          when = (if lr_state l then lr_set_at l else lr_cleared_at l);
          stamp = (case when of None \<Rightarrow> ''never'' | Some t \<Rightarrow> ago t now) in
      Out (''  '' @ state @ ''  '' @ py_repr (lr_rule l) @ orphaned @ disabled @ ''  triggers='' @
        string_of_int (lr_trigger_count l) @ ''  '' @ stamp @ ''  cause='' @ or_dash (lr_last_cause l)))"

text \<open>The two sides of an output line, and whether they differ.\<close>

definition applied_text :: "db \<Rightarrow> name \<Rightarrow> string" where
  "applied_text d i =
     (case output_state d i of None \<Rightarrow> ''unknown''
      | Some r \<Rightarrow> (case os_last_applied r of None \<Rightarrow> ''unknown'' | Some b \<Rightarrow> py_bool b))"

definition desired_text :: "rule_graph option \<Rightarrow> db \<Rightarrow> name \<Rightarrow> string" where
  "desired_text g d i =
     (case g of None \<Rightarrow> ''?''
      | Some g \<Rightarrow> py_bool (desired_output_state g i (map (\<lambda>l. (lr_rule l, lr_state l)) (latches d))))"

definition out_of_sync :: "rule_graph option \<Rightarrow> db \<Rightarrow> name \<Rightarrow> bool" where
  "out_of_sync g d i \<longleftrightarrow> desired_text g d i \<notin> {applied_text d i, ''?''}"

definition output_line :: "rule_graph option \<Rightarrow> db \<Rightarrow> time \<Rightarrow> name \<Rightarrow> printed" where
  "output_line g d now i =
     (let synced = (case output_state d i of None \<Rightarrow> ''never''
              | Some r \<Rightarrow> (case os_last_sync_at r of None \<Rightarrow> ''never'' | Some t \<Rightarrow> ago t now));
          agreement = (if out_of_sync g d i then ''   <-- out of sync'' else []) in
      Out (''  '' @ py_repr i @ ''  desired='' @ desired_text g d i @ ''  applied='' @ applied_text d i @
        ''  synced='' @ synced @ agreement))"

definition status_outputs :: "rule_graph option \<Rightarrow> db \<Rightarrow> name list" where
  "status_outputs g d =
     (case g of None \<Rightarrow> sort (map os_instance (output_states d)) | Some g \<Rightarrow> output_names g)"

definition push_line :: "time \<Rightarrow> pending_push \<Rightarrow> printed" where
  "push_line now p =
     Out (''  '' @ py_repr (pp_instance p) @ ''  target='' @ py_bool (pp_target p) @ ''  attempts='' @
       string_of_int (pp_attempts p) @ ''  next='' @ ago (pp_next_attempt_at p) now @ ''  error='' @
       or_dash (pp_last_error p))"

definition health_line :: "time \<Rightarrow> health_record \<Rightarrow> printed" where
  "health_line now h =
     Out (''  '' @ py_repr (hr_instance h) @ ''  '' @ health_value (hr_status h) @ ''  ('' @
       ago (hr_updated_at h) now @ '')'' @ detail_text (hr_detail h))"

definition event_line :: "time \<Rightarrow> event_log_entry \<Rightarrow> printed" where
  "event_line now e =
     (let subject = (case el_rule e of Some r \<Rightarrow> if r = [] then or_dash (el_instance e) else r
            | None \<Rightarrow> or_dash (el_instance e)) in
      Out (''  '' @ ago (el_at e) now @ ''  '' @ event_kind_value (el_kind e) @ ''  '' @ subject @ detail_text (el_detail e)))"

definition newline :: string where
  "newline = [CHR 0x0A]"

definition print_status :: "db \<Rightarrow> configuration option \<Rightarrow> time \<Rightarrow> printed list" where
  "print_status d c now =
     (let g = map_option graph_from_configuration c;
          records = rules d True;
          rule_dict = map (\<lambda>r. (rr_name r, r)) records;
          orphans = map rr_name (filter rr_orphaned records) in
      (if c = None
       then [Out (''warning: the configuration does not currently load, so desired output '' @
              ''state cannot be computed. Run '' @ [CHR 0x27] @ ''noti-mapper validate'' @ [CHR 0x27] @ '' for the errors.'' @ newline)]
       else []) @
      [Out ''Latches''] @ none_if_empty (map (latch_line rule_dict now) (latches d)) ''  (none)'' @
      (if orphans \<noteq> []
       then Out (newline @ ''Orphaned rules (no longer in configuration; '' @ [CHR 0x27] @ ''noti-mapper purge'' @ [CHR 0x27] @ '' clears them)'') #
            map (\<lambda>n. Out (''  '' @ py_repr n)) orphans
       else []) @
      [Out (newline @ ''Outputs'')] @ none_if_empty (map (output_line g d now) (status_outputs g d)) ''  (none)'' @
      [Out (newline @ ''Pending retries'')] @ none_if_empty (map (push_line now) (pending_pushes d)) ''  (none)'' @
      [Out (newline @ ''Plugin health'')] @ none_if_empty (map (health_line now) (health_records d)) ''  (none reported)'' @
      [Out (newline @ ''Recent events'')] @ none_if_empty (map (event_line now) (recent_events d 10)) ''  (none)'')"

text \<open>\<open>_configuration_or_none\<close>: unreadable secrets count as none, an exception of the loader is not caught.\<close>

definition configuration_or_none :: "installation \<Rightarrow> discovery \<Rightarrow> string + configuration option" where
  "configuration_or_none inst found =
     (let store = (case load_secrets (in_loads inst) (in_secrets_path inst) (in_secrets inst) of
            Inl _ \<Rightarrow> empty_store (in_secrets_path inst) | Inr store \<Rightarrow> store) in
      case load_configuration (\<lambda>f. read_object (in_loads inst) (in_contents inst f)) (in_directory inst)
             (in_found inst) store (known_plugins found) of
        Loaded c \<Rightarrow> Inr (Some c) | Rejected _ \<Rightarrow> Inr None | LoadRaises e \<Rightarrow> Inl e)"

definition status_command ::
  "installation \<Rightarrow> discovery \<Rightarrow> string \<Rightarrow> time \<Rightarrow> open_answer \<Rightarrow> db_file \<Rightarrow> printed list \<times> ending \<times> db_file" where
  "status_command inst found path now opened f =
     (case database_problem path opened of
        Some problem \<Rightarrow> ([Out (prefixed problem)], Exits exit_failure, f)
      | None \<Rightarrow>
          (case initialize path f of
             Inl e \<Rightarrow> ([Err (prefixed e)], Exits exit_failure, f)
           | Inr d \<Rightarrow>
               (case configuration_or_none inst found of
                  Inl e \<Rightarrow> ([], Uncaught e, Schema schema_version d)
                | Inr c \<Rightarrow> (print_status d c now, Exits exit_ok, Schema schema_version d))))"

section \<open>rename\<close>

definition default_max_rows :: int where
  "default_max_rows = 10000"

definition rename_command ::
  "string \<Rightarrow> time \<Rightarrow> open_answer \<Rightarrow> db_file \<Rightarrow> string \<Rightarrow> string \<Rightarrow> printed list \<times> ending \<times> db_file" where
  "rename_command path now opened f old_name new_name =
     (case validate_name old_name of
        Inl ps \<Rightarrow> ([ErrNames ps], Exits exit_failure, f)
      | Inr old \<Rightarrow>
      (case validate_name new_name of
        Inl ps \<Rightarrow> ([ErrNames ps], Exits exit_failure, f)
      | Inr new \<Rightarrow>
      (case database_problem path opened of
        Some problem \<Rightarrow> ([Err (prefixed problem)], Exits exit_failure, f)
      | None \<Rightarrow>
      (case initialize path f of
        Inl e \<Rightarrow> ([Err (prefixed e)], Exits exit_failure, f)
      | Inr d \<Rightarrow>
      (case rename_rule d old new of
        Inl x \<Rightarrow>
          (case storage_error path x of
             Some e \<Rightarrow> ([Err (prefixed e)], Exits exit_failure, Schema schema_version d)
           | None \<Rightarrow> ([], Uncaught (exn_name x), Schema schema_version d))
      | Inr d' \<Rightarrow>
          ([Out (''renamed rule '' @ py_repr old @ '' to '' @ py_repr new @ ''; its latch moved with it.''),
            Out ''Update the configuration to match before starting the daemon.''],
           Exits exit_ok,
           Schema schema_version (append_event d' now Renamed None (Some new) (''renamed from '' @ py_repr old)
             default_max_rows)))))))"

section \<open>purge\<close>

datatype terminal = NoTerminal | Answer string | EndOfInput

definition confirm :: "terminal \<Rightarrow> printed list \<times> (string + bool)" where
  "confirm t =
     (case t of
        NoTerminal \<Rightarrow> ([Err ''noti-mapper: not a terminal; re-run with --yes to confirm.''], Inr False)
      | EndOfInput \<Rightarrow> ([Out ''Proceed? [y/N] ''], Inl ''EOFError'')
      | Answer text \<Rightarrow> ([Out ''Proceed? [y/N] ''], Inr (lower (py_strip text) \<in> {''y'', ''yes''})))"

definition purge_listing :: "name list \<Rightarrow> name list \<Rightarrow> printed list" where
  "purge_listing orphan_rules orphan_instances =
     Out ''This will permanently delete:'' #
     map (\<lambda>n. Out (''  rule '' @ py_repr n @ '' and its latch'')) orphan_rules @
     map (\<lambda>n. Out (''  instance '' @ py_repr n @ '' and its stored plugin state'')) orphan_instances"

definition purge_now :: "time \<Rightarrow> db \<Rightarrow> printed \<times> db" where
  "purge_now now d =
     (let (d', purged_rules, purged_instances) = purge_orphans d;
          nr = string_of_nat (length purged_rules); ni = string_of_nat (length purged_instances) in
      (Out (''purged '' @ nr @ '' rule(s) and '' @ ni @ '' instance(s).''),
       append_event d' now Purged None None (nr @ '' rules, '' @ ni @ '' instances'') default_max_rows))"

definition purge_command ::
  "string \<Rightarrow> time \<Rightarrow> open_answer \<Rightarrow> db_file \<Rightarrow> bool \<Rightarrow> terminal \<Rightarrow> printed list \<times> ending \<times> db_file" where
  "purge_command path now opened f assume_yes t =
     (case database_problem path opened of
        Some problem \<Rightarrow> ([Err (prefixed problem)], Exits exit_failure, f)
      | None \<Rightarrow>
      (case initialize path f of
        Inl e \<Rightarrow> ([Err (prefixed e)], Exits exit_failure, f)
      | Inr d \<Rightarrow>
         (let orphan_rules = map rr_name (filter rr_orphaned (rules d True));
              orphan_instances = map ir_name (filter ir_orphaned (instances d True)) in
          if orphan_rules = [] \<and> orphan_instances = []
          then ([Out ''nothing to purge.''], Exits exit_ok, Schema schema_version d)
          else
            let listing = purge_listing orphan_rules orphan_instances;
                (asked, answer) = (if assume_yes then ([], Inr True) else confirm t) in
            case answer of
              Inl e \<Rightarrow> (listing @ asked, Uncaught e, Schema schema_version d)
            | Inr yes \<Rightarrow>
                if \<not> yes then (listing @ asked @ [Out ''cancelled.''], Exits exit_ok, Schema schema_version d)
                else let (line, d') = purge_now now d in
                  (listing @ asked @ [line], Exits exit_ok, Schema schema_version d'))))"

section \<open>main\<close>

text \<open>
  The parsed command and what it meets: the installation and the plugins found under the
  paths, what opening the state file answers and what it holds, the clock, what is typed at
  the terminal, and for \<open>run\<close> the environments of the start, of the iterations and of the
  stop. Directories are taken to be given without a trailing slash.
\<close>

datatype command = RunCommand | ValidateCommand | StatusCommand | RenameCommand string string | PurgeCommand bool | VersionCommand

record world =
  wo_installation :: installation
  wo_found :: discovery
  wo_opened :: open_answer
  wo_file :: db_file
  wo_now :: time
  wo_reply :: terminal
  wo_start_env :: env
  wo_stop_env :: env
  wo_iterations :: "(core_message list \<times> env) list"
  wo_version :: string

datatype main_result =
    Ran "ending option"
  | Did "printed list" ending db_file

definition database_path :: "string \<Rightarrow> string" where
  "database_path state_directory = state_directory @ ''/state.db''"

definition main_command :: "paths \<Rightarrow> string \<Rightarrow> command \<Rightarrow> world \<Rightarrow> main_result" where
  "main_command p log_level c w =
     (let path = database_path (pa_state_directory p);
          inst = (wo_installation w)\<lparr>in_secrets_path := pa_secrets_path p, in_directory := pa_config_directory p\<rparr>;
          answer = (\<lambda>(lines, e, f). Did lines e f) in
      case level_from_name log_level of
        None \<Rightarrow> Did [Err (prefixed (''unknown log level '' @ py_repr log_level))] (Exits exit_failure) (wo_file w)
      | Some _ \<Rightarrow>
          (case c of
             RunCommand \<Rightarrow> Ran (run_command (wo_start_env w) inst (wo_found w) path (wo_file w) (wo_stop_env w) (wo_iterations w))
           | ValidateCommand \<Rightarrow> (case validate_command inst (wo_found w) of (lines, e) \<Rightarrow> Did lines e (wo_file w))
           | StatusCommand \<Rightarrow> answer (status_command inst (wo_found w) path (wo_now w) (wo_opened w) (wo_file w))
           | RenameCommand old new \<Rightarrow> answer (rename_command path (wo_now w) (wo_opened w) (wo_file w) old new)
           | PurgeCommand yes \<Rightarrow> answer (purge_command path (wo_now w) (wo_opened w) (wo_file w) yes (wo_reply w))
           | VersionCommand \<Rightarrow> Did [Out (''noti-mapper '' @ wo_version w)] (Exits exit_ok) (wo_file w)))"

end
