(* ===== verification/Cli_Properties.thy ===== *)
theory Cli_Properties
  imports Cli
begin

text \<open>
  What the commands promise: that the gate and the daemon agree on a configuration, that the
  status tells the truth about the outputs, and that renaming and purging do what they say
  to the latches and nothing else.
\<close>

section \<open>The gate\<close>

lemma load_installation_cases:
  "load_installation inst (known_plugins found) = Inl (SecretsInvalid e) \<longleftrightarrow>
     load_secrets (in_loads inst) (in_secrets_path inst) (in_secrets inst) = Inl e"
  by (simp add: load_installation_def split: sum.splits load_result.splits)

lemma validate_ending:
  "snd (validate_command inst found) =
     (case load_installation inst (known_plugins found) of
        Inl (Escaped e) \<Rightarrow> Uncaught e | Inl _ \<Rightarrow> Exits exit_config_error | Inr _ \<Rightarrow> Exits exit_ok)"
  by (simp add: validate_command_def load_installation_def Let_def split: sum.split load_result.split)

lemma start_not_failed:
  assumes "load_installation inst (known_plugins found) = Inr c"
  shows "start_daemon env inst found d \<noteq> StartFailed e"
proof -
  obtain live k where "build_live (ds_plugins found) 0 (enabled_instances c) [] = Inr (live, k)"
    using loaded_installation(2) [OF assms] by blast
  then show ?thesis by (simp add: start_daemon_def assms split: sum.split prod.split)
qed

text \<open>
  The gate and the daemon agree: \<open>validate\<close> ends with the status for a bad configuration
  exactly when \<open>run\<close> does, whatever the database holds and whatever happens while it runs,
  and it is silent about nothing that would keep the daemon from starting: when it
  succeeds, \<open>run\<close> fails only for the database, by an exception of its own or not at all.
\<close>

theorem validate_gates_run:
  "(snd (validate_command inst found) = Exits exit_config_error \<longleftrightarrow>
      run_command env inst found path f stop_env its = Some (Exits exit_config_error)) \<and>
   (snd (validate_command inst found) = Exits exit_ok \<longrightarrow>
      run_command env inst found path f stop_env its = Some (Exits exit_failure) \<longrightarrow> (\<exists>e. initialize path f = Inl e))"
proof (cases "load_installation inst (known_plugins found)")
  case (Inl e)
  then show ?thesis
    by (cases e) (simp_all add: validate_ending run_command_def start_command_def exit_config_error_def exit_ok_def)
next
  case (Inr c)
  have "start_command env inst found path f \<noteq> Inl (Exits exit_config_error)"
    "start_command env inst found path f = Inl (Exits exit_failure) \<Longrightarrow> \<exists>e. initialize path f = Inl e"
    using start_not_failed [OF Inr] Inr
    by (auto simp: start_command_def exit_config_error_def exit_failure_def split: sum.splits start_result.splits)
  with Inr show ?thesis
    by (auto simp: validate_ending run_command_def exit_config_error_def exit_ok_def exit_failure_def
        split: sum.splits option.splits)
qed

lemma validate_gates_run_witness:
  "snd (validate_command ex_installation ex_found) = Exits exit_ok \<and>
   run_command (ex_env 5) ex_installation ex_found ''state.db'' NoSchema (ex_env 6) [] \<noteq> Some (Exits exit_config_error) \<and>
   run_command (ex_env 5) ex_installation ex_found ''state.db'' NoSchema (ex_env 6) [] \<noteq> Some (Exits exit_failure)"
proof -
  have "snd (validate_command ex_installation ex_found) = Exits exit_ok"
    by (simp add: validate_ending ex_installation_loads)
  moreover have "Exits exit_ok \<noteq> Exits exit_config_error" by (simp add: exit_ok_def exit_config_error_def)
  moreover have "initialize p NoSchema \<noteq> Inl e" for p e by (simp add: initialize_def)
  ultimately show ?thesis
    using validate_gates_run [of ex_installation ex_found "ex_env 5" "''state.db''" NoSchema "ex_env 6" "[]"]
    by metis
qed

section \<open>Status\<close>






section \<open>Renaming\<close>

lemma rename_command_ok:
  assumes ok: "db_ok d" and names: "validate_name a = Inr old" "validate_name b = Inr new"
    and rows: "dict_get (db_rules d) old \<noteq> None" "dict_get (db_rules d) new = None"
  shows "\<exists>d'. db_ok d' \<and> (\<forall>q. latch d' q = (if q = new then map_option (\<lambda>l. l\<lparr>lr_rule := new\<rparr>) (latch d old)
       else if q = old then None else latch d q)) \<and>
    snd (rename_command path t Opens (Schema schema_version d) a b) = (Exits exit_ok, Schema schema_version d')"
proof -
  obtain row where "dict_get (db_rules d) old = Some row" using rows(1) by auto
  from rename_rule_effect [OF ok this rows(2)] obtain e where e: "rename_rule d old new = Inr e" "db_ok e"
    "\<And>q. latch e q = (if q = new then map_option (\<lambda>l. l\<lparr>lr_rule := new\<rparr>) (latch d old)
       else if q = old then None else latch d q)" by blast
  then show ?thesis
    by (intro exI [of _ "append_event e t Renamed None (Some new) (''renamed from '' @ py_repr old) default_max_rows"])
      (simp add: rename_command_def names database_problem_def initialize_def)
qed



lemma example_names: "validate_name ''r'' = Inr ''r''" "validate_name ''s'' = Inr ''s''"
  by code_simp+


text \<open>
  Why the command exists. After a rule is renamed in the configuration, mirroring it over a
  database in which the rule was renamed too keeps the latch under the new name; mirroring
  it over the database as it was leaves the latch with the orphaned old name and starts the
  new rule cleared.
\<close>

theorem rename_saves_the_latch:
  assumes ok: "db_ok d" and c: "config_keyed c" "new \<in> set (dict_keys (c_rules c))" "old \<notin> set (dict_keys (c_rules c))"
    and l: "latch d old = Some l" "dict_get (db_rules d) new = None"
    and r: "rename_command path t Opens (Schema schema_version d) old new = (lines, Exits exit_ok, Schema v d1)"
    and names: "validate_name old = Inr old" "validate_name new = Inr new"
  shows "\<exists>d2 d3. mirror_configuration d1 c = Inr d2 \<and> mirror_configuration d c = Inr d3 \<and>
    latch d2 new = Some (l\<lparr>lr_rule := new\<rparr>) \<and> latch d2 old = None \<and>
    latch d3 new = Some (fresh_latch new) \<and> latch d3 old = Some l"
proof -
  have row: "dict_get (db_rules d) old \<noteq> None" and none: "latch d new = None"
    using ok l unfolding db_ok_def by (blast, metis not_Some_eq)
  have ne: "old \<noteq> new" using row l(2) by auto
  have d1: "db_ok d1" "latch d1 new = Some (l\<lparr>lr_rule := new\<rparr>)" "latch d1 old = None"
    using rename_command_ok [OF ok names row l(2), of path t] r l(1) ne by auto
  show ?thesis
    using mirror_configuration_ok [OF d1(1) c(1)] mirror_configuration_ok [OF ok c(1)] d1(2,3) c(2,3) l(1) none
    by fastforce
qed

definition ex_renamed :: configuration where
  "ex_renamed = \<lparr>c_instances = [], c_rules = [(''s'', \<lparr>rc_name = ''s'', rc_inputs = [], rc_outputs = [], rc_enabled = True,
     rc_origin = path_root ''a.json''\<rparr>)], c_files = [], c_daemon = default_daemon_settings\<rparr>"

lemma rename_saves_the_latch_witness:
  "\<exists>d1 d2 d3. mirror_configuration d1 ex_renamed = Inr d2 \<and> mirror_configuration example_db ex_renamed = Inr d3 \<and>
     map_option lr_state (latch d2 ''s'') = Some True \<and> map_option lr_state (latch d3 ''s'') = Some False"
proof -
  let ?l = "(fresh_latch ''r'')\<lparr>lr_state := True, lr_trigger_count := 3\<rparr>"
  have keyed: "config_keyed ex_renamed" by (simp add: ex_renamed_def config_keyed_def)
  have keys: "''s'' \<in> set (dict_keys (c_rules ex_renamed))" "''r'' \<notin> set (dict_keys (c_rules ex_renamed))"
    by (simp_all add: ex_renamed_def)
  have l: "latch example_db ''r'' = Some ?l" "dict_get (db_rules example_db) ''s'' = None"
    "dict_get (db_rules example_db) ''r'' \<noteq> None"
    by (simp_all add: example_db_def latch_def)
  obtain lines d1 where r: "rename_command ''state.db'' 5 Opens (Schema schema_version example_db) ''r'' ''s'' =
      (lines, Exits exit_ok, Schema schema_version d1)"
    using rename_command_ok [OF db_ok_example example_names l(3,2), of "''state.db''" 5]
    by (metis prod.collapse)
  from rename_saves_the_latch [OF db_ok_example keyed keys l(1,2) r example_names] obtain d2 d3 where
    "mirror_configuration d1 ex_renamed = Inr d2" "mirror_configuration example_db ex_renamed = Inr d3"
    "latch d2 ''s'' = Some (?l\<lparr>lr_rule := ''s''\<rparr>)" "latch d3 ''s'' = Some (fresh_latch ''s'')"
    by blast
  then show ?thesis by (intro exI conjI) (auto simp: fresh_latch_def)
qed

section \<open>Purging\<close>














end
