(* ===== verification/File_Input.thy ===== *)
theory File_Input
  imports Plugin_Settings
begin

text \<open>
  \<open>plugins/file_input\<close>: settings, the polling pass with its debounce, and catch-up. What the
  file system shows and what \<open>fnmatch\<close> answers come from outside; modification times and
  the monotonic clock are floats, kept as rationals. The instance's scratch storage is the
  part of \<open>plugin_kv\<close> under its name.
\<close>

section \<open>Settings\<close>

definition file_keys :: "string list" where
  "file_keys = [''path'', ''glob'', ''poll_seconds'', ''debounce_seconds'', ''emit_on_modify'']"

definition validate_file_settings :: "settings \<Rightarrow> string list" where
  "validate_file_settings s =
     unknown_settings file_keys s @
     (case setting s ''path'' of
        None \<Rightarrow> [''\"path\" is required'']
      | Some j \<Rightarrow> if \<not> nonempty_string j then [''\"path\" must be a non-empty string'']
          else case j of JStr t \<Rightarrow> if take 1 t \<noteq> ''/'' then [''\"path\" must be absolute''] else [] | _ \<Rightarrow> []) @
     setting_problem s nonempty_string ''a non-empty string'' ''glob'' @
     concat (map (setting_problem s positive_json ''a positive number'') [''poll_seconds'', ''debounce_seconds'']) @
     setting_problem s is_json_bool ''true or false'' ''emit_on_modify''"

section \<open>State\<close>

record observation =
  ob_path :: string
  ob_modified_at :: rat
  ob_size :: nat

record emission =
  em_observation :: observation
  em_event :: observed_event

record file_input =
  fi_root :: string
  fi_glob :: "string option"
  fi_poll_seconds :: seconds
  fi_debounce_seconds :: seconds
  fi_emit_on_modify :: bool
  fi_status :: health_status
  fi_detail :: string
  fi_pending :: "(string, observation) dict"
  fi_quiet_since :: "(string, rat) dict"
  fi_storage :: "(string, string) dict"
  fi_emitted :: "emission list"

text \<open>\<open>__init__\<close>; no result is a \<open>ValueError\<close>, which an interval written as null gives.\<close>

definition init_file_input :: "settings \<Rightarrow> (string, string) dict \<Rightarrow> file_input option" where
  "init_file_input s store =
     (case (float_setting s ''poll_seconds'' 1, float_setting s ''debounce_seconds'' 2) of
        (Some poll, Some debounce) \<Rightarrow>
          Some \<lparr>fi_root = (case dict_get s ''path'' of Some (JStr t) \<Rightarrow> t | _ \<Rightarrow> []),
            fi_glob = (case setting s ''glob'' of Some (JStr t) \<Rightarrow> Some t | _ \<Rightarrow> None),
            fi_poll_seconds = poll, fi_debounce_seconds = debounce,
            fi_emit_on_modify = (case dict_get s ''emit_on_modify'' of None \<Rightarrow> True | Some j \<Rightarrow> j = JBool True),
            fi_status = HsStarting, fi_detail = ''not yet polling'', fi_pending = [], fi_quiet_since = [],
            fi_storage = store, fi_emitted = []\<rparr>
      | _ \<Rightarrow> None)"

section \<open>What the file system shows\<close>

text \<open>A directory entry: whether it is a file, whether it matches the glob, and its mtime and size if \<open>stat\<close> works.\<close>

record file_entry =
  fe_path :: string
  fe_is_file :: bool
  fe_matches :: bool
  fe_stat :: "(rat \<times> nat) option"

record file_view =
  fv_root :: file_entry
  fv_root_is_dir :: bool
  fv_entries :: "file_entry list"

definition observe :: "file_view \<Rightarrow> file_input \<Rightarrow> observation list" where
  "observe v st =
     (let candidates =
        (case fi_glob st of
           None \<Rightarrow> if fe_is_file (fv_root v) then [fv_root v] else []
         | Some _ \<Rightarrow> if fv_root_is_dir v
             then filter (\<lambda>e. fe_is_file e \<and> fe_matches e) (sort_key fe_path (fv_entries v)) else []) in
      List.map_filter (\<lambda>e. map_option (\<lambda>(m, n). \<lparr>ob_path = fe_path e, ob_modified_at = m, ob_size = n\<rparr>) (fe_stat e)) candidates)"

section \<open>What counts as new\<close>

definition seen_key :: "string \<Rightarrow> string" where
  "seen_key p = ''seen.'' @ p"

text \<open>\<open>f"{modified_at:.6f}:{size}"\<close>: the microseconds, in decimal.\<close>

fun pad_left :: "nat \<Rightarrow> string \<Rightarrow> string" where
  "pad_left n s = replicate (n - length s) CHR ''0'' @ s"

definition fmt6f :: "rat \<Rightarrow> string" where
  "fmt6f r = (let us = round_half_even (r * 1000000); a = nat \<bar>us\<bar> in
     (if r < 0 then ''-'' else []) @ string_of_nat (a div 1000000) @ ''.'' @ pad_left 6 (string_of_nat (a mod 1000000)))"

definition fingerprint :: "observation \<Rightarrow> string" where
  "fingerprint o' = fmt6f (ob_modified_at o') @ '':'' @ string_of_nat (ob_size o')"

definition is_new :: "file_input \<Rightarrow> observation \<Rightarrow> bool" where
  "is_new st o' =
     (case dict_get (fi_storage st) (seen_key (ob_path o')) of
        None \<Rightarrow> True
      | Some stored \<Rightarrow> if \<not> fi_emit_on_modify st then False else stored \<noteq> fingerprint o')"

definition remember :: "observation \<Rightarrow> file_input \<Rightarrow> file_input" where
  "remember o' st = st\<lparr>fi_storage := dict_put (fi_storage st) (seen_key (ob_path o')) (fingerprint o')\<rparr>"

definition as_datetime :: "rat \<Rightarrow> time" where
  "as_datetime m = round_half_even (m * 1000000)"

definition file_event :: "observation \<Rightarrow> string \<Rightarrow> observed_event" where
  "file_event o' cause = \<lparr>occurred_at = as_datetime (ob_modified_at o'),
     metadata = clamp_metadata [(''path'', ob_path o'), (''size'', string_of_nat (ob_size o')), (''cause'', cause)]\<rparr>"

section \<open>Polling\<close>

definition forget_pending :: "string \<Rightarrow> file_input \<Rightarrow> file_input" where
  "forget_pending p st = st\<lparr>fi_pending := dict_del (fi_pending st) p, fi_quiet_since := dict_del (fi_quiet_since st) p\<rparr>"

definition emit_file :: "observation \<Rightarrow> file_input \<Rightarrow> file_input" where
  "emit_file o' st = st\<lparr>fi_emitted := fi_emitted st @ [\<lparr>em_observation = o', em_event = file_event o' ''watch''\<rparr>]\<rparr>"

definition poll_path :: "rat \<Rightarrow> observation \<Rightarrow> file_input \<Rightarrow> file_input" where
  "poll_path now o' st =
     (let p = ob_path o' in
      if \<not> is_new st o' then forget_pending p st
      else if dict_get (fi_pending st) p \<noteq> Some o'
      then st\<lparr>fi_pending := dict_put (fi_pending st) p o', fi_quiet_since := dict_put (fi_quiet_since st) p now\<rparr>
      else if now - the (dict_get (fi_quiet_since st) p) < fi_debounce_seconds st then st
      else forget_pending p (remember o' (emit_file o' st)))"

definition poll_once :: "rat \<Rightarrow> observation list \<Rightarrow> file_input \<Rightarrow> file_input" where
  "poll_once now observed st =
     (let current = fold (\<lambda>o' d. dict_put d (ob_path o') o') observed [];
          st1 = fold (poll_path now) (map snd current) st in
      fold (\<lambda>p s. if p \<notin> set (dict_keys current) then forget_pending p s else s) (dict_keys (fi_pending st1)) st1)"

text \<open>One turn of the loop of \<open>start\<close>: the pass, or the degraded health an \<open>OSError\<close> leaves.\<close>

definition set_file_health :: "health_status \<Rightarrow> string \<Rightarrow> file_input \<Rightarrow> file_input" where
  "set_file_health h detail st = st\<lparr>fi_status := h, fi_detail := detail\<rparr>"

definition file_turn :: "rat \<Rightarrow> (string \<times> string) + file_view \<Rightarrow> file_input \<Rightarrow> file_input" where
  "file_turn now seen st =
     (case seen of Inl (ty, text) \<Rightarrow> set_file_health HsDegraded (ty @ '': '' @ text) st
      | Inr v \<Rightarrow> poll_once now (observe v st) st)"

section \<open>Catch-up\<close>

definition catch_up_one ::
  "time option \<Rightarrow> observation \<Rightarrow> file_input \<times> observed_event list \<Rightarrow> file_input \<times> observed_event list" where
  "catch_up_one since o' = (\<lambda>(st, events).
     if \<not> is_new st o' then (st, events)
     else if (case since of None \<Rightarrow> False | Some t \<Rightarrow> as_datetime (ob_modified_at o') < t) then (remember o' st, events)
     else (remember o' st, events @ [file_event o' ''catch-up'']))"

definition file_catch_up :: "time option \<Rightarrow> observation list \<Rightarrow> file_input \<Rightarrow> file_input \<times> observed_event list" where
  "file_catch_up since observed st = fold (catch_up_one since) observed (st, [])"

section \<open>One path at a time\<close>

text \<open>
  The specification of the watcher: what it knows of one path, and what one pass that sees
  the path as given makes of it. A pass of the plugin is this step for every path.
\<close>

record watch =
  w_pending :: "(observation \<times> rat) option"
  w_seen :: "string option"

definition watch_new :: "bool \<Rightarrow> observation \<Rightarrow> watch \<Rightarrow> bool" where
  "watch_new modify o' w = (case w_seen w of None \<Rightarrow> True | Some f \<Rightarrow> modify \<and> f \<noteq> fingerprint o')"

definition watch_step :: "rat \<Rightarrow> bool \<Rightarrow> rat \<Rightarrow> observation option \<Rightarrow> watch \<Rightarrow> watch \<times> observation list" where
  "watch_step debounce modify now seen w =
     (case seen of None \<Rightarrow> (w\<lparr>w_pending := None\<rparr>, [])
      | Some o' \<Rightarrow>
          if \<not> watch_new modify o' w then (w\<lparr>w_pending := None\<rparr>, [])
          else (case w_pending w of
             None \<Rightarrow> (w\<lparr>w_pending := Some (o', now)\<rparr>, [])
           | Some (q, t) \<Rightarrow>
               if q \<noteq> o' then (w\<lparr>w_pending := Some (o', now)\<rparr>, [])
               else if now - t < debounce then (w, [])
               else (\<lparr>w_pending = None, w_seen = Some (fingerprint o')\<rparr>, [o'])))"

definition watch_of :: "file_input \<Rightarrow> string \<Rightarrow> watch" where
  "watch_of st p = \<lparr>w_pending = map_option (\<lambda>q. (q, the (dict_get (fi_quiet_since st) p))) (dict_get (fi_pending st) p),
     w_seen = dict_get (fi_storage st) (seen_key p)\<rparr>"

definition emitted_at :: "string \<Rightarrow> file_input \<Rightarrow> observation list" where
  "emitted_at p st = filter (\<lambda>o'. ob_path o' = p) (map em_observation (fi_emitted st))"

definition seen_at :: "string \<Rightarrow> observation list \<Rightarrow> observation option" where
  "seen_at p observed = find (\<lambda>o'. ob_path o' = p) (rev observed)"

definition fi_config :: "file_input \<Rightarrow> rat \<times> bool" where
  "fi_config st = (fi_debounce_seconds st, fi_emit_on_modify st)"

text \<open>Of one path, everything a pass can change.\<close>

definition path_state :: "file_input \<Rightarrow> string \<Rightarrow> watch \<times> observation list \<times> rat \<times> bool" where
  "path_state st p = (watch_of st p, emitted_at p st, fi_config st)"

lemma seen_key_inj [simp]: "seen_key p = seen_key q \<longleftrightarrow> p = q"
  by (simp add: seen_key_def)

lemma forget_pending_path:
  "path_state (forget_pending q st) p = (if p = q then ((watch_of st p)\<lparr>w_pending := None\<rparr>, emitted_at p st, fi_config st) else path_state st p)"
  by (simp add: path_state_def forget_pending_def watch_of_def emitted_at_def fi_config_def)

lemma forget_fold_path:
  "path_state (fold (\<lambda>q s. if P q then forget_pending q s else s) qs st) p =
     (if p \<in> set qs \<and> P p then ((watch_of st p)\<lparr>w_pending := None\<rparr>, emitted_at p st, fi_config st) else path_state st p)"
proof (induction qs arbitrary: st)
  case (Cons q qs)
  show ?case
  proof (cases "P q")
    case True
    have "watch_of (forget_pending q st) p = (if p = q then (watch_of st p)\<lparr>w_pending := None\<rparr> else watch_of st p)"
      "emitted_at p (forget_pending q st) = emitted_at p st" "fi_config (forget_pending q st) = fi_config st"
      using forget_pending_path [of q st p] by (auto simp: path_state_def split: if_splits)
    then show ?thesis using Cons.IH [of "forget_pending q st"] True by (auto simp: forget_pending_path)
  next
    case False
    then show ?thesis using Cons.IH [of st] by auto
  qed
qed simp

lemma poll_path_state:
  "path_state (poll_path now o' st) p =
     (if p = ob_path o'
      then (case watch_step (fi_debounce_seconds st) (fi_emit_on_modify st) now (Some o') (watch_of st p) of
              (w, es) \<Rightarrow> (w, emitted_at p st @ es, fi_config st))
      else path_state st p)"
proof -
  have new: "is_new st o' = watch_new (fi_emit_on_modify st) o' (watch_of st (ob_path o'))"
    by (auto simp: is_new_def watch_new_def watch_of_def split: option.split)
  show ?thesis
    by (auto simp: poll_path_def Let_def new watch_step_def path_state_def watch_of_def forget_pending_def
        remember_def emit_file_def emitted_at_def fi_config_def split: option.splits)
qed

lemma poll_path_fold:
  assumes "distinct (map ob_path os)"
  shows "path_state (fold (poll_path now) os st) p =
    (case find (\<lambda>o'. ob_path o' = p) os of
       None \<Rightarrow> path_state st p
     | Some o' \<Rightarrow> (case watch_step (fi_debounce_seconds st) (fi_emit_on_modify st) now (Some o') (watch_of st p) of
              (w, es) \<Rightarrow> (w, emitted_at p st @ es, fi_config st)))"
  using assms
proof (induction os arbitrary: st)
  case (Cons o' os)
  let ?u = "poll_path now o' st"
  note one = poll_path_state [of now o' st]
  have cfg: "fi_config ?u = fi_config st" using one [of p] by (auto simp: path_state_def split: prod.splits if_splits)
  show ?case
  proof (cases "p = ob_path o'")
    case True
    then have "find (\<lambda>q. ob_path q = p) os = None" using Cons.prems by (simp add: find_None_iff image_iff) metis
    then show ?thesis using Cons.IH [of ?u] Cons.prems one [of p] True by simp
  next
    case False
    then have same: "path_state ?u p = path_state st p" using one [of p] by simp
    then have "watch_of ?u p = watch_of st p" "emitted_at p ?u = emitted_at p st" by (simp_all add: path_state_def)
    with Cons.IH [of ?u] Cons.prems False cfg same show ?thesis
      by (simp add: fi_config_def split: option.split)
  qed
qed simp

lemma current_observations:
  defines "cur \<equiv> (\<lambda>obs. fold (\<lambda>o' d. dict_put d (ob_path o') o') obs [])"
  shows "dict_ok (cur obs) \<and> (\<forall>q \<in> set (cur obs). ob_path (snd q) = fst q) \<and> dict_get (cur obs) p = seen_at p obs"
proof (induction obs rule: rev_induct)
  case Nil
  then show ?case by (simp add: cur_def seen_at_def)
next
  case (snoc o' obs)
  have eq: "cur (obs @ [o']) = dict_put (cur obs) (ob_path o') o'" by (simp add: cur_def)
  have old: "\<forall>q \<in> set (cur obs). ob_path (snd q) = fst q" using snoc by blast
  have "\<forall>q \<in> set (dict_put (cur obs) (ob_path o') o'). ob_path (snd q) = fst q"
    by (intro ballI keyed_put [OF old refl])
  then show ?case unfolding eq using snoc by (simp add: seen_at_def)
qed

lemma find_snd_dict:
  "\<forall>q \<in> set d. f (snd q) = fst q \<Longrightarrow> find (\<lambda>x. f x = k) (map snd d) = dict_get d k"
  by (induction d) auto

lemma poll_once_path:
  "path_state (poll_once now observed st) p =
     (case watch_step (fi_debounce_seconds st) (fi_emit_on_modify st) now (seen_at p observed) (watch_of st p) of
        (w, es) \<Rightarrow> (w, emitted_at p st @ es, fi_config st))"
proof -
  let ?cur = "fold (\<lambda>o' d. dict_put d (ob_path o') o') observed []"
  let ?st1 = "fold (poll_path now) (map snd ?cur) st"
  have cur: "dict_ok ?cur" "\<forall>q \<in> set ?cur. ob_path (snd q) = fst q" "dict_get ?cur p = seen_at p observed"
    using current_observations by auto
  have "map (ob_path \<circ> snd) ?cur = dict_keys ?cur" using cur(2) by (intro map_snd_keys)
  then have d: "distinct (map ob_path (map snd ?cur))" using cur(1) by (simp only: map_map)
  note f = poll_path_fold [OF d, of now st p, unfolded find_snd_dict [OF cur(2)] cur(3)]
  have mem: "p \<in> set (dict_keys ?cur) \<longleftrightarrow> seen_at p observed \<noteq> None"
    using cur(3) unfolding set_dict_keys by (simp only: domIff)
  have pend: "p \<notin> set (dict_keys (fi_pending ?st1)) \<Longrightarrow> dict_get (fi_pending ?st1) p = None"
    unfolding set_dict_keys by (simp only: domIff simp_thms)
  have eq: "path_state (poll_once now observed st) p =
      (if p \<in> set (dict_keys (fi_pending ?st1)) \<and> p \<notin> set (dict_keys ?cur)
       then ((watch_of ?st1 p)\<lparr>w_pending := None\<rparr>, emitted_at p ?st1, fi_config ?st1) else path_state ?st1 p)"
    unfolding poll_once_def Let_def by (rule forget_fold_path)
  show ?thesis
  proof (cases "seen_at p observed")
    case (Some o')
    then have "path_state (poll_once now observed st) p = path_state ?st1 p" unfolding eq using mem by simp
    then show ?thesis using f Some by simp
  next
    case None
    then have same: "path_state ?st1 p = path_state st p" using f by simp
    have "path_state (poll_once now observed st) p = ((watch_of ?st1 p)\<lparr>w_pending := None\<rparr>, emitted_at p ?st1, fi_config ?st1)"
      unfolding eq using mem None pend by (auto simp: path_state_def watch_of_def)
    then show ?thesis using same None by (simp add: watch_step_def path_state_def)
  qed
qed

text \<open>
  C25. A polling pass is the specification's step for each path on its own: what becomes of a path
  depends only on what is known of it and on what the pass saw of it, whatever else the
  directory holds and in whatever order.
\<close>

theorem poll_once_refines_watch:
  "path_state (poll_once now observed st) p =
     (case watch_step (fi_debounce_seconds st) (fi_emit_on_modify st) now (seen_at p observed) (watch_of st p) of
        (w, es) \<Rightarrow> (w, emitted_at p st @ es, fi_config st))"
  by (rule poll_once_path)

section \<open>Runs of passes\<close>

definition run_polls :: "(rat \<times> observation list) list \<Rightarrow> file_input \<Rightarrow> file_input" where
  "run_polls polls st = fold (\<lambda>(now, observed). poll_once now observed) polls st"

fun watch_run :: "rat \<Rightarrow> bool \<Rightarrow> (rat \<times> observation option) list \<Rightarrow> watch \<Rightarrow> watch \<times> observation list" where
  "watch_run d m [] w = (w, [])"
| "watch_run d m ((t, s) # ps) w =
     (let (w', es) = watch_step d m t s w; (w'', fs) = watch_run d m ps w' in (w'', es @ fs))"

definition seen_polls :: "string \<Rightarrow> (rat \<times> observation list) list \<Rightarrow> (rat \<times> observation option) list" where
  "seen_polls p polls = map (\<lambda>q. (fst q, seen_at p (snd q))) polls"

lemma run_polls_path:
  "path_state (run_polls polls st) p =
     (case watch_run (fi_debounce_seconds st) (fi_emit_on_modify st) (seen_polls p polls) (watch_of st p) of
        (w, es) \<Rightarrow> (w, emitted_at p st @ es, fi_config st))"
proof (induction polls arbitrary: st)
  case Nil
  then show ?case by (simp add: run_polls_def seen_polls_def path_state_def)
next
  case (Cons q polls)
  obtain t obs where q: "q = (t, obs)" by (cases q)
  let ?u = "poll_once t obs st"
  obtain w es where s: "watch_step (fi_debounce_seconds st) (fi_emit_on_modify st) t (seen_at p obs) (watch_of st p) = (w, es)"
    by fastforce
  have "path_state ?u p = (w, emitted_at p st @ es, fi_config st)" using poll_once_path [of t obs st p] s by simp
  then have u: "watch_of ?u p = w" "emitted_at p ?u = emitted_at p st @ es" "fi_config ?u = fi_config st"
    by (simp_all add: path_state_def)
  have "path_state (run_polls (q # polls) st) p = path_state (run_polls polls ?u) p" by (simp add: run_polls_def q)
  then show ?case using Cons.IH [of ?u] u s by (simp add: q seen_polls_def fi_config_def split: prod.split)
qed

lemma watch_run_snoc:
  "watch_run d m (ps @ [(t, s)]) w =
     (let (w', es) = watch_run d m ps w; (w'', fs) = watch_step d m t s w' in (w'', es @ fs))"
  by (induction d m ps w rule: watch_run.induct) (auto simp: Let_def split: prod.splits)

lemma watch_run_known:
  assumes "\<forall>q \<in> set ps. snd q = Some o'" "\<not> watch_new m o' w"
  shows "snd (watch_run d m ps w) = []"
  using assms
proof (induction ps arbitrary: w)
  case (Cons q ps)
  obtain t where q: "q = (t, Some o')" using Cons.prems by (cases q) auto
  have "watch_step d m t (Some o') w = (w\<lparr>w_pending := None\<rparr>, [])" using Cons.prems by (simp add: watch_step_def)
  moreover have "\<not> watch_new m o' (w\<lparr>w_pending := None\<rparr>)" using Cons.prems(2) by (simp add: watch_new_def)
  ultimately show ?case using Cons.IH [of "w\<lparr>w_pending := None\<rparr>"] Cons.prems(1) by (simp add: q split: prod.split)
qed simp

lemma watch_run_settled:
  assumes "\<forall>q \<in> set ps. snd q = Some o'" "watch_new m o' w" "w_pending w = Some (o', t0)"
  shows "snd (watch_run d m ps w) = (if \<exists>q \<in> set ps. d \<le> fst q - t0 then [o'] else [])"
  using assms
proof (induction ps arbitrary: w)
  case (Cons q ps)
  obtain t where q: "q = (t, Some o')" using Cons.prems by (cases q) auto
  show ?case
  proof (cases "t - t0 < d")
    case True
    then have "watch_step d m t (Some o') w = (w, [])" using Cons.prems by (simp add: watch_step_def)
    then show ?thesis using Cons True by (auto simp: q split: prod.split)
  next
    case False
    let ?w = "\<lparr>w_pending = None, w_seen = Some (fingerprint o')\<rparr>"
    have "watch_step d m t (Some o') w = (?w, [o'])" using Cons.prems False by (simp add: watch_step_def)
    moreover have "snd (watch_run d m ps ?w) = []"
      using Cons.prems(1) by (intro watch_run_known) (auto simp: watch_new_def)
    ultimately show ?thesis using False by (auto simp: q split: prod.split)
  qed
qed simp

lemma watch_run_pending:
  assumes "w_pending w = None" "w_pending (fst (watch_run d m ps w)) = Some (o', t)"
  shows "\<exists>pre post. ps = pre @ (t, Some o') # post \<and> (\<forall>q \<in> set post. snd q = Some o')"
  using assms(2)
proof (induction ps rule: rev_induct)
  case Nil
  then show ?case using assms(1) by simp
next
  case (snoc q ps)
  obtain u s where q: "q = (u, s)" by (cases q)
  obtain v es where v: "watch_run d m ps w = (v, es)" by fastforce
  then have st: "w_pending (fst (watch_step d m u s v)) = Some (o', t)"
    using snoc.prems by (simp add: q watch_run_snoc split: prod.splits)
  then obtain x where s: "s = Some x" by (cases s) (auto simp: watch_step_def)
  have "x = o' \<and> (t = u \<or> w_pending v = Some (o', t))"
    using st by (auto simp: watch_step_def s split: if_splits option.splits)
  then consider "x = o'" "t = u" | "x = o'" "w_pending v = Some (o', t)" by blast
  then show ?case
  proof cases
    case 1
    then show ?thesis by (intro exI [of _ ps] exI [of _ "[]"]) (simp add: q s)
  next
    case 2
    then obtain pre post where "ps = pre @ (t, Some o') # post" "\<forall>q \<in> set post. snd q = Some o'"
      using snoc.IH v by auto
    then show ?thesis by (intro exI [of _ pre] exI [of _ "post @ [q]"]) (simp add: q s 2)
  qed
qed

lemma watch_step_emits:
  "watch_step d m t s w = (w', es) \<Longrightarrow> es \<noteq> [] \<Longrightarrow>
   \<exists>o' u. es = [o'] \<and> s = Some o' \<and> w_pending w = Some (o', u) \<and> d \<le> t - u"
  by (auto simp: watch_step_def split: option.splits if_splits)

section \<open>Properties of the watcher\<close>

text \<open>
  C37. A file that is new and stays as it is reported exactly once, by the first pass that finds it
  unchanged for the debounce time, and not before.
\<close>

theorem settled_file_reported_once:
  assumes "is_new st o'" "dict_get (fi_pending st) (ob_path o') = None" "0 < fi_debounce_seconds st"
    and "\<forall>q \<in> set ((t0, obs0) # rest). seen_at (ob_path o') (snd q) = Some o'"
  shows "emitted_at (ob_path o') (run_polls ((t0, obs0) # rest) st) = emitted_at (ob_path o') st @
    (if \<exists>q \<in> set rest. fi_debounce_seconds st \<le> fst q - t0 then [o'] else [])"
proof -
  let ?p = "ob_path o'" and ?d = "fi_debounce_seconds st" and ?m = "fi_emit_on_modify st"
  let ?w = "watch_of st ?p" and ?ps = "seen_polls ?p rest"
  have new: "watch_new ?m o' ?w" using assms(1) by (auto simp: is_new_def watch_new_def watch_of_def split: option.splits if_splits)
  have pend: "w_pending ?w = None" using assms(2) by (simp add: watch_of_def)
  let ?v = "?w\<lparr>w_pending := Some (o', t0)\<rparr>"
  have step: "watch_step ?d ?m t0 (Some o') ?w = (?v, [])" using new pend by (simp add: watch_step_def)
  have "snd (watch_run ?d ?m ?ps ?v) = (if \<exists>q \<in> set ?ps. ?d \<le> fst q - t0 then [o'] else [])"
  proof (rule watch_run_settled)
    show "\<forall>q \<in> set ?ps. snd q = Some o'" using assms(4) by (auto simp: seen_polls_def)
    show "watch_new ?m o' ?v" using new by (simp add: watch_new_def)
  qed simp
  moreover have "(\<exists>q \<in> set ?ps. ?d \<le> fst q - t0) \<longleftrightarrow> (\<exists>q \<in> set rest. ?d \<le> fst q - t0)" by (force simp: seen_polls_def)
  moreover have "emitted_at ?p (run_polls ((t0, obs0) # rest) st) =
      emitted_at ?p st @ snd (watch_run ?d ?m ((t0, Some o') # ?ps) ?w)"
    using run_polls_path [of "(t0, obs0) # rest" st ?p] assms(4)
    by (simp add: path_state_def seen_polls_def split: prod.splits)
  ultimately show ?thesis by (simp add: step split: prod.split)
qed

text \<open>
  Nothing is reported in the middle of a write: a pass reports a path at most once, and only
  when an earlier pass, at least the debounce time ago, and every pass since saw the file
  exactly as this one does.
\<close>

theorem reported_file_was_quiet:
  assumes "dict_get (fi_pending st) p = None"
    and "emitted_at p (run_polls (polls @ [(now, obs)]) st) \<noteq> emitted_at p (run_polls polls st)"
  shows "\<exists>o' pre t obs' post.
    emitted_at p (run_polls (polls @ [(now, obs)]) st) = emitted_at p (run_polls polls st) @ [o'] \<and>
    polls = pre @ (t, obs') # post \<and> fi_debounce_seconds st \<le> now - t \<and>
    (\<forall>q \<in> set ((t, obs') # post @ [(now, obs)]). seen_at p (snd q) = Some o')"
proof -
  let ?d = "fi_debounce_seconds st" and ?m = "fi_emit_on_modify st" and ?w = "watch_of st p"
  obtain v es where v: "watch_run ?d ?m (seen_polls p polls) ?w = (v, es)" by fastforce
  obtain v' fs where s: "watch_step ?d ?m now (seen_at p obs) v = (v', fs)" by fastforce
  have sp: "seen_polls p (polls @ [(now, obs)]) = seen_polls p polls @ [(now, seen_at p obs)]" by (simp add: seen_polls_def)
  have e: "emitted_at p (run_polls polls st) = emitted_at p st @ es"
    "emitted_at p (run_polls (polls @ [(now, obs)]) st) = emitted_at p st @ es @ fs"
    using run_polls_path [of polls st p] run_polls_path [of "polls @ [(now, obs)]" st p] v s
    by (simp_all add: path_state_def sp watch_run_snoc)
  then have "fs \<noteq> []" using assms(2) by auto
  then obtain o' t where f: "fs = [o']" "seen_at p obs = Some o'" "w_pending v = Some (o', t)" "?d \<le> now - t"
    using watch_step_emits [OF s] by blast
  have "w_pending ?w = None" using assms(1) by (simp add: watch_of_def)
  then obtain pre post where sp: "seen_polls p polls = pre @ (t, Some o') # post" "\<forall>q \<in> set post. snd q = Some o'"
    using watch_run_pending [of ?w ?d ?m "seen_polls p polls" o' t] v f(3) by auto
  then obtain pre' q post' where polls: "polls = pre' @ q # post'" and q: "(fst q, seen_at p (snd q)) = (t, Some o')"
    and post: "post = seen_polls p post'"
    unfolding seen_polls_def map_eq_append_conv by (auto simp: Cons_eq_map_conv map_eq_Cons_conv case_prod_beta)
  obtain obs' where q': "q = (t, obs')" "seen_at p obs' = Some o'" using q by (cases q) auto
  have "seen_at p (snd r) = Some o'" if "r \<in> set post'" for r
    using that sp(2) by (auto simp: post seen_polls_def)
  then have "\<forall>r \<in> set ((t, obs') # post' @ [(now, obs)]). seen_at p (snd r) = Some o'" using q' f(2) by auto
  then show ?thesis using e f(1,4) polls q'(1) by auto
qed

lemma catch_up_fold:
  assumes "distinct (map ob_path os)"
  shows "\<exists>st'. fold (catch_up_one since) os (st, events) = (st', events @
      map (\<lambda>o'. file_event o' ''catch-up'') (filter (\<lambda>o'. is_new st o' \<and>
        (case since of None \<Rightarrow> True | Some t \<Rightarrow> t \<le> as_datetime (ob_modified_at o'))) os)) \<and>
    fi_emit_on_modify st' = fi_emit_on_modify st \<and>
    (\<forall>p. dict_get (fi_storage st') (seen_key p) =
       (case find (\<lambda>o'. ob_path o' = p) os of None \<Rightarrow> dict_get (fi_storage st) (seen_key p)
        | Some o' \<Rightarrow> if is_new st o' then Some (fingerprint o') else dict_get (fi_storage st) (seen_key p)))"
  using assms
proof (induction os arbitrary: st events)
  case Nil
  then show ?case by simp
next
  case (Cons o' os)
  let ?u = "fst (catch_up_one since o' (st, events))" and ?ev = "snd (catch_up_one since o' (st, events))"
  have u: "fi_emit_on_modify ?u = fi_emit_on_modify st"
    "\<And>p. dict_get (fi_storage ?u) (seen_key p) = (if p = ob_path o' \<and> is_new st o' then Some (fingerprint o') else dict_get (fi_storage st) (seen_key p))"
    by (auto simp: catch_up_one_def remember_def)
  have ev: "?ev = events @ (if is_new st o' \<and> (case since of None \<Rightarrow> True | Some t \<Rightarrow> t \<le> as_datetime (ob_modified_at o'))
      then [file_event o' ''catch-up''] else [])"
    by (auto simp: catch_up_one_def not_less split: option.splits)
  have other: "is_new ?u q = is_new st q" if "q \<in> set os" for q
  proof -
    have "ob_path q \<noteq> ob_path o'" using that Cons.prems by (auto simp: image_iff)
    then show ?thesis by (simp add: is_new_def u split: option.split)
  qed
  obtain st' where st': "fold (catch_up_one since) os (?u, ?ev) = (st', ?ev @
      map (\<lambda>o'. file_event o' ''catch-up'') (filter (\<lambda>o'. is_new ?u o' \<and>
        (case since of None \<Rightarrow> True | Some t \<Rightarrow> t \<le> as_datetime (ob_modified_at o'))) os))"
    and m: "fi_emit_on_modify st' = fi_emit_on_modify ?u"
    and g: "\<And>p. dict_get (fi_storage st') (seen_key p) =
       (case find (\<lambda>o'. ob_path o' = p) os of None \<Rightarrow> dict_get (fi_storage ?u) (seen_key p)
        | Some o' \<Rightarrow> if is_new ?u o' then Some (fingerprint o') else dict_get (fi_storage ?u) (seen_key p))"
    using Cons.IH [of ?u ?ev] Cons.prems by auto
  have "filter (\<lambda>o'. is_new ?u o' \<and> (case since of None \<Rightarrow> True | Some t \<Rightarrow> t \<le> as_datetime (ob_modified_at o'))) os =
      filter (\<lambda>o'. is_new st o' \<and> (case since of None \<Rightarrow> True | Some t \<Rightarrow> t \<le> as_datetime (ob_modified_at o'))) os"
    by (rule filter_cong) (simp_all add: other)
  moreover have "dict_get (fi_storage st') (seen_key p) =
       (case find (\<lambda>o'. ob_path o' = p) (o' # os) of None \<Rightarrow> dict_get (fi_storage st) (seen_key p)
        | Some o' \<Rightarrow> if is_new st o' then Some (fingerprint o') else dict_get (fi_storage st) (seen_key p))" for p
  proof (cases "p = ob_path o'")
    case True
    then have "find (\<lambda>q. ob_path q = p) os = None" using Cons.prems by (simp add: find_None_iff image_iff) metis
    then show ?thesis using True by (simp add: g u)
  next
    case False
    show ?thesis
    proof (cases "find (\<lambda>q. ob_path q = p) os")
      case (Some q)
      then have "q \<in> set os" by (auto simp: find_Some_iff)
      then show ?thesis using False Some other by (simp add: g u)
    qed (use False in \<open>simp add: g u\<close>)
  qed
  moreover have "fold (catch_up_one since) (o' # os) (st, events) = fold (catch_up_one since) os (?u, ?ev)" by simp
  ultimately show ?case unfolding st' using m u(1) ev by (intro exI [of _ st']) simp
qed

text \<open>
  Catching up reports exactly the files that are new and not from before the last run, each once
  and in order, and remembers all it looked at: nothing it saw is new afterwards, so the
  watcher does not report it again.
\<close>

theorem caught_up_files_are_remembered:
  assumes "distinct (map ob_path os)" "file_catch_up since os st = (st', events)"
  shows "events = map (\<lambda>o'. file_event o' ''catch-up'') (filter (\<lambda>o'. is_new st o' \<and>
      (case since of None \<Rightarrow> True | Some t \<Rightarrow> t \<le> as_datetime (ob_modified_at o'))) os) \<and>
    (\<forall>o' \<in> set os. \<not> is_new st' o')"
proof -
  have d: "find (\<lambda>q. ob_path q = ob_path o') os = Some o'" if "o' \<in> set os" for o'
    using assms(1) that by (induction os) auto
  from catch_up_fold [OF assms(1), of since st "[]"] assms(2)
  have e: "events = map (\<lambda>o'. file_event o' ''catch-up'') (filter (\<lambda>o'. is_new st o' \<and>
      (case since of None \<Rightarrow> True | Some t \<Rightarrow> t \<le> as_datetime (ob_modified_at o'))) os)"
    and m: "fi_emit_on_modify st' = fi_emit_on_modify st"
    and g: "\<And>p. dict_get (fi_storage st') (seen_key p) =
       (case find (\<lambda>o'. ob_path o' = p) os of None \<Rightarrow> dict_get (fi_storage st) (seen_key p)
        | Some o' \<Rightarrow> if is_new st o' then Some (fingerprint o') else dict_get (fi_storage st) (seen_key p))"
    by (auto simp: file_catch_up_def)
  have "\<not> is_new st' o'" if "o' \<in> set os" for o'
    using g [of "ob_path o'"] m by (auto simp: d [OF that] is_new_def split: option.splits if_splits)
  with e show ?thesis by blast
qed

section \<open>Accepted settings\<close>

text \<open>
  Settings the validator accepts give a watcher with positive intervals, except that an interval
  written as null passes the validator and then makes the constructor raise.
\<close>

theorem accepted_file_settings:
  assumes "validate_file_settings s = []"
  shows "case init_file_input s store of
      None \<Rightarrow> dict_get s ''poll_seconds'' = Some JNull \<or> dict_get s ''debounce_seconds'' = Some JNull
    | Some st \<Rightarrow> 0 < fi_poll_seconds st \<and> 0 < fi_debounce_seconds st \<and> take 1 (fi_root st) = ''/'' \<and>
        dict_get s ''poll_seconds'' \<noteq> Some JNull \<and> dict_get s ''debounce_seconds'' \<noteq> Some JNull"
proof -
  have parts: "concat (map (setting_problem s positive_json ''a positive number'') [''poll_seconds'', ''debounce_seconds'']) = []"
    "(case setting s ''path'' of None \<Rightarrow> [''\"path\" is required'']
      | Some j \<Rightarrow> if \<not> nonempty_string j then [''\"path\" must be a non-empty string'']
          else case j of JStr t \<Rightarrow> if take 1 t \<noteq> ''/'' then [''\"path\" must be absolute''] else [] | _ \<Rightarrow> []) = []"
    using assms unfolding validate_file_settings_def append_is_Nil_conv by blast+
  have num: "\<forall>j. setting s key = Some j \<longrightarrow> positive_json j" if "key \<in> {''poll_seconds'', ''debounce_seconds''}" for key
    using parts(1) that by (auto simp: setting_problem_Nil)
  have "\<exists>t. dict_get s ''path'' = Some (JStr t) \<and> take 1 t = ''/''"
    using parts(2) by (auto simp: setting_Some nonempty_string_def split: option.splits json.splits if_splits)
  then show ?thesis
    using accepted_float_setting [OF num, of "''poll_seconds''" 1] accepted_float_setting [OF num, of "''debounce_seconds''" 2]
    by (auto simp: init_file_input_def split: option.splits)
qed

section \<open>Witnesses\<close>

definition ex_watcher :: file_input where
  "ex_watcher = the (init_file_input [(''path'', JStr ''/in'')] [])"

definition ex_observation :: observation where
  "ex_observation = \<lparr>ob_path = ''/in/a'', ob_modified_at = 7, ob_size = 3\<rparr>"

lemma settled_file_reported_once_witness:
  "emitted_at ''/in/a'' (run_polls [(10, [ex_observation]), (11, [ex_observation]), (12, [ex_observation]), (13, [ex_observation])] ex_watcher) = [ex_observation]"
proof -
  have n: "is_new ex_watcher ex_observation" "dict_get (fi_pending ex_watcher) (ob_path ex_observation) = None"
    "fi_debounce_seconds ex_watcher = 2" "emitted_at ''/in/a'' ex_watcher = []"
    by (simp_all add: ex_watcher_def init_file_input_def float_setting_def is_new_def emitted_at_def)
  have p: "ob_path ex_observation = ''/in/a''" by (simp add: ex_observation_def)
  show ?thesis
    using settled_file_reported_once [OF n(1,2), of 10 "[ex_observation]" "[(11, [ex_observation]), (12, [ex_observation]), (13, [ex_observation])]"] n
    by (simp add: p seen_at_def)
qed

lemma reported_file_was_quiet_witness:
  "\<exists>pre t obs' post. [(10, [ex_observation]), (11, [ex_observation])] = pre @ (t, obs') # post \<and> 2 \<le> 12 - (t::rat)"
proof -
  let ?o = "[ex_observation]" and ?p = "''/in/a''"
  have n: "dict_get (fi_pending ex_watcher) ?p = None" "fi_debounce_seconds ex_watcher = 2"
    by (simp_all add: ex_watcher_def init_file_input_def float_setting_def)
  have "emitted_at ?p (run_polls ([(10, ?o), (11, ?o)] @ [(12, ?o)]) ex_watcher) \<noteq> emitted_at ?p (run_polls [(10, ?o), (11, ?o)] ex_watcher)"
    using run_polls_path [of "[(10, ?o), (11, ?o)] @ [(12, ?o)]" ex_watcher ?p] run_polls_path [of "[(10, ?o), (11, ?o)]" ex_watcher ?p]
    by (simp add: path_state_def seen_polls_def seen_at_def watch_step_def watch_new_def watch_of_def n(2)
        ex_observation_def ex_watcher_def init_file_input_def float_setting_def)
  from reported_file_was_quiet [OF n(1) this] n(2) show ?thesis by auto
qed

lemma caught_up_files_are_remembered_witness:
  "\<not> is_new (fst (file_catch_up None [ex_observation] ex_watcher)) ex_observation"
  using caught_up_files_are_remembered [of "[ex_observation]" None ex_watcher] by (cases "file_catch_up None [ex_observation] ex_watcher") simp

lemma accepted_file_settings_witness:
  "init_file_input [(''path'', JStr ''/in''), (''poll_seconds'', JNull)] [] = None \<and>
   (case init_file_input [(''path'', JStr ''/in'')] [] of None \<Rightarrow> False | Some st \<Rightarrow> 0 < fi_poll_seconds st)"
proof -
  have v: "validate_file_settings [(''path'', JStr ''/in''), (''poll_seconds'', JNull)] = []"
    "validate_file_settings [(''path'', JStr ''/in'')] = []" by code_simp+
  show ?thesis using accepted_file_settings [OF v(1), of "[]"] accepted_file_settings [OF v(2), of "[]"]
    by (auto split: option.splits)
qed

end
