(* ===== verification/Webhook_Input.thy ===== *)
theory Webhook_Input
  imports Plugin_Settings
begin

text \<open>
  \<open>plugins/webhook_input\<close>: settings, lifecycle and the handling of one request. A byte is a
  character here as in Python's Latin-1; a connection is the list of bytes the client has sent
  and the handler has not read. The request line and the header lookup are what
  \<open>http.server\<close> hands the handler; decoding UTF-8, the JSON parser and the rendering of a
  float come as the functions of \<open>webhook_library\<close>.
\<close>

section \<open>Settings\<close>

definition max_body_bytes :: int where
  "max_body_bytes = 64 * 1024"

definition webhook_keys :: "string list" where
  "webhook_keys = [''secret'', ''bind'', ''port'', ''path'', ''header'', ''max_body_bytes'']"

definition validate_webhook_settings :: "settings \<Rightarrow> string list" where
  "validate_webhook_settings s =
     unknown_settings webhook_keys s @
     (case setting s ''secret'' of
        None \<Rightarrow> [''\"secret\" is required; this plugin has no anonymous mode. Put the value in '' @
                 ''/etc/noti-mapper/secrets.json and reference it as \"${secret:name}\".'']
      | Some j \<Rightarrow> (case j of
            JStr t \<Rightarrow> if length t < 16 then [''\"secret\" must be a string of at least 16 characters''] else []
          | _ \<Rightarrow> [''\"secret\" must be a string of at least 16 characters''])) @
     concat (map (setting_problem s nonempty_string ''a non-empty string'') [''bind'', ''path'', ''header'']) @
     (case setting s ''path'' of
        Some (JStr t) \<Rightarrow> if take 1 t \<noteq> ''/'' then [''\"path\" must start with \"/\"''] else []
      | _ \<Rightarrow> []) @
     setting_problem s (int_at_least 0) ''a positive integer'' ''port'' @
     setting_problem s (int_at_least 1) ''a positive integer'' ''max_body_bytes'' @
     (case setting s ''port'' of
        Some (JInt i) \<Rightarrow> if i > 65535 then [''\"port\" must be below 65536''] else []
      | _ \<Rightarrow> [])"

section \<open>State and lifecycle\<close>

record webhook_input =
  wh_bind :: string
  wh_port :: int
  wh_path :: string
  wh_header :: string
  wh_secret :: string
  wh_max_body :: int
  wh_bound_port :: "int option"
  wh_listening :: bool
  wh_shutdown :: bool
  wh_status :: health_status
  wh_detail :: string
  wh_accepted :: nat
  wh_rejected :: nat
  wh_emitted :: "observed_event list"

definition init_webhook :: "(rat \<Rightarrow> string) \<Rightarrow> settings \<Rightarrow> webhook_input option" where
  "init_webhook fl s =
     (case (int_setting s ''port'' 9736, int_setting s ''max_body_bytes'' max_body_bytes) of
        (Some port, Some limit) \<Rightarrow>
          Some \<lparr>wh_bind = str_setting fl s ''bind'' ''127.0.0.1'', wh_port = port,
            wh_path = str_setting fl s ''path'' ''/'', wh_header = str_setting fl s ''header'' ''X-Noti-Mapper-Token'',
            wh_secret = str_setting fl s ''secret'' [], wh_max_body = limit,
            wh_bound_port = None, wh_listening = False, wh_shutdown = False,
            wh_status = HsStarting, wh_detail = ''not yet listening'',
            wh_accepted = 0, wh_rejected = 0, wh_emitted = []\<rparr>
      | _ \<Rightarrow> None)"

definition webhook_address :: "webhook_input \<Rightarrow> string" where
  "webhook_address w = wh_bind w @ '':'' @ string_of_int (case wh_bound_port w of Some p \<Rightarrow> p | None \<Rightarrow> wh_port w)"

definition set_webhook_health :: "health_status \<Rightarrow> string \<Rightarrow> webhook_input \<Rightarrow> webhook_input" where
  "set_webhook_health h d w = w\<lparr>wh_status := h, wh_detail := d\<rparr>"

text \<open>
  \<open>start\<close>, cut where it blocks: \<open>listen\<close> up to \<open>serve_forever\<close>, given the text of the \<open>OSError\<close> or the
  port the socket got, and \<open>finish_serving\<close>, its \<open>finally\<close> block.
\<close>

definition listen :: "string + int \<Rightarrow> webhook_input \<Rightarrow> webhook_input" where
  "listen bound w =
     (case bound of
        Inl err \<Rightarrow> set_webhook_health HsFailed (''cannot listen on '' @ webhook_address w @ '': '' @ err) w
      | Inr port \<Rightarrow> (let w1 = w\<lparr>wh_bound_port := Some port, wh_listening := True\<rparr> in
          set_webhook_health HsOk (''listening on '' @ webhook_address w1 @ wh_path w1) w1))"

definition finish_serving :: "webhook_input \<Rightarrow> webhook_input" where
  "finish_serving w = set_webhook_health HsStopped ''not listening'' (w\<lparr>wh_listening := False\<rparr>)"

text \<open>\<open>stop\<close> asks the server to shut down when there is one; a stop before that is not remembered.\<close>

definition stop_webhook :: "webhook_input \<Rightarrow> webhook_input" where
  "stop_webhook w = (if wh_bound_port w \<noteq> None then w\<lparr>wh_shutdown := True\<rparr> else w)"

definition webhook_health :: "webhook_input \<Rightarrow> plugin_health" where
  "webhook_health w = \<lparr>ph_status = wh_status w, ph_detail =
     (if wh_status w = HsOk
      then wh_detail w @ ''; '' @ string_of_nat (wh_accepted w) @ '' accepted, '' @ string_of_nat (wh_rejected w) @ '' rejected''
      else wh_detail w)\<rparr>"

definition webhook_catch_up :: "time option \<Rightarrow> webhook_input \<Rightarrow> observed_event list" where
  "webhook_catch_up since w = []"

section \<open>One request\<close>

text \<open>
  \<open>hmac.compare_digest\<close> on strings: a \<open>TypeError\<close> when either holds a character that is not ASCII.
\<close>

definition compare_digest :: "string \<Rightarrow> string \<Rightarrow> string + bool" where
  "compare_digest a b =
     (if \<exists>c \<in> set (a @ b). 128 \<le> (of_char c :: nat) then Inl ''TypeError'' else Inr (a = b))"

definition authorized :: "string option \<Rightarrow> webhook_input \<Rightarrow> string + bool" where
  "authorized presented w = (case presented of None \<Rightarrow> Inr False | Some t \<Rightarrow> compare_digest t (wh_secret w))"

text \<open>\<open>json.loads\<close> of the decoded body: a value, a \<open>ValueError\<close>, or another exception (deep nesting).\<close>

datatype loaded = Loaded json | NotJson | LoadRaised string

record webhook_library =
  decode_replace :: "string \<Rightarrow> string"
  load_body :: "string \<Rightarrow> loaded"
  float_text :: "rat \<Rightarrow> string"

definition parse_json :: "webhook_library \<Rightarrow> string \<Rightarrow> string + (string, json) dict option" where
  "parse_json lib body =
     (case load_body lib body of
        LoadRaised e \<Rightarrow> Inl e | NotJson \<Rightarrow> Inr None
      | Loaded j \<Rightarrow> Inr (case j of JObj kvs \<Rightarrow> Some kvs | _ \<Rightarrow> None))"

definition body_metadata :: "webhook_library \<Rightarrow> string \<Rightarrow> string \<Rightarrow> (string, json) dict option \<Rightarrow> (string, string) dict" where
  "body_metadata lib body source parsed =
     (let m = [(''source'', source), (''body'', decode_replace lib body)] in
      case parsed of None \<Rightarrow> m
      | Some kvs \<Rightarrow> fold (\<lambda>(k, j) m. dict_put m (''json.'' @ k) (json_str (float_text lib) j)) kvs m)"

definition accept :: "webhook_library \<Rightarrow> time \<Rightarrow> string \<Rightarrow> string \<Rightarrow> webhook_input \<Rightarrow> string + webhook_input" where
  "accept lib now body source w =
     (case parse_json lib body of Inl e \<Rightarrow> Inl e
      | Inr parsed \<Rightarrow> Inr (w\<lparr>wh_accepted := wh_accepted w + 1,
          wh_emitted := wh_emitted w @ [\<lparr>occurred_at = now,
            metadata = clamp_metadata (body_metadata lib body source parsed)\<rparr>]\<rparr>))"

definition reject :: "webhook_input \<Rightarrow> webhook_input" where
  "reject w = w\<lparr>wh_rejected := wh_rejected w + 1\<rparr>"

record http_request =
  rq_post :: bool
  rq_path :: string
  rq_source :: string
  rq_header :: "string \<Rightarrow> string option"
  rq_stream :: string

record http_response =
  rs_status :: nat
  rs_length :: nat
  rs_payload :: string

text \<open>What handling leaves: the plugin, the unread bytes of the connection, and the response or the exception.\<close>

record handled =
  hd_plugin :: webhook_input
  hd_stream :: string
  hd_response :: "string + http_response"

definition respond :: "nat \<Rightarrow> string \<Rightarrow> http_response" where
  "respond status message = \<lparr>rs_status = status, rs_length = length message, rs_payload = message\<rparr>"

definition content_length :: "http_request \<Rightarrow> int option" where
  "content_length rq =
     (case rq_header rq ''Content-Length'' of None \<Rightarrow> None
      | Some raw \<Rightarrow> (case parse_int raw of None \<Rightarrow> None | Some n \<Rightarrow> if n < 0 then None else Some n))"

definition refuse :: "http_request \<Rightarrow> nat \<Rightarrow> string \<Rightarrow> webhook_input \<Rightarrow> handled" where
  "refuse rq status message w =
     \<lparr>hd_plugin = reject w, hd_stream = rq_stream rq, hd_response = Inr (respond status message)\<rparr>"

definition do_POST :: "webhook_library \<Rightarrow> time \<Rightarrow> http_request \<Rightarrow> webhook_input \<Rightarrow> handled" where
  "do_POST lib now rq w =
     (if rq_path rq \<noteq> wh_path w then refuse rq 404 ''not found'' w
      else case authorized (rq_header rq (wh_header w)) w of
        Inl e \<Rightarrow> \<lparr>hd_plugin = w, hd_stream = rq_stream rq, hd_response = Inl e\<rparr>
      | Inr False \<Rightarrow> refuse rq 401 ''unauthorized'' w
      | Inr True \<Rightarrow>
         (case content_length rq of
            None \<Rightarrow> refuse rq 411 ''length required'' w
          | Some n \<Rightarrow>
              if n > wh_max_body w then refuse rq 413 ''payload too large'' w
              else let body = take (nat n) (rq_stream rq); unread = drop (nat n) (rq_stream rq) in
                (case accept lib now body (rq_source rq) w of
                   Inl e \<Rightarrow> \<lparr>hd_plugin = w, hd_stream = unread, hd_response = Inl e\<rparr>
                 | Inr w' \<Rightarrow> \<lparr>hd_plugin = w', hd_stream = unread, hd_response = Inr (respond 204 [])\<rparr>)))"

definition do_GET :: "http_request \<Rightarrow> webhook_input \<Rightarrow> handled" where
  "do_GET rq w = refuse rq 405 ''method not allowed'' w"

definition handle_request :: "webhook_library \<Rightarrow> time \<Rightarrow> http_request \<Rightarrow> webhook_input \<Rightarrow> handled" where
  "handle_request lib now rq w = (if rq_post rq then do_POST lib now rq w else do_GET rq w)"

section \<open>Sessions\<close>

text \<open>Any number of requests, each with the time it is handled at, in the order the lock serializes them.\<close>

fun serve_all ::
  "webhook_library \<Rightarrow> (time \<times> http_request) list \<Rightarrow> webhook_input \<Rightarrow> webhook_input \<times> (string + http_response) list" where
  "serve_all lib [] w = (w, [])"
| "serve_all lib ((now, rq) # rest) w =
     (let h = handle_request lib now rq w; (w', rs) = serve_all lib rest (hd_plugin h) in (w', hd_response h # rs))"

definition has_status :: "(nat \<Rightarrow> bool) \<Rightarrow> string + http_response \<Rightarrow> bool" where
  "has_status P r = (case r of Inl _ \<Rightarrow> False | Inr a \<Rightarrow> P (rs_status a))"

lemma has_status_simps [simp]: "has_status P (Inl e) = False" "has_status P (Inr a) = P (rs_status a)"
  by (simp_all add: has_status_def)

definition presents_secret :: "webhook_input \<Rightarrow> http_request \<Rightarrow> bool" where
  "presents_secret w rq \<longleftrightarrow> rq_post rq \<and> rq_path rq = wh_path w \<and> rq_header rq (wh_header w) = Some (wh_secret w)"

text \<open>Handling a request touches the counters and the emitted events only.\<close>

definition webhook_config :: "webhook_input \<Rightarrow> string \<times> string \<times> string \<times> int" where
  "webhook_config w = (wh_path w, wh_header w, wh_secret w, wh_max_body w)"

lemma webhook_config_reject [simp]: "webhook_config (reject w) = webhook_config w"
  by (simp add: webhook_config_def reject_def)

lemma presents_secret_config: "webhook_config w = webhook_config w' \<Longrightarrow> presents_secret w = presents_secret w'"
  by (rule ext) (simp add: presents_secret_def webhook_config_def)

lemma accept_cases:
  assumes "accept lib now body source w = Inr w'"
  obtains e where "occurred_at e = now" "\<forall>p \<in> set (metadata e). length (snd p) \<le> 1038"
    "w' = w\<lparr>wh_accepted := wh_accepted w + 1, wh_emitted := wh_emitted w @ [e]\<rparr>"
proof -
  obtain parsed where w': "w' = w\<lparr>wh_accepted := wh_accepted w + 1,
          wh_emitted := wh_emitted w @ [\<lparr>occurred_at = now,
            metadata = clamp_metadata (body_metadata lib body source parsed)\<rparr>]\<rparr>"
    using assms by (auto simp: accept_def split: sum.splits)
  have "dict_ok (fold (\<lambda>(k, j) m. dict_put m (''json.'' @ k) (json_str fl j)) kvs m)" if "dict_ok m" for fl kvs m
    using that by (induction kvs arbitrary: m) auto
  then have "dict_ok (body_metadata lib body source parsed)"
    by (simp add: body_metadata_def Let_def split: option.split)
  from clamp_metadata_length [OF this] show thesis by (intro that [OF _ _ w']) simp_all
qed

text \<open>
  The three ways a request ends: refused with the counter of rejections raised and the
  connection untouched, admitted with one event, or an exception that leaves the plugin alone.
\<close>

lemma handle_request_cases:
  obtains (refused) status message where "handle_request lib now rq w = refuse rq status message w"
      "status \<in> {401, 404, 405, 411, 413}" "\<not> (presents_secret w rq \<and> (\<exists>n. content_length rq = Some n \<and> n \<le> wh_max_body w))"
  | (admitted) n e where "presents_secret w rq" "content_length rq = Some n" "n \<le> wh_max_body w"
      "occurred_at e = now" "\<forall>p \<in> set (metadata e). length (snd p) \<le> 1038"
      "handle_request lib now rq w = \<lparr>hd_plugin = w\<lparr>wh_accepted := wh_accepted w + 1, wh_emitted := wh_emitted w @ [e]\<rparr>,
         hd_stream = drop (nat n) (rq_stream rq), hd_response = Inr (respond 204 [])\<rparr>"
  | (unanswered) unread err where "rq_post rq" "rq_path rq = wh_path w" "rq_header rq (wh_header w) \<noteq> None"
      "handle_request lib now rq w = \<lparr>hd_plugin = w, hd_stream = unread, hd_response = Inl err\<rparr>"
proof (cases "rq_post rq \<and> rq_path rq = wh_path w")
  case False
  then show thesis
    by (intro refused [of "if rq_post rq then 404 else 405" "if rq_post rq then ''not found'' else ''method not allowed''"])
      (auto simp: handle_request_def do_POST_def do_GET_def presents_secret_def)
next
  case True
  then have h: "handle_request lib now rq w = do_POST lib now rq w" by (simp add: handle_request_def)
  show thesis
  proof (cases "authorized (rq_header rq (wh_header w)) w")
    case (Inl err)
    then show thesis using True
      by (intro unanswered [of "rq_stream rq" err]) (auto simp: h do_POST_def authorized_def split: option.splits)
  next
    case (Inr b)
    show thesis
    proof (cases b)
      case False
      then show thesis using True Inr
        by (intro refused [of 401 "''unauthorized''"])
          (auto simp: h do_POST_def authorized_def compare_digest_def presents_secret_def split: if_splits)
    next
      case b: True
      then have sec: "presents_secret w rq" using True Inr
        by (auto simp: presents_secret_def authorized_def compare_digest_def split: option.splits if_splits)
      show thesis
      proof (cases "content_length rq")
        case None
        then show thesis using True Inr b by (intro refused [of 411 "''length required''"]) (auto simp: h do_POST_def)
      next
        case (Some n)
        show thesis
        proof (cases "n \<le> wh_max_body w")
          case False
          then show thesis using True Inr b Some
            by (intro refused [of 413 "''payload too large''"]) (auto simp: h do_POST_def)
        next
          case small: True
          show thesis
          proof (cases "accept lib now (take (nat n) (rq_stream rq)) (rq_source rq) w")
            case (Inl err)
            then show thesis using True \<open>authorized _ _ = _\<close> b Some small sec
              by (intro unanswered [of "drop (nat n) (rq_stream rq)" err]) (auto simp: h do_POST_def presents_secret_def)
          next
            case acc: (Inr w')
            from acc show thesis
            proof (rule accept_cases)
              fix e
              assume "occurred_at e = now" "\<forall>p \<in> set (metadata e). length (snd p) \<le> 1038"
                and "w' = w\<lparr>wh_accepted := wh_accepted w + 1, wh_emitted := wh_emitted w @ [e]\<rparr>"
              then show thesis using True Inr b Some small sec acc by (intro admitted [of n e]) (auto simp: h do_POST_def)
            qed
          qed
        qed
      qed
    qed
  qed
qed

text \<open>
  C27. No event without the secret: over any sequence of requests the events emitted are exactly
  as many as the 204 answers, each stems from a POST to the receiver's path that presented
  the secret and carries values of bounded length, and every refusal is counted once.
\<close>

theorem every_event_presented_the_secret:
  assumes "serve_all lib rqs w = (w', answers)"
  shows "\<exists>events. wh_emitted w' = wh_emitted w @ events \<and> webhook_config w' = webhook_config w \<and>
    wh_accepted w' = wh_accepted w + length events \<and>
    length events = length (filter (has_status (\<lambda>c. c = 204)) answers) \<and>
    wh_rejected w' = wh_rejected w + length (filter (has_status (\<lambda>c. 400 \<le> c)) answers) \<and>
    (\<forall>e \<in> set events. (\<exists>(now, rq) \<in> set rqs. presents_secret w rq \<and> occurred_at e = now) \<and>
       (\<forall>p \<in> set (metadata e). length (snd p) \<le> 1038))"
  using assms
proof (induction rqs arbitrary: w answers)
  case (Cons q rqs)
  obtain now rq where q: "q = (now, rq)" by (cases q)
  let ?h = "handle_request lib now rq w"
  obtain rs where rest: "serve_all lib rqs (hd_plugin ?h) = (w', rs)" and answers: "answers = hd_response ?h # rs"
    using Cons.prems by (auto simp: q Let_def split: prod.splits)
  from Cons.IH [OF rest] obtain events where ih:
    "wh_emitted w' = wh_emitted (hd_plugin ?h) @ events" "webhook_config w' = webhook_config (hd_plugin ?h)"
    "wh_accepted w' = wh_accepted (hd_plugin ?h) + length events"
    "length events = length (filter (has_status (\<lambda>c. c = 204)) rs)"
    "wh_rejected w' = wh_rejected (hd_plugin ?h) + length (filter (has_status (\<lambda>c. 400 \<le> c)) rs)"
    "\<forall>e \<in> set events. (\<exists>(now, r) \<in> set rqs. presents_secret (hd_plugin ?h) r \<and> occurred_at e = now) \<and>
       (\<forall>p \<in> set (metadata e). length (snd p) \<le> 1038)"
    by blast
  show ?case
  proof (rule handle_request_cases [of lib now rq w])
    fix status message
    assume h: "?h = refuse rq status message w" and st: "status \<in> {401, 404, 405, 411, 413}"
    have hp: "hd_plugin ?h = reject w" "hd_response ?h = Inr (respond status message)" by (simp_all add: h refuse_def)
    have r: "presents_secret (reject w) = presents_secret w" by (rule presents_secret_config) simp
    have "wh_emitted (reject w) = wh_emitted w" "wh_accepted (reject w) = wh_accepted w" "wh_rejected (reject w) = wh_rejected w + 1"
      by (simp_all add: reject_def)
    with ih [unfolded hp r] st show ?thesis
      by (intro exI [of _ events]) (auto simp: q answers hp respond_def)
  next
    fix n e
    assume adm: "presents_secret w rq" "occurred_at e = now" "\<forall>p \<in> set (metadata e). length (snd p) \<le> 1038"
      and h: "?h = \<lparr>hd_plugin = w\<lparr>wh_accepted := wh_accepted w + 1, wh_emitted := wh_emitted w @ [e]\<rparr>,
         hd_stream = drop (nat n) (rq_stream rq), hd_response = Inr (respond 204 [])\<rparr>"
    have c: "webhook_config (w\<lparr>wh_accepted := wh_accepted w + 1, wh_emitted := wh_emitted w @ [e]\<rparr>) = webhook_config w"
      by (simp add: webhook_config_def)
    then show ?thesis using ih adm presents_secret_config [OF c]
      by (intro exI [of _ "e # events"]) (auto simp: q answers h respond_def)
  next
    fix unread err
    assume h: "?h = \<lparr>hd_plugin = w, hd_stream = unread, hd_response = Inl err\<rparr>"
    then show ?thesis using ih by (intro exI [of _ events]) (auto simp: q answers)
  qed
qed simp

text \<open>
  A request is left without any answer exactly when the token presented on the receiver's
  path, or the secret itself, is not ASCII, or when the JSON parser fails on the body of an authorized
  request with anything but a \<open>ValueError\<close>; the plugin counts nothing then.
\<close>

theorem unanswered_requests:
  "(\<exists>err. hd_response (handle_request lib now rq w) = Inl err \<and> hd_plugin (handle_request lib now rq w) = w) \<longleftrightarrow>
     rq_post rq \<and> rq_path rq = wh_path w \<and>
     ((\<exists>t. rq_header rq (wh_header w) = Some t \<and> (\<exists>c \<in> set (t @ wh_secret w). 128 \<le> (of_char c :: nat))) \<or>
      (\<exists>n err. rq_header rq (wh_header w) = Some (wh_secret w) \<and> content_length rq = Some n \<and> n \<le> wh_max_body w \<and>
         load_body lib (take (nat n) (rq_stream rq)) = LoadRaised err))"
proof (cases "rq_post rq \<and> rq_path rq = wh_path w")
  case False
  then show ?thesis by (auto simp: handle_request_def do_POST_def do_GET_def refuse_def)
next
  case True
  then have h: "handle_request lib now rq w = do_POST lib now rq w" by (simp add: handle_request_def)
  show ?thesis
  proof (cases "authorized (rq_header rq (wh_header w)) w")
    case (Inl err)
    then obtain t where "rq_header rq (wh_header w) = Some t" "\<exists>c \<in> set (t @ wh_secret w). 128 \<le> (of_char c :: nat)"
      by (auto simp: authorized_def compare_digest_def split: option.splits if_splits)
    then show ?thesis using True Inl by (auto simp: h do_POST_def)
  next
    case (Inr b)
    then have na: "\<nexists>t. rq_header rq (wh_header w) = Some t \<and> (\<exists>c \<in> set (t @ wh_secret w). 128 \<le> (of_char c :: nat))"
      and b: "b \<longleftrightarrow> rq_header rq (wh_header w) = Some (wh_secret w)"
      by (auto simp: authorized_def compare_digest_def split: option.splits if_splits)
    have d: "hd_response (do_POST lib now rq w) = Inl err \<and> hd_plugin (do_POST lib now rq w) = w \<longleftrightarrow>
        b \<and> (\<exists>n. content_length rq = Some n \<and> n \<le> wh_max_body w \<and> load_body lib (take (nat n) (rq_stream rq)) = LoadRaised err)" for err
      using True Inr
      by (cases b; cases "content_length rq") (auto simp: do_POST_def refuse_def accept_def parse_json_def Let_def split: sum.split loaded.splits)
    show ?thesis unfolding h d using True na b by blast
  qed
qed

text \<open>
  A receiver built from settings the validator accepts always demands a secret of at least
  16 characters, bounds the body and listens on a port below 65536. A null passes the validator:
  for a number it makes the constructor raise, and for the path it makes the receiver serve the
  path None, which no HTTP request names.
\<close>

theorem accepted_webhook_settings:
  assumes "validate_webhook_settings s = []"
  shows "case init_webhook fl s of
      None \<Rightarrow> dict_get s ''port'' = Some JNull \<or> dict_get s ''max_body_bytes'' = Some JNull
    | Some w \<Rightarrow> 16 \<le> length (wh_secret w) \<and> 1 \<le> wh_max_body w \<and> 0 \<le> wh_port w \<and> wh_port w \<le> 65535 \<and>
        (if dict_get s ''path'' = Some JNull then wh_path w = ''None'' else take 1 (wh_path w) = ''/'')"
proof -
  have v: "(case setting s ''secret'' of Some (JStr t) \<Rightarrow> 16 \<le> length t | _ \<Rightarrow> False)"
    "\<forall>j. setting s ''path'' = Some j \<longrightarrow> nonempty_string j"
    "\<forall>t. setting s ''path'' = Some (JStr t) \<longrightarrow> take 1 t = ''/''"
    "\<forall>j. setting s ''port'' = Some j \<longrightarrow> int_at_least 0 j" "\<forall>i. setting s ''port'' = Some (JInt i) \<longrightarrow> i \<le> 65535"
    "\<forall>j. setting s ''max_body_bytes'' = Some j \<longrightarrow> int_at_least 1 j"
    using assms unfolding validate_webhook_settings_def append_is_Nil_conv
    by (auto simp: setting_problem_Nil split: option.splits json.splits if_splits)
  have sec: "16 \<le> length (str_setting fl s ''secret'' [])"
    using v(1) by (auto simp: str_setting_def json_str_def setting_Some setting_None split: option.splits json.splits)
  have path: "if dict_get s ''path'' = Some JNull then str_setting fl s ''path'' ''/'' = ''None''
      else take 1 (str_setting fl s ''path'' ''/'') = ''/''"
    using v(2,3) by (auto simp: str_setting_def json_str_def setting_Some nonempty_string_def split: option.splits json.splits)
  have port: "case int_setting s ''port'' 9736 of None \<Rightarrow> dict_get s ''port'' = Some JNull | Some i \<Rightarrow> 0 \<le> i \<and> i \<le> 65535"
    using v(4,5) by (auto simp: int_setting_def setting_Some int_at_least_def split: option.splits json.splits)
  show ?thesis
    using sec path port accepted_int_setting [OF v(6), of max_body_bytes]
    by (auto simp: init_webhook_def max_body_bytes_def split: option.splits)
qed

section \<open>Witnesses\<close>

definition ex_library :: webhook_library where
  "ex_library = \<lparr>decode_replace = (\<lambda>b. b), load_body = (\<lambda>b. NotJson), float_text = (\<lambda>q. [])\<rparr>"

definition ex_receiver :: webhook_input where
  "ex_receiver = the (init_webhook (\<lambda>q. []) [(''secret'', JStr ''0123456789abcdef'')])"

definition ex_post :: "string \<Rightarrow> http_request" where
  "ex_post token = \<lparr>rq_post = True, rq_path = ''/'', rq_source = ''10.0.0.1'',
     rq_header = (\<lambda>h. if h = ''Content-Length'' then Some ''2'' else Some token), rq_stream = ''hi''\<rparr>"

lemma every_event_presented_the_secret_witness:
  "length (wh_emitted (fst (serve_all ex_library [(1, ex_post ''0123456789abcdef''), (2, ex_post ''guess'')] ex_receiver))) = 1"
proof -
  let ?r = "[(1, ex_post ''0123456789abcdef''), (2, ex_post ''guess'')]"
  have a: "map (has_status (\<lambda>c. c = 204)) (snd (serve_all ex_library ?r ex_receiver)) = [True, False]" by code_simp
  have e: "wh_emitted ex_receiver = []" by code_simp
  obtain w' answers where s: "serve_all ex_library ?r ex_receiver = (w', answers)" by fastforce
  have "length (filter (has_status (\<lambda>c. c = 204)) answers) = length (filter (\<lambda>b. b) (map (has_status (\<lambda>c. c = 204)) answers))"
    by (simp add: filter_map o_def)
  also have "\<dots> = 1" using a s by simp
  finally show ?thesis using every_event_presented_the_secret [OF s] e s by auto
qed

lemma accepted_webhook_settings_witness:
  "init_webhook (\<lambda>q. []) [(''secret'', JStr ''0123456789abcdef''), (''port'', JNull)] = None \<and>
   (case init_webhook (\<lambda>q. []) [(''secret'', JStr ''0123456789abcdef''), (''path'', JNull)] of
      None \<Rightarrow> False | Some w \<Rightarrow> wh_path w = ''None'')"
proof -
  have v: "validate_webhook_settings [(''secret'', JStr ''0123456789abcdef''), (''port'', JNull)] = []"
    "validate_webhook_settings [(''secret'', JStr ''0123456789abcdef''), (''path'', JNull)] = []" by code_simp+
  have i: "init_webhook (\<lambda>q. []) [(''secret'', JStr ''0123456789abcdef''), (''port'', JNull)] = None"
    by (simp add: init_webhook_def int_setting_def)
  show ?thesis using accepted_webhook_settings [OF v(2), of "\<lambda>q. []"] i
    by (auto split: option.splits)
qed

end
