(* ===== verification/Imap_Matching.thy ===== *)
theory Imap_Matching
  imports Plugin_Settings
begin

text \<open>
  \<open>plugins/imap_input/matching.py\<close> and \<open>settings.py\<close>: which senders and subjects count, and the settings
  they come from. The standard library's header decoder, address parser and regular expressions
  are the functions of \<open>mail_library\<close>.
\<close>

section \<open>Library\<close>

text \<open>
  \<open>decode_header\<close> gives the decoded pieces of a header joined, or an exception (an encoded word that is not
  base64); \<open>parse_address\<close> the address \<open>parseaddr\<close> finds; \<open>compile_error\<close> the text of \<open>re.error\<close>, if a
  pattern has one; \<open>matches_in\<close> whether \<open>pattern.search\<close> finds something; \<open>read_float\<close> the number a text
  stands for.
\<close>

record mail_library =
  decode_header :: "string \<Rightarrow> string + string"
  parse_address :: "string \<Rightarrow> string"
  compile_error :: "string \<Rightarrow> string option"
  matches_in :: "string \<Rightarrow> string \<Rightarrow> bool"
  read_float :: "string \<Rightarrow> rat option"
  show_float :: "rat \<Rightarrow> string"

section \<open>Headers\<close>

definition decode_subject :: "mail_library \<Rightarrow> string option \<Rightarrow> string + string" where
  "decode_subject lib raw =
     (case raw of None \<Rightarrow> Inr []
      | Some t \<Rightarrow> (case decode_header lib t of Inl e \<Rightarrow> Inl e | Inr d \<Rightarrow> Inr (py_strip d)))"

definition sender_address :: "mail_library \<Rightarrow> string option \<Rightarrow> string + string" where
  "sender_address lib raw =
     (case raw of None \<Rightarrow> Inr []
      | Some _ \<Rightarrow> (case decode_subject lib raw of Inl e \<Rightarrow> Inl e
         | Inr d \<Rightarrow> Inr (lower (py_strip (parse_address lib d)))))"

section \<open>Criteria\<close>

record criteria =
  cr_senders :: "string list"
  cr_patterns :: "string list"

definition make_criteria :: "string list \<Rightarrow> string list \<Rightarrow> criteria" where
  "make_criteria senders patterns = \<lparr>cr_senders = map (\<lambda>s. lower (py_strip s)) senders, cr_patterns = patterns\<rparr>"

text \<open>\<open>candidate.partition("@")[2]\<close>: what follows the first at sign, or nothing.\<close>

definition domain_of :: "string \<Rightarrow> string" where
  "domain_of a = tl (dropWhile (\<lambda>c. c \<noteq> CHR ''@'') a)"

definition ends_with :: "string \<Rightarrow> string \<Rightarrow> bool" where
  "ends_with s t \<longleftrightarrow> length t \<le> length s \<and> drop (length s - length t) s = t"

definition entry_allows :: "string \<Rightarrow> string \<Rightarrow> bool" where
  "entry_allows candidate allowed =
     (if CHR ''@'' \<in> set allowed then candidate = allowed
      else domain_of candidate = allowed \<or> ends_with (domain_of candidate) (CHR ''.'' # allowed))"

definition sender_allowed :: "criteria \<Rightarrow> string \<Rightarrow> bool" where
  "sender_allowed c address =
     (if cr_senders c = [] then True
      else let candidate = lower (py_strip address) in
        candidate \<noteq> [] \<and> list_ex (entry_allows candidate) (cr_senders c))"

definition subject_matches :: "mail_library \<Rightarrow> criteria \<Rightarrow> string \<Rightarrow> bool" where
  "subject_matches lib c subject = (cr_patterns c = [] \<or> list_ex (\<lambda>p. matches_in lib p subject) (cr_patterns c))"

record match_result =
  mr_matched :: bool
  mr_reason :: string

definition match_reason :: "criteria \<Rightarrow> string \<Rightarrow> string" where
  "match_reason c subject =
     (if cr_patterns c \<noteq> [] then ''subject '' @ py_repr subject @ '' matched''
      else if cr_senders c \<noteq> [] then ''sender is allowed and no subject pattern is configured''
      else ''nothing is configured to match on, so every message matches'')"

definition evaluate_message :: "mail_library \<Rightarrow> criteria \<Rightarrow> string \<Rightarrow> string \<Rightarrow> match_result" where
  "evaluate_message lib c sender subject =
     (if \<not> sender_allowed c sender
      then \<lparr>mr_matched = False, mr_reason = ''sender '' @ py_repr sender @ '' is not on the allowlist''\<rparr>
      else if \<not> subject_matches lib c subject
      then \<lparr>mr_matched = False, mr_reason = ''subject '' @ py_repr subject @ '' matches no pattern''\<rparr>
      else \<lparr>mr_matched = True, mr_reason = match_reason c subject\<rparr>)"

definition compile_problems :: "mail_library \<Rightarrow> string list \<Rightarrow> string list" where
  "compile_problems lib patterns =
     List.map_filter (\<lambda>p. map_option (\<lambda>err. ''\"subject_patterns\" entry '' @ py_repr p @ '' is not a valid regex: '' @ err)
       (compile_error lib p)) patterns"

section \<open>Settings\<close>

definition imap_required :: "string list" where
  "imap_required = [''host'', ''username'', ''password'']"

definition imap_keys :: "string list" where
  "imap_keys = imap_required @ [''senders'', ''subject_patterns'', ''port'', ''ssl'', ''folder'', ''idle_refresh_seconds'',
     ''poll_seconds'', ''dry_run'', ''reconnect_initial_seconds'', ''reconnect_max_seconds'', ''catch_up_limit'']"

definition string_list_problems :: "settings \<Rightarrow> string \<Rightarrow> string list" where
  "string_list_problems s key =
     (case setting s key of None \<Rightarrow> []
      | Some (JList js) \<Rightarrow>
          if js = [] then [''\"'' @ key @ ''\" is empty; omit it entirely to match any value'']
          else if list_all nonempty_string js then [] else [''\"'' @ key @ ''\" entries must be non-empty strings'']
      | Some _ \<Rightarrow> [''\"'' @ key @ ''\" must be an array of strings''])"

definition strings_in :: "json list \<Rightarrow> string list" where
  "strings_in js = List.map_filter (\<lambda>j. case j of JStr t \<Rightarrow> Some t | _ \<Rightarrow> None) js"

definition validate_imap_settings :: "mail_library \<Rightarrow> settings \<Rightarrow> string list" where
  "validate_imap_settings lib s =
     unknown_settings imap_keys s @
     map (\<lambda>key. ''\"'' @ key @ ''\" is required'') (filter (\<lambda>key. dict_get s key = None) imap_required) @
     concat (map (setting_problem s nonempty_string ''a non-empty string'') [''host'', ''username'', ''password'', ''folder'']) @
     string_list_problems s ''senders'' @ string_list_problems s ''subject_patterns'' @
     (case dict_get s ''subject_patterns'' of Some (JList js) \<Rightarrow> compile_problems lib (strings_in js) | _ \<Rightarrow> []) @
     concat (map (setting_problem s (int_at_least 1) ''a positive integer'')
       [''port'', ''idle_refresh_seconds'', ''poll_seconds'', ''catch_up_limit'']) @
     concat (map (setting_problem s is_json_bool ''true or false'') [''ssl'', ''dry_run''])"

record imap_settings =
  im_host :: string
  im_port :: int
  im_use_ssl :: bool
  im_username :: string
  im_password :: string
  im_folder :: string
  im_criteria :: criteria
  im_idle_refresh :: int
  im_poll_seconds :: int
  im_dry_run :: bool
  im_reconnect_initial :: seconds
  im_reconnect_max :: seconds
  im_catch_up_limit :: int

definition as_list :: "json option \<Rightarrow> json list" where
  "as_list v = (case v of Some (JList js) \<Rightarrow> js | _ \<Rightarrow> [])"

text \<open>\<open>bool(settings.get(key, dflt))\<close> of a value the validator let pass; null is false.\<close>

definition bool_setting :: "settings \<Rightarrow> string \<Rightarrow> bool \<Rightarrow> bool" where
  "bool_setting s key dflt = (case dict_get s key of None \<Rightarrow> dflt | Some j \<Rightarrow> j = JBool True)"

text \<open>\<open>float(str(settings.get(key, dflt)))\<close> of a value nothing has validated.\<close>

definition any_float_setting :: "mail_library \<Rightarrow> settings \<Rightarrow> string \<Rightarrow> rat \<Rightarrow> rat option" where
  "any_float_setting lib s key dflt =
     (case dict_get s key of Some (JStr t) \<Rightarrow> read_float lib t | _ \<Rightarrow> float_setting s key dflt)"

text \<open>No result is the \<open>ValueError\<close> of one of the conversions.\<close>

definition build_imap :: "mail_library \<Rightarrow> settings \<Rightarrow> imap_settings option" where
  "build_imap lib s =
     (let use_ssl = bool_setting s ''ssl'' True; str = str_setting (show_float lib) s in
      case (int_setting s ''port'' (if use_ssl then 993 else 143), int_setting s ''idle_refresh_seconds'' 1500,
            int_setting s ''poll_seconds'' 60, int_setting s ''catch_up_limit'' 200,
            any_float_setting lib s ''reconnect_initial_seconds'' 5, any_float_setting lib s ''reconnect_max_seconds'' 300) of
        (Some port, Some idle, Some poll, Some limit, Some initial, Some most) \<Rightarrow>
          Some \<lparr>im_host = str ''host'' [], im_port = port, im_use_ssl = use_ssl,
            im_username = str ''username'' [], im_password = str ''password'' [], im_folder = str ''folder'' ''INBOX'',
            im_criteria = make_criteria (map (json_str (show_float lib)) (as_list (setting s ''senders'')))
              (map (json_str (show_float lib)) (as_list (setting s ''subject_patterns''))),
            im_idle_refresh = idle, im_poll_seconds = poll, im_dry_run = bool_setting s ''dry_run'' False,
            im_reconnect_initial = initial, im_reconnect_max = most, im_catch_up_limit = limit\<rparr>
      | _ \<Rightarrow> None)"

section \<open>The allowlist\<close>

text \<open>What follows the last at sign: the host that sent the message.\<close>

definition host_of :: "string \<Rightarrow> string" where
  "host_of a = (if CHR ''@'' \<in> set a then rev (takeWhile (\<lambda>c. c \<noteq> CHR ''@'') (rev a)) else [])"

definition within_domain :: "string \<Rightarrow> string \<Rightarrow> bool" where
  "within_domain host allowed \<longleftrightarrow> host = allowed \<or> (\<exists>sub. host = sub @ CHR ''.'' # allowed)"

lemma ends_with_iff: "ends_with s t \<longleftrightarrow> (\<exists>p. s = p @ t)"
  by (auto simp: ends_with_def intro: exI [of _ "take (length s - length t) s"]) (metis append_take_drop_id)

lemma takeWhile_rev_suffix:
  "\<forall>c \<in> set t. P c \<Longrightarrow> takeWhile P (rev (p @ t)) = rev t @ takeWhile P (rev p)"
  using takeWhile_append2 [of "rev t" P "rev p"] by simp

lemma host_within_domain:
  assumes "CHR ''@'' \<notin> set allowed" "domain_of a = allowed \<or> ends_with (domain_of a) (CHR ''.'' # allowed)" "CHR ''@'' \<in> set a"
  shows "within_domain (host_of a) allowed"
proof -
  let ?P = "\<lambda>c. c \<noteq> CHR ''@''"
  obtain l where a: "a = l @ CHR ''@'' # domain_of a"
  proof -
    have "dropWhile ?P a \<noteq> []" using assms(3) by (auto simp: dropWhile_eq_Nil_conv)
    then have "dropWhile ?P a = CHR ''@'' # domain_of a" using hd_dropWhile [of ?P a] by (cases "dropWhile ?P a") (auto simp: domain_of_def)
    then have "a = takeWhile ?P a @ CHR ''@'' # domain_of a" using takeWhile_dropWhile_id [of ?P a] by simp
    then show thesis by (rule that)
  qed
  have h: "host_of a = rev (takeWhile ?P (rev a))" using assms(3) by (simp add: host_of_def)
  from assms(2) show ?thesis
  proof
    assume d: "domain_of a = allowed"
    have aeq: "a = (l @ [CHR ''@'']) @ allowed" using a d by simp
    have all: "\<forall>c \<in> set allowed. ?P c" using assms(1) by auto
    have "takeWhile ?P (rev a) = rev allowed @ takeWhile ?P (rev (l @ [CHR ''@'']))"
      by (subst aeq) (rule takeWhile_rev_suffix [OF all])
    then have "host_of a = allowed" unfolding h by simp
    then show ?thesis by (simp add: within_domain_def)
  next
    assume "ends_with (domain_of a) (CHR ''.'' # allowed)"
    then obtain p where "domain_of a = p @ CHR ''.'' # allowed" by (auto simp: ends_with_iff)
    then have aeq: "a = (l @ CHR ''@'' # p) @ CHR ''.'' # allowed" using a by simp
    have all: "\<forall>c \<in> set (CHR ''.'' # allowed). ?P c" using assms(1) by auto
    have "takeWhile ?P (rev a) = rev (CHR ''.'' # allowed) @ takeWhile ?P (rev (l @ CHR ''@'' # p))"
      by (subst aeq) (rule takeWhile_rev_suffix [OF all])
    then have "host_of a = rev (takeWhile ?P (rev (l @ CHR ''@'' # p))) @ CHR ''.'' # allowed" unfolding h by simp
    then show ?thesis by (auto simp: within_domain_def)
  qed
qed

text \<open>
  The allowlist admits nobody else: an address it allows is one of its addresses or comes from a host that
  is, or lies within, one of its domains; in an address with a single at sign the converse
  holds too. The comparison ignores case and surrounding white space.
\<close>

theorem allowlist_admits_listed_hosts:
  assumes "cr_senders c \<noteq> []" "a = lower (py_strip address)" "CHR ''@'' \<in> set a"
  shows "(sender_allowed c address \<longrightarrow>
      a \<in> set (cr_senders c) \<or> (\<exists>d \<in> set (cr_senders c). CHR ''@'' \<notin> set d \<and> within_domain (host_of a) d)) \<and>
    (host_of a = domain_of a \<longrightarrow>
      (sender_allowed c address \<longleftrightarrow>
        a \<in> set (cr_senders c) \<or> (\<exists>d \<in> set (cr_senders c). CHR ''@'' \<notin> set d \<and> within_domain (host_of a) d)))"
proof -
  have ne: "a \<noteq> []" using assms(3) by auto
  have s: "sender_allowed c address \<longleftrightarrow> (\<exists>d \<in> set (cr_senders c). entry_allows a d)"
    using assms(1) ne unfolding assms(2) by (simp add: sender_allowed_def Let_def list_ex_iff)
  have e: "entry_allows a d \<Longrightarrow> a = d \<or> (CHR ''@'' \<notin> set d \<and> within_domain (host_of a) d)" for d
    using host_within_domain [of d a] assms(3) by (auto simp: entry_allows_def split: if_splits)
  have r: "entry_allows a d" if "host_of a = domain_of a" "CHR ''@'' \<notin> set d" "within_domain (host_of a) d" for d
    using that by (auto simp: entry_allows_def within_domain_def ends_with_iff)
  have l: "entry_allows a a" using assms(3) by (simp add: entry_allows_def)
  show ?thesis unfolding s using e r l by blast
qed

lemma as_list_setting:
  "j \<in> set (as_list (setting s key)) \<longleftrightarrow> (\<exists>js. dict_get s key = Some (JList js) \<and> j \<in> set js)"
  by (auto simp: as_list_def setting_def split: option.split json.split)

text \<open>
  Settings the validator accepts make a reader with a positive port, timeouts and catch-up limit and patterns that all
  compile, except that a null number and a reconnect delay, which the validator does not look at,
  can make the constructor raise.
\<close>

theorem accepted_imap_settings:
  assumes "validate_imap_settings lib s = []"
  shows "case build_imap lib s of
      None \<Rightarrow> (\<exists>key \<in> {''port'', ''idle_refresh_seconds'', ''poll_seconds'', ''catch_up_limit''}. dict_get s key = Some JNull) \<or>
        (\<exists>key \<in> {''reconnect_initial_seconds'', ''reconnect_max_seconds''}. any_float_setting lib s key 0 = None)
    | Some im \<Rightarrow> 1 \<le> im_port im \<and> 1 \<le> im_idle_refresh im \<and> 1 \<le> im_poll_seconds im \<and> 1 \<le> im_catch_up_limit im \<and>
        (\<forall>p \<in> set (cr_patterns (im_criteria im)). compile_error lib p = None)"
proof -
  have v: "concat (map (setting_problem s (int_at_least 1) ''a positive integer'')
       [''port'', ''idle_refresh_seconds'', ''poll_seconds'', ''catch_up_limit'']) = []"
    "string_list_problems s ''subject_patterns'' = []"
    "(case dict_get s ''subject_patterns'' of Some (JList js) \<Rightarrow> compile_problems lib (strings_in js) | _ \<Rightarrow> []) = []"
    using assms unfolding validate_imap_settings_def append_is_Nil_conv by blast+
  have num: "\<forall>j. setting s key = Some j \<longrightarrow> int_at_least 1 j"
    if "key \<in> {''port'', ''idle_refresh_seconds'', ''poll_seconds'', ''catch_up_limit''}" for key
    using v(1) that by (auto simp: setting_problem_Nil)
  note n = accepted_int_setting [OF num]
  have f: "any_float_setting lib s key d = None \<longleftrightarrow> any_float_setting lib s key 0 = None" for key d
    by (auto simp: any_float_setting_def float_setting_def split: option.splits json.splits)
  have pats: "compile_error lib p = None"
    if pat: "p \<in> set (map (json_str fl) (as_list (setting s ''subject_patterns'')))" for p fl
  proof -
    obtain js j where js: "dict_get s ''subject_patterns'' = Some (JList js)" "j \<in> set js" "p = json_str fl j"
      using pat by (auto simp: as_list_setting)
    then have "list_all nonempty_string js" using v(2) by (auto simp: string_list_problems_def setting_def split: if_splits)
    then have "nonempty_string j" using js(2) by (simp add: list_all_iff)
    then obtain t where "j = JStr t" by (cases j) (simp_all add: nonempty_string_def)
    then have "p \<in> set (strings_in js)" using js by (force simp: strings_in_def json_str_def map_filter_def)
    then show ?thesis using v(3) js(1) by (auto simp: compile_problems_def map_filter_def filter_empty_conv split: option.splits)
  qed
  show ?thesis
    using n [of "''port''" 993] n [of "''port''" 143] n [of "''idle_refresh_seconds''" 1500]
      n [of "''poll_seconds''" 60] n [of "''catch_up_limit''" 200] f [of "''reconnect_initial_seconds''" 5]
      f [of "''reconnect_max_seconds''" 300] pats
    unfolding build_imap_def Let_def make_criteria_def
    by (cases "bool_setting s ''ssl'' True") (auto split: option.splits)
qed

section \<open>Witnesses\<close>

definition ex_mail_library :: mail_library where
  "ex_mail_library = \<lparr>decode_header = Inr, parse_address = (\<lambda>t. t), compile_error = (\<lambda>p. None),
     matches_in = (\<lambda>p t. p = t), read_float = (\<lambda>t. None), show_float = (\<lambda>q. [])\<rparr>"

lemma allowlist_admits_listed_hosts_witness:
  "sender_allowed (make_criteria [''ups.com''] []) ''Noreply@Mail.UPS.com'' \<and>
   \<not> sender_allowed (make_criteria [''ups.com''] []) ''a@ups.com.example.net''"
proof -
  have d: "make_criteria [''ups.com''] [] = \<lparr>cr_senders = [''ups.com''], cr_patterns = []\<rparr>" by code_simp
  have h: "lower (py_strip ''Noreply@Mail.UPS.com'') = ''noreply@mail.ups.com''"
    "lower (py_strip ''a@ups.com.example.net'') = ''a@ups.com.example.net''"
    "host_of ''noreply@mail.ups.com'' = ''mail.ups.com''" "domain_of ''noreply@mail.ups.com'' = ''mail.ups.com''"
    "host_of ''a@ups.com.example.net'' = ''ups.com.example.net''" by code_simp+
  have y: "within_domain ''mail.ups.com'' ''ups.com''" unfolding within_domain_def by (intro disjI2 exI [of _ "''mail''"]) simp
  have "\<not> ends_with ''ups.com.example.net'' (CHR ''.'' # ''ups.com'')" by code_simp
  then have n: "\<not> within_domain ''ups.com.example.net'' ''ups.com''" by (auto simp: within_domain_def ends_with_iff)
  show ?thesis
    using allowlist_admits_listed_hosts [OF _ refl, of "make_criteria [''ups.com''] []" "''Noreply@Mail.UPS.com''"]
      allowlist_admits_listed_hosts [OF _ refl, of "make_criteria [''ups.com''] []" "''a@ups.com.example.net''"] y n
    unfolding h d by simp
qed

lemma accepted_imap_settings_witness:
  "(case build_imap ex_mail_library [(''host'', JStr ''h''), (''username'', JStr ''u''), (''password'', JStr ''p'')] of
      None \<Rightarrow> False | Some im \<Rightarrow> 1 \<le> im_port im) \<and>
   build_imap ex_mail_library [(''host'', JStr ''h''), (''username'', JStr ''u''), (''password'', JStr ''p''),
     (''reconnect_max_seconds'', JStr ''soon'')] = None"
proof -
  let ?s = "[(''host'', JStr ''h''), (''username'', JStr ''u''), (''password'', JStr ''p'')]"
  let ?r = "?s @ [(''reconnect_max_seconds'', JStr ''soon'')]"
  have v: "validate_imap_settings ex_mail_library ?s = []" "validate_imap_settings ex_mail_library ?r = []" by code_simp+
  have b: "build_imap ex_mail_library ?r = None" "build_imap ex_mail_library ?s \<noteq> None"
    by (simp_all add: build_imap_def any_float_setting_def float_setting_def int_setting_def ex_mail_library_def bool_setting_def Let_def)
  show ?thesis using accepted_imap_settings [OF v(1)] accepted_imap_settings [OF v(2)] b by (auto split: option.splits)
qed

end
