(* ===== verification/Imap_Input.thy ===== *)
theory Imap_Input
  imports Imap_Matching Clock
begin

text \<open>
  \<open>plugins/imap_input\<close>: the UID cursor, the evaluation of new messages, catching up and the
  reconnect loop. The mail server is what its answers are: each call of the client answers a
  value or raises. The instance's scratch storage is a dict of texts. Log lines are left out,
  and so are the timing of IDLE and the announcement at startup, which only logs.
\<close>

section \<open>What the server answers\<close>

record address =
  ad_mailbox :: "string option"
  ad_host :: "string option"

text \<open>An envelope's fields, decoded; the date as a moment in UTC when it is a \<open>datetime\<close> at all.\<close>

record envelope =
  en_from :: "address list"
  en_sender :: "string option"
  en_subject :: "string option"
  en_date :: "time option"

record fetched =
  fe_envelope :: "envelope option"
  fe_internal_date :: "time option"

text \<open>
  The answers of one connection: connecting and logging in, the UIDVALIDITY of the selected folder, all
  UIDs, those of a search from a UID on, and what a fetch gives for UIDs.
\<close>

record server =
  sv_connect :: "string + unit"
  sv_uidvalidity :: "string + int"
  sv_all :: "string + int list"
  sv_from :: "int \<Rightarrow> string + int list"
  sv_fetch :: "int list \<Rightarrow> string + (int, fetched) dict"

section \<open>State\<close>

record imap_emission =
  ie_uid :: int
  ie_event :: observed_event

record imap_input =
  ii_settings :: imap_settings
  ii_storage :: "(string, string) dict"
  ii_status :: health_status
  ii_detail :: string
  ii_emitted :: "imap_emission list"

definition init_imap :: "mail_library \<Rightarrow> settings \<Rightarrow> (string, string) dict \<Rightarrow> imap_input option" where
  "init_imap lib s store = map_option (\<lambda>im. \<lparr>ii_settings = im, ii_storage = store, ii_status = HsStarting,
     ii_detail = ''not yet connected'', ii_emitted = []\<rparr>) (build_imap lib s)"

definition set_imap_health :: "health_status \<Rightarrow> string \<Rightarrow> imap_input \<Rightarrow> imap_input" where
  "set_imap_health h d st = st\<lparr>ii_status := h, ii_detail := d\<rparr>"

section \<open>The cursor\<close>

definition stored_int :: "imap_input \<Rightarrow> string \<Rightarrow> int option" where
  "stored_int st key = (case dict_get (ii_storage st) key of None \<Rightarrow> None | Some raw \<Rightarrow> parse_int raw)"

definition store_int :: "string \<Rightarrow> int \<Rightarrow> imap_input \<Rightarrow> imap_input" where
  "store_int key i st = st\<lparr>ii_storage := dict_put (ii_storage st) key (string_of_int i)\<rparr>"

definition uidvalidity_key :: string where "uidvalidity_key = ''uidvalidity''"
definition last_uid_key :: string where "last_uid_key = ''last_uid''"

definition highest_uid :: "server \<Rightarrow> string + int" where
  "highest_uid sv = (case sv_all sv of Inl e \<Rightarrow> Inl e | Inr uids \<Rightarrow> Inr (if uids = [] then 0 else Max (set uids)))"

definition reconcile_uidvalidity :: "server \<Rightarrow> int \<Rightarrow> imap_input \<Rightarrow> string + imap_input" where
  "reconcile_uidvalidity sv uidvalidity st =
     (if stored_int st uidvalidity_key = Some uidvalidity \<and> stored_int st last_uid_key \<noteq> None then Inr st
      else case highest_uid sv of Inl e \<Rightarrow> Inl e
        | Inr highest \<Rightarrow> Inr (store_int last_uid_key highest (store_int uidvalidity_key uidvalidity st)))"

definition advance_cursor :: "int \<Rightarrow> imap_input \<Rightarrow> imap_input" where
  "advance_cursor uid st = store_int last_uid_key uid st"

definition select_folder :: "server \<Rightarrow> imap_input \<Rightarrow> string + imap_input" where
  "select_folder sv st =
     (case sv_uidvalidity sv of Inl e \<Rightarrow> Inl e
      | Inr u \<Rightarrow> (case reconcile_uidvalidity sv u st of Inl e \<Rightarrow> Inl e
         | Inr st' \<Rightarrow> Inr (set_imap_health HsOk
             (''watching '' @ im_folder (ii_settings st) @ '' on '' @ im_host (ii_settings st)) st')))"

definition new_uids :: "server \<Rightarrow> imap_input \<Rightarrow> string + int list" where
  "new_uids sv st =
     (case stored_int st last_uid_key of None \<Rightarrow> Inr []
      | Some l \<Rightarrow> (case sv_from sv (l + 1) of Inl e \<Rightarrow> Inl e
          | Inr found \<Rightarrow> Inr (sort (filter (\<lambda>uid. uid > l) found))))"

section \<open>Messages\<close>

definition sender_of :: "mail_library \<Rightarrow> envelope \<Rightarrow> string + string" where
  "sender_of lib en =
     (case find (\<lambda>a. ad_mailbox a \<notin> {None, Some []} \<and> ad_host a \<notin> {None, Some []}) (en_from en) of
        Some a \<Rightarrow> Inr (lower (the (ad_mailbox a) @ ''@'' @ the (ad_host a)))
      | None \<Rightarrow> sender_address lib (en_sender en))"

definition message_date :: "envelope \<Rightarrow> time option \<Rightarrow> time \<Rightarrow> time" where
  "message_date en internal fallback =
     (case en_date en of Some t \<Rightarrow> t | None \<Rightarrow> (case internal of Some t \<Rightarrow> t | None \<Rightarrow> fallback))"

definition mail_event :: "imap_settings \<Rightarrow> int \<Rightarrow> string \<Rightarrow> string \<Rightarrow> time \<Rightarrow> observed_event" where
  "mail_event im uid sender subject t = \<lparr>occurred_at = t, metadata = clamp_metadata
     [(''sender'', sender), (''subject'', subject), (''date'', isoformat t), (''folder'', im_folder im),
      (''uid'', string_of_int uid)]\<rparr>"

text \<open>One message: nothing, an event, or the exception its headers raise.\<close>

definition evaluate_uid :: "mail_library \<Rightarrow> time \<Rightarrow> imap_settings \<Rightarrow> int \<Rightarrow> fetched \<Rightarrow> string + imap_emission option" where
  "evaluate_uid lib now im uid f =
     (case fe_envelope f of None \<Rightarrow> Inr None
      | Some en \<Rightarrow> (case sender_of lib en of Inl e \<Rightarrow> Inl e
         | Inr sender \<Rightarrow> (case decode_subject lib (en_subject en) of Inl e \<Rightarrow> Inl e
            | Inr subject \<Rightarrow>
                if \<not> mr_matched (evaluate_message lib (im_criteria im) sender subject) \<or> im_dry_run im then Inr None
                else Inr (Some \<lparr>ie_uid = uid, ie_event = mail_event im uid sender subject
                       (message_date en (fe_internal_date f) now)\<rparr>))))"

text \<open>The loop of \<open>_evaluate\<close>: the events so far, and the exception that ended it if one did.\<close>

fun evaluate_all :: "mail_library \<Rightarrow> time \<Rightarrow> imap_settings \<Rightarrow> (int \<times> fetched) list \<Rightarrow> imap_emission list \<times> string option" where
  "evaluate_all lib now im [] = ([], None)"
| "evaluate_all lib now im ((uid, f) # rest) =
     (case evaluate_uid lib now im uid f of
        Inl e \<Rightarrow> ([], Some e)
      | Inr ev \<Rightarrow> (case evaluate_all lib now im rest of (evs, r) \<Rightarrow> ((case ev of None \<Rightarrow> evs | Some x \<Rightarrow> x # evs), r)))"

text \<open>\<open>sorted(fetched)\<close>: the entries by UID.\<close>

definition sorted_entries :: "(int, fetched) dict \<Rightarrow> (int \<times> fetched) list" where
  "sorted_entries d = sort_key fst d"

definition emit_all :: "imap_emission list \<Rightarrow> imap_input \<Rightarrow> imap_input" where
  "emit_all evs st = st\<lparr>ii_emitted := ii_emitted st @ evs\<rparr>"

text \<open>
  \<open>_process_new\<close>: what is evaluated is emitted at once, so an exception leaves the events before it
  emitted and the cursor where it was. The exception comes with the state it leaves.
\<close>

definition process_new :: "mail_library \<Rightarrow> time \<Rightarrow> server \<Rightarrow> imap_input \<Rightarrow> imap_input \<times> string option" where
  "process_new lib now sv st =
     (case new_uids sv st of Inl e \<Rightarrow> (st, Some e)
      | Inr [] \<Rightarrow> (st, None)
      | Inr uids \<Rightarrow> (case sv_fetch sv uids of Inl e \<Rightarrow> (st, Some e)
         | Inr d \<Rightarrow> (case evaluate_all lib now (ii_settings st) (sorted_entries d) of
             (evs, Some e) \<Rightarrow> (emit_all evs st, Some e)
           | (evs, None) \<Rightarrow> (advance_cursor (Max (set uids)) (emit_all evs st), None))))"

text \<open>\<open>xs[-n:]\<close>, which is all of the list for 0.\<close>

definition last_n :: "nat \<Rightarrow> 'a list \<Rightarrow> 'a list" where
  "last_n n xs = (if n = 0 then xs else drop (length xs - n) xs)"

text \<open>\<open>catch_up\<close>; what it returns are the events of the list, each shown here with its UID.\<close>

definition imap_catch_up :: "mail_library \<Rightarrow> time \<Rightarrow> server \<Rightarrow> imap_input \<Rightarrow> imap_input \<times> (string + imap_emission list)" where
  "imap_catch_up lib now sv st =
     (case sv_connect sv of Inl e \<Rightarrow> (st, Inl e)
      | Inr _ \<Rightarrow> (case select_folder sv st of Inl e \<Rightarrow> (st, Inl e)
      | Inr st1 \<Rightarrow> (case new_uids sv st1 of Inl e \<Rightarrow> (st1, Inl e)
      | Inr [] \<Rightarrow> (st1, Inr [])
      | Inr found \<Rightarrow>
          let limit = nat (im_catch_up_limit (ii_settings st1));
              uids = (if length found > limit then last_n limit found else found) in
          (case sv_fetch sv uids of Inl e \<Rightarrow> (st1, Inl e)
           | Inr d \<Rightarrow> (case evaluate_all lib now (ii_settings st1) (sorted_entries d) of
               (evs, Some e) \<Rightarrow> (st1, Inl e)
             | (evs, None) \<Rightarrow> (advance_cursor (Max (set uids)) st1, Inr evs))))))"

section \<open>Watching\<close>

text \<open>
  \<open>_watch_once\<close> with the answers of the server at each round: connecting, selecting, one pass, and one
  pass for every further time the server is looked at, through IDLE or by polling.
\<close>

fun passes :: "mail_library \<Rightarrow> (time \<times> server) list \<Rightarrow> imap_input \<Rightarrow> imap_input \<times> string option" where
  "passes lib [] st = (st, None)"
| "passes lib ((now, sv) # rest) st =
     (case process_new lib now sv st of (st', Some e) \<Rightarrow> (st', Some e) | (st', None) \<Rightarrow> passes lib rest st')"

definition supports_idle :: "bool \<Rightarrow> imap_input \<Rightarrow> imap_input" where
  "supports_idle idle st = (if idle then st else set_imap_health HsDegraded ''server does not support IDLE; polling'' st)"

definition watch_once :: "mail_library \<Rightarrow> bool \<Rightarrow> (time \<times> server) \<Rightarrow> (time \<times> server) list \<Rightarrow> imap_input \<Rightarrow> imap_input \<times> string option" where
  "watch_once lib idle first rest st =
     (case sv_connect (snd first) of Inl e \<Rightarrow> (st, Some e)
      | Inr _ \<Rightarrow> (case select_folder (snd first) st of Inl e \<Rightarrow> (st, Some e)
         | Inr st1 \<Rightarrow> (case process_new lib (fst first) (snd first) st1 of
              (st2, Some e) \<Rightarrow> (st2, Some e)
            | (st2, None) \<Rightarrow> passes lib rest (supports_idle idle st2))))"

text \<open>
  The reconnect loop of \<open>start\<close> over the outcomes of its rounds (whether \<open>_watch_once\<close> raised): the delays it
  waits, one after each failure.
\<close>

fun reconnect_delays :: "seconds \<Rightarrow> seconds \<Rightarrow> seconds \<Rightarrow> bool list \<Rightarrow> seconds list" where
  "reconnect_delays initial most delay [] = []"
| "reconnect_delays initial most delay (raised # rest) =
     (if raised then delay # reconnect_delays initial most (min (delay * 2) most) rest
      else reconnect_delays initial most initial rest)"

definition imap_failure :: "string \<Rightarrow> string \<Rightarrow> imap_input \<Rightarrow> imap_input" where
  "imap_failure ty err st = set_imap_health HsFailed (ty @ '': '' @ err) st"

section \<open>What a server may answer\<close>

text \<open>
  A server that follows the protocol: the folder keeps its UIDVALIDITY, UIDs are positive 32-bit numbers,
  and a fetch answers for the UIDs asked about, each once.
\<close>

definition uid_ok :: "int \<Rightarrow> bool" where
  "uid_ok i \<longleftrightarrow> 0 < i \<and> i < 2 ^ 32"


definition cursor_at :: "int \<Rightarrow> int \<Rightarrow> imap_input \<Rightarrow> bool" where
  "cursor_at v l st \<longleftrightarrow> stored_int st uidvalidity_key = Some v \<and> stored_int st last_uid_key = Some l"

lemma power_bound: "(2 :: int) ^ 32 \<le> 10 ^ 4300"
proof -
  have "(2 :: int) ^ 32 \<le> 10 ^ 10" by simp
  also have "\<dots> \<le> 10 ^ 4300" by (rule power_increasing) simp_all
  finally show ?thesis .
qed

lemma parse_small_int: "0 \<le> i \<Longrightarrow> i < 2 ^ 32 \<Longrightarrow> parse_int (string_of_int i) = Some i"
  by (rule parse_int_string_of_int [OF _ less_le_trans [OF _ power_bound]])

lemma stored_int_store:
  "0 \<le> i \<Longrightarrow> i < 2 ^ 32 \<Longrightarrow> stored_int (store_int key i st) key' = (if key' = key then Some i else stored_int st key')"
  using parse_small_int [of i] by (simp add: stored_int_def store_int_def)

lemma stored_int_frames [simp]:
  "stored_int (emit_all evs st) key = stored_int st key" "stored_int (set_imap_health h d st) key = stored_int st key"
  by (simp_all add: stored_int_def emit_all_def set_imap_health_def)

lemma keys_differ [simp]: "uidvalidity_key \<noteq> last_uid_key" "last_uid_key \<noteq> uidvalidity_key"
  by (simp_all add: uidvalidity_key_def last_uid_key_def)


section \<open>Evaluation in UID order\<close>





section \<open>No message twice\<close>













section \<open>A rebuilt mailbox\<close>

text \<open>
  A first run, a lost cursor or a rebuilt mailbox delivers nothing: when what is stored does not
  match the folder, catching up moves the cursor to the highest UID there is and returns no event.
\<close>

theorem rebuilt_mailbox_delivers_nothing:
  assumes "sv_connect sv = Inr ()" "sv_uidvalidity sv = Inr u" "sv_all sv = Inr uids" "0 \<le> u" "u < 2 ^ 32" "\<forall>i \<in> set uids. uid_ok i"
    and "\<forall>n. \<exists>found. sv_from sv n = Inr found \<and> set found \<subseteq> set uids"
    and "stored_int st uidvalidity_key \<noteq> Some u \<or> stored_int st last_uid_key = None"
  shows "\<exists>st'. imap_catch_up lib now sv st = (st', Inr []) \<and> ii_emitted st' = ii_emitted st \<and>
    cursor_at u (if uids = [] then 0 else Max (set uids)) st' \<and> new_uids sv st' = Inr []"
proof -
  define h where "h = (if uids = [] then 0 else Max (set uids))"
  have h: "0 \<le> h" "h < 2 ^ 32" "\<forall>i \<in> set uids. i \<le> h"
    using assms(6) Max_in [of "set uids"] by (auto simp: h_def uid_ok_def intro: less_imp_le)
  define st1 where "st1 = store_int last_uid_key h (store_int uidvalidity_key u st)"
  obtain d where s: "select_folder sv st = Inr (set_imap_health HsOk d st1)"
    using assms(2,3,8) by (auto simp: select_folder_def reconcile_uidvalidity_def highest_uid_def h_def st1_def)
  have c: "cursor_at u h (set_imap_health HsOk d st1)"
    using h assms(4,5) by (simp add: cursor_at_def st1_def stored_int_store)
  obtain found where f: "sv_from sv (h + 1) = Inr found" "set found \<subseteq> set uids" using assms(7) by blast
  have "filter (\<lambda>i. h < i) found = []" using f(2) h(3) by (auto simp: filter_empty_conv not_less)
  then have n: "new_uids sv (set_imap_health HsOk d st1) = Inr []"
    using c f(1) by (simp add: new_uids_def cursor_at_def)
  have "ii_emitted (set_imap_health HsOk d st1) = ii_emitted st" by (simp add: set_imap_health_def st1_def store_int_def)
  then show ?thesis using s n c assms(1) by (auto simp: imap_catch_up_def h_def)
qed

section \<open>A header that cannot be decoded\<close>

text \<open>The UIDs delivered before the first message whose headers raise.\<close>

definition before_failure :: "mail_library \<Rightarrow> imap_settings \<Rightarrow> (int, fetched) dict \<Rightarrow> int list" where
  "before_failure lib im d = map ie_uid (fst (evaluate_all lib 0 im (sorted_entries d)))"

lemma evaluate_uid_time:
  "map_sum id (map_option ie_uid) (evaluate_uid lib now im uid f) = map_sum id (map_option ie_uid) (evaluate_uid lib 0 im uid f)"
  by (auto simp: evaluate_uid_def split: option.split sum.split)

lemma evaluate_all_time:
  "map ie_uid (fst (evaluate_all lib now im es)) = map ie_uid (fst (evaluate_all lib 0 im es)) \<and>
   snd (evaluate_all lib now im es) = snd (evaluate_all lib 0 im es)"
proof (induction es)
  case (Cons p es)
  obtain uid f where p: "p = (uid, f)" by (cases p)
  show ?case using Cons evaluate_uid_time [of lib now im uid f]
    by (cases "evaluate_uid lib now im uid f"; cases "evaluate_uid lib 0 im uid f")
      (auto simp: p split: prod.split option.splits)
qed simp

lemma evaluate_all_failure:
  "(uid, f) \<in> set es \<Longrightarrow> evaluate_uid lib 0 im uid f = Inl e \<Longrightarrow> snd (evaluate_all lib 0 im es) \<noteq> None"
proof (induction es)
  case (Cons p es)
  then show ?case by (cases p; cases "evaluate_uid lib 0 im (fst p) (snd p)") (auto split: prod.split)
qed simp

text \<open>
  C40. A message whose subject or sender cannot be decoded blocks the reader: as long as it is among the new
  messages, every pass raises, the cursor stays, and the matching messages before it are
  delivered again by every pass.
\<close>

theorem undecodable_header_blocks_reader:
  assumes "new_uids sv st = Inr uids" "sv_fetch sv uids = Inr d" "uids \<noteq> []"
    and "(uid, f) \<in> set d" "evaluate_uid lib 0 (ii_settings st) uid f = Inl e"
  shows "let st' = fold (\<lambda>now s. fst (process_new lib now sv s)) ticks st in
    ii_storage st' = ii_storage st \<and> snd (process_new lib now sv st') \<noteq> None \<and>
    map ie_uid (ii_emitted st') =
      map ie_uid (ii_emitted st) @ concat (replicate (length ticks) (before_failure lib (ii_settings st) d))"
proof -
  have mem: "(uid, f) \<in> set (sorted_entries d)" using assms(4) by (simp add: sorted_entries_def)
  have one: "\<exists>evs err. process_new lib now sv s = (emit_all evs s, Some err) \<and> map ie_uid evs = before_failure lib (ii_settings st) d"
    if "ii_storage s = ii_storage st" "ii_settings s = ii_settings st" for now s
  proof -
    obtain evs r where e: "evaluate_all lib now (ii_settings st) (sorted_entries d) = (evs, r)" by fastforce
    have "r \<noteq> None" "map ie_uid evs = before_failure lib (ii_settings st) d"
      using evaluate_all_time [of lib now "ii_settings st" "sorted_entries d"] evaluate_all_failure [OF mem assms(5)] e
      by (simp_all add: before_failure_def)
    moreover have "new_uids sv s = Inr uids" using assms(1) that by (simp add: new_uids_def stored_int_def)
    ultimately show ?thesis using assms(2,3) e that
      by (cases uids) (auto simp: process_new_def)
  qed
  have "ii_storage (fold (\<lambda>now s. fst (process_new lib now sv s)) ticks s) = ii_storage st \<and>
      ii_settings (fold (\<lambda>now s. fst (process_new lib now sv s)) ticks s) = ii_settings st \<and>
      map ie_uid (ii_emitted (fold (\<lambda>now s. fst (process_new lib now sv s)) ticks s)) =
        map ie_uid (ii_emitted s) @ concat (replicate (length ticks) (before_failure lib (ii_settings st) d))"
    if "ii_storage s = ii_storage st" "ii_settings s = ii_settings st" for s
    using that
  proof (induction ticks arbitrary: s)
    case (Cons t ts)
    obtain evs err where p: "process_new lib t sv s = (emit_all evs s, Some err)" "map ie_uid evs = before_failure lib (ii_settings st) d"
      using one [OF Cons.prems] by blast
    then show ?case using Cons.IH [of "emit_all evs s"] Cons.prems by (simp add: emit_all_def)
  qed simp
  note all = this [OF refl refl]
  obtain evs err where "process_new lib now sv (fold (\<lambda>now s. fst (process_new lib now sv s)) ticks st) = (evs, Some err)"
    using one [OF conjunct1 [OF all] conjunct1 [OF conjunct2 [OF all]]] by blast
  then show ?thesis using all by (simp only: Let_def snd_conv) simp
qed

section \<open>Reconnecting\<close>

text \<open>With a sensible pair of settings every delay between two attempts lies between them.\<close>

theorem reconnect_delays_bounded:
  assumes "0 < initial" "initial \<le> most" "initial \<le> delay" "delay \<le> most"
  shows "\<forall>d \<in> set (reconnect_delays initial most delay rounds). initial \<le> d \<and> d \<le> most"
  using assms(3,4)
proof (induction rounds arbitrary: delay)
  case (Cons raised rounds)
  have d: "initial \<le> min (delay * 2) most" "min (delay * 2) most \<le> most" using Cons.prems assms(1,2) by simp_all
  show ?case
  proof (cases raised)
    case True
    then show ?thesis using Cons.IH [OF d] Cons.prems by (simp only: reconnect_delays.simps if_True list.set ball_simps simp_thms)
  next
    case False
    then show ?thesis using Cons.IH [OF order_refl assms(2)] by (simp only: reconnect_delays.simps if_False)
  qed
qed simp

section \<open>Witnesses\<close>

definition ex_reader :: imap_input where
  "ex_reader = the (init_imap ex_mail_library [(''host'', JStr ''h''), (''username'', JStr ''u''), (''password'', JStr ''p'')]
     [(''uidvalidity'', ''1''), (''last_uid'', ''4'')])"

definition ex_envelope :: envelope where
  "ex_envelope = \<lparr>en_from = [\<lparr>ad_mailbox = Some ''a'', ad_host = Some ''b''\<rparr>], en_sender = None, en_subject = Some ''hi'', en_date = Some 7\<rparr>"

definition ex_server :: "int \<Rightarrow> server" where
  "ex_server v = \<lparr>sv_connect = Inr (), sv_uidvalidity = Inr v, sv_all = Inr [4, 5],
     sv_from = (\<lambda>n. Inr (if n \<le> 5 then [5, 4] else [5])),
     sv_fetch = (\<lambda>uids. Inr (if 5 \<in> set uids then [(5, \<lparr>fe_envelope = Some ex_envelope, fe_internal_date = None\<rparr>)] else []))\<rparr>"

lemma ex_reader_cursor: "cursor_at 1 4 ex_reader"
  by (simp add: cursor_at_def ex_reader_def init_imap_def build_imap_def Let_def int_setting_def any_float_setting_def
      float_setting_def bool_setting_def stored_int_def uidvalidity_key_def last_uid_key_def, code_simp)


lemma rebuilt_mailbox_delivers_nothing_witness:
  "\<exists>st'. imap_catch_up ex_mail_library 9 (ex_server 2) ex_reader = (st', Inr [])"
proof -
  have "stored_int ex_reader uidvalidity_key \<noteq> Some 2" using ex_reader_cursor by (simp add: cursor_at_def)
  then have no: "stored_int ex_reader uidvalidity_key \<noteq> Some 2 \<or> stored_int ex_reader last_uid_key = None" ..
  have f: "\<forall>n. \<exists>found. sv_from (ex_server 2) n = Inr found \<and> set found \<subseteq> set [4, 5]"
    by (simp add: ex_server_def)
  have s: "sv_connect (ex_server 2) = Inr ()" "sv_uidvalidity (ex_server 2) = Inr 2" "sv_all (ex_server 2) = Inr [4, 5]"
    by (simp_all add: ex_server_def)
  obtain st' where "imap_catch_up ex_mail_library 9 (ex_server 2) ex_reader = (st', Inr [])"
    using rebuilt_mailbox_delivers_nothing [OF s _ _ _ f no, of ex_mail_library 9] by (auto simp: uid_ok_def)
  then show ?thesis by blast
qed

definition ex_bad_library :: mail_library where
  "ex_bad_library = ex_mail_library\<lparr>decode_header := (\<lambda>t. Inl ''HeaderParseError'')\<rparr>"

lemma undecodable_header_blocks_reader_witness:
  "ii_storage (fold (\<lambda>now s. fst (process_new ex_bad_library now (ex_server 1) s)) [9, 10] ex_reader) = ii_storage ex_reader"
proof -
  let ?f = "\<lparr>fe_envelope = Some ex_envelope, fe_internal_date = None\<rparr>"
  have n: "new_uids (ex_server 1) ex_reader = Inr [5]" by code_simp
  have d: "sv_fetch (ex_server 1) [5] = Inr [(5, ?f)]" by (simp add: ex_server_def)
  have e: "evaluate_uid ex_bad_library 0 (ii_settings ex_reader) 5 ?f = Inl ''HeaderParseError''"
    by (simp add: evaluate_uid_def sender_of_def ex_envelope_def decode_subject_def ex_bad_library_def)
  show ?thesis using undecodable_header_blocks_reader [OF n d _ _ e, of "[9, 10]" 11] by (simp add: Let_def)
qed

lemma reconnect_delays_bounded_witness: "\<forall>d \<in> set (reconnect_delays 5 300 5 [True, True, False, True]). 5 \<le> d \<and> d \<le> 300"
  by (rule reconnect_delays_bounded) simp_all

end
