(* ===== verification/Imap_Session.thy ===== *)
theory Imap_Session
  imports Imap_Input Logging "HOL-Library.Sublist"
begin

text \<open>
  One connection of \<open>plugins/imap_input\<close> from login to logout: the commands the reader gives
  the client, in order, through IDLE or by polling, and what it logs about its criteria and
  about each message. What the client answers and what the monotonic clock shows is given
  round by round. \<open>Imap_Input\<close> has the same connection as a sequence of looks at the mailbox;
  here it is shown which looks those are.
\<close>

section \<open>Log lines\<close>

datatype log_line = Log int string

definition constrains_sender :: "criteria \<Rightarrow> bool" where
  "constrains_sender c \<longleftrightarrow> cr_senders c \<noteq> []"

definition constrains_subject :: "criteria \<Rightarrow> bool" where
  "constrains_subject c \<longleftrightarrow> cr_patterns c \<noteq> []"

definition announce_criteria :: "string \<Rightarrow> imap_settings \<Rightarrow> log_line list" where
  "announce_criteria name im =
     (let c = im_criteria im in
      if \<not> constrains_sender c \<and> \<not> constrains_subject c
      then [Log 30 (name @ '' has neither a sender allowlist nor subject patterns, so every '' @
              ''message in '' @ im_folder im @ '' will be treated as an event. Set \"senders\" or '' @
              ''\"subject_patterns\" if that is not what you meant.'')]
      else (if \<not> constrains_sender c
            then [Log 20 ''no sender allowlist; any sender matching a subject pattern is an event''] else []) @
           (if \<not> constrains_subject c
            then [Log 20 ''no subject patterns; any message from an allowlisted sender is an event''] else []))"

definition log_evaluation :: "imap_settings \<Rightarrow> int \<Rightarrow> string \<Rightarrow> string \<Rightarrow> match_result \<Rightarrow> log_line" where
  "log_evaluation im uid sender subject r =
     (if im_dry_run im
      then Log 20 (''dry run: '' @ (if mr_matched r then ''would emit'' else ''would ignore'') @ '' UID '' @
             string_of_int uid @ '' from '' @ sender @ '' -- '' @ mr_reason r)
      else if mr_matched r then Log 20 (''matched UID '' @ string_of_int uid @ '' from '' @ sender @ '': '' @ subject)
      else Log 10 (''ignored UID '' @ string_of_int uid @ '': '' @ mr_reason r))"

lemma mr_matched_evaluate: "mr_matched (evaluate_message lib c sender subject) = (sender_allowed c sender \<and> subject_matches lib c subject)"
  by (simp add: evaluate_message_def)

text \<open>A reader that treats every message as an event warns of it; no other does.\<close>

lemma announce_warns:
  "(\<exists>text. Log 30 text \<in> set (announce_criteria name im)) \<longleftrightarrow>
     (\<forall>lib sender subject. mr_matched (evaluate_message lib (im_criteria im) sender subject))"
proof
  assume "\<exists>text. Log 30 text \<in> set (announce_criteria name im)"
  then have "cr_senders (im_criteria im) = []" "cr_patterns (im_criteria im) = []"
    by (auto simp: announce_criteria_def Let_def constrains_sender_def constrains_subject_def split: if_splits)
  then show "\<forall>lib sender subject. mr_matched (evaluate_message lib (im_criteria im) sender subject)"
    by (simp add: evaluate_message_def sender_allowed_def subject_matches_def)
next
  assume all: "\<forall>lib sender subject. mr_matched (evaluate_message lib (im_criteria im) sender subject)"
  have "cr_senders (im_criteria im) = []"
  proof (rule ccontr)
    assume "cr_senders (im_criteria im) \<noteq> []"
    then have "\<not> sender_allowed (im_criteria im) []" by (simp add: sender_allowed_def py_strip_def lower_def)
    with all show False by (simp add: mr_matched_evaluate)
  qed
  moreover have "cr_patterns (im_criteria im) = []"
  proof (rule ccontr)
    assume p: "cr_patterns (im_criteria im) \<noteq> []"
    define lib :: mail_library where "lib = \<lparr>decode_header = Inr, parse_address = id, compile_error = (\<lambda>_. None),
      matches_in = (\<lambda>_ _. False), read_float = (\<lambda>_. None), show_float = (\<lambda>_. [])\<rparr>"
    have "\<not> subject_matches lib (im_criteria im) []" using p by (simp add: subject_matches_def lib_def list_ex_iff)
    with all show False by (simp add: mr_matched_evaluate)
  qed
  ultimately show "\<exists>text. Log 30 text \<in> set (announce_criteria name im)"
    by (simp add: announce_criteria_def Let_def constrains_sender_def constrains_subject_def)
qed

section \<open>Commands\<close>

text \<open>\<open>IDLE\<close> and \<open>SELECT\<close> come with whether the server took the one and whether the other is read-only.\<close>

datatype imap_command =
    Login
  | SelectFolder string bool
  | SearchAll
  | SearchFrom int
  | FetchUids "int list"
  | IdleStart bool
  | IdleCheck
  | IdleDone
  | Noop
  | Logout
  | Shutdown

datatype session_end = Waiting | Ended | Raised string

type_synonym session = "imap_command list \<times> imap_input \<times> session_end"

definition issue :: "imap_command list \<Rightarrow> session \<Rightarrow> session" where
  "issue cs = (\<lambda>(cs', st, e). (cs @ cs', st, e))"

text \<open>What a pass over the new messages asks the server.\<close>

definition pass_commands :: "server \<Rightarrow> imap_input \<Rightarrow> imap_command list" where
  "pass_commands sv st =
     (case stored_int st last_uid_key of None \<Rightarrow> []
      | Some l \<Rightarrow> SearchFrom (l + 1) #
          (case new_uids sv st of Inl _ \<Rightarrow> [] | Inr uids \<Rightarrow> if uids = [] then [] else [FetchUids uids]))"

section \<open>Watching through IDLE\<close>

text \<open>
  One turn of the loop: whether the plugin was stopped, what \<open>idle_check\<close> answers (an exception,
  or whether there were responses), what leaving IDLE, the mailbox and entering IDLE again
  answer, and the clock when the turn reads it.
\<close>

record idle_round =
  ir_stopped :: bool
  ir_check :: "string + bool"
  ir_done :: "string + unit"
  ir_look :: "time \<times> server"
  ir_idle :: "string + unit"
  ir_clock :: seconds

fun idle_rounds :: "mail_library \<Rightarrow> seconds \<Rightarrow> seconds \<Rightarrow> idle_round list \<Rightarrow> imap_input \<Rightarrow> session" where
  "idle_rounds lib refresh deadline [] st = ([], st, Waiting)"
| "idle_rounds lib refresh deadline (r # rs) st =
     (if ir_stopped r then ([], st, Ended)
      else case ir_check r of
        Inl e \<Rightarrow> ([IdleCheck], st, Raised e)
      | Inr responses \<Rightarrow>
          if responses
          then (case ir_done r of
             Inl e \<Rightarrow> ([IdleCheck, IdleDone], st, Raised e)
           | Inr _ \<Rightarrow>
               (let looked = [IdleCheck, IdleDone] @ pass_commands (snd (ir_look r)) st in
                case process_new lib (fst (ir_look r)) (snd (ir_look r)) st of
                  (st', Some e) \<Rightarrow> (looked, st', Raised e)
                | (st', None) \<Rightarrow>
                    (case ir_idle r of
                       Inl e \<Rightarrow> (looked @ [IdleStart False], st', Raised e)
                     | Inr _ \<Rightarrow> issue (looked @ [IdleStart True]) (idle_rounds lib refresh (ir_clock r + refresh) rs st'))))
          else if ir_clock r \<ge> deadline then ([IdleCheck], st, Ended)
          else issue [IdleCheck] (idle_rounds lib refresh deadline rs st))"

text \<open>\<open>_idle_loop\<close>; its \<open>finally\<close> runs when the loop is left, however that happens.\<close>

definition idle_loop :: "mail_library \<Rightarrow> seconds \<Rightarrow> string + unit \<Rightarrow> idle_round list \<Rightarrow> imap_input \<Rightarrow> session" where
  "idle_loop lib start entered rounds st =
     (let refresh = of_int (im_idle_refresh (ii_settings st)) in
      case entered of
        Inl e \<Rightarrow> ([IdleStart False], st, Raised e)
      | Inr _ \<Rightarrow>
          (case idle_rounds lib refresh (start + refresh) rounds st of
             (cs, st', Waiting) \<Rightarrow> (IdleStart True # cs, st', Waiting)
           | (cs, st', e) \<Rightarrow> (IdleStart True # cs @ [IdleDone], st', e)))"

section \<open>Watching by polling\<close>

record poll_round =
  pl_stopped :: bool
  pl_noop :: "string + unit"
  pl_look :: "time \<times> server"

fun poll_rounds :: "mail_library \<Rightarrow> poll_round list \<Rightarrow> imap_input \<Rightarrow> session" where
  "poll_rounds lib [] st = ([], st, Waiting)"
| "poll_rounds lib (r # rs) st =
     (if pl_stopped r then ([], st, Ended)
      else case pl_noop r of
        Inl e \<Rightarrow> ([Noop], st, Raised e)
      | Inr _ \<Rightarrow>
          (let looked = Noop # pass_commands (snd (pl_look r)) st in
           case process_new lib (fst (pl_look r)) (snd (pl_look r)) st of
             (st', Some e) \<Rightarrow> (looked, st', Raised e)
           | (st', None) \<Rightarrow> issue looked (poll_rounds lib rs st')))"

section \<open>The whole connection\<close>

datatype watching =
    Through_Idle seconds "string + unit" "idle_round list"
  | By_Polling "poll_round list"

definition select_commands :: "server \<Rightarrow> imap_input \<Rightarrow> imap_command list" where
  "select_commands sv st = SelectFolder (im_folder (ii_settings st)) True #
     (case sv_uidvalidity sv of Inl _ \<Rightarrow> []
      | Inr u \<Rightarrow> if stored_int st uidvalidity_key = Some u \<and> stored_int st last_uid_key \<noteq> None then [] else [SearchAll])"

definition watch_rounds :: "mail_library \<Rightarrow> watching \<Rightarrow> imap_input \<Rightarrow> session" where
  "watch_rounds lib w st =
     (case w of Through_Idle start entered rounds \<Rightarrow> idle_loop lib start entered rounds st
      | By_Polling rounds \<Rightarrow> poll_rounds lib rounds (supports_idle False st))"

text \<open>\<open>_close_quietly\<close>, given what logging out answers.\<close>

definition close_commands :: "string + unit \<Rightarrow> imap_command list" where
  "close_commands closing = Logout # (case closing of Inl _ \<Rightarrow> [Shutdown] | Inr _ \<Rightarrow> [])"

definition close_session :: "string + unit \<Rightarrow> session \<Rightarrow> session" where
  "close_session closing = (\<lambda>(cs, st, e). (if e = Waiting then cs else cs @ close_commands closing, st, e))"

definition watch_session ::
  "mail_library \<Rightarrow> time \<times> server \<Rightarrow> watching \<Rightarrow> string + unit \<Rightarrow> imap_input \<Rightarrow> session" where
  "watch_session lib first w closing st =
     (case sv_connect (snd first) of
        Inl e \<Rightarrow> ([Login], st, Raised e)
      | Inr _ \<Rightarrow> issue [Login] (close_session closing (issue (select_commands (snd first) st)
          (case select_folder (snd first) st of
             Inl e \<Rightarrow> ([], st, Raised e)
           | Inr st1 \<Rightarrow> issue (pass_commands (snd first) st1)
               (case process_new lib (fst first) (snd first) st1 of
                  (st2, Some e) \<Rightarrow> ([], st2, Raised e)
                | (st2, None) \<Rightarrow> watch_rounds lib w st2)))))"

section \<open>The protocol\<close>

text \<open>
  What a list of commands has to obey, given whether the connection is in IDLE: a check only in
  IDLE, every other command but the one that leaves it only outside, and folders selected
  read-only.
\<close>

fun obeys :: "bool \<Rightarrow> imap_command list \<Rightarrow> bool" where
  "obeys idling [] = True"
| "obeys idling (IdleStart ok # cs) = (\<not> idling \<and> obeys ok cs)"
| "obeys idling (IdleCheck # cs) = (idling \<and> obeys True cs)"
| "obeys idling (IdleDone # cs) = obeys False cs"
| "obeys idling (SelectFolder folder readonly # cs) = (\<not> idling \<and> readonly \<and> obeys False cs)"
| "obeys idling (c # cs) = (\<not> idling \<and> obeys False cs)"

fun idle_after :: "bool \<Rightarrow> imap_command list \<Rightarrow> bool" where
  "idle_after idling [] = idling"
| "idle_after idling (IdleStart ok # cs) = idle_after ok cs"
| "idle_after idling (IdleCheck # cs) = idle_after True cs"
| "idle_after idling (c # cs) = idle_after False cs"

lemma obeys_append [simp]: "obeys b (xs @ ys) = (obeys b xs \<and> obeys (idle_after b xs) ys)"
  by (induction b xs rule: obeys.induct) simp_all

lemma idle_after_append [simp]: "idle_after b (xs @ ys) = idle_after (idle_after b xs) ys"
  by (induction b xs rule: obeys.induct) simp_all

lemma obeys_pass [simp]:
  "obeys False (pass_commands sv st)" "\<not> idle_after False (pass_commands sv st)"
  "obeys False (select_commands sv st)" "\<not> idle_after False (select_commands sv st)"
  by (auto simp: pass_commands_def select_commands_def split: option.split sum.split)

lemma fst_issue [simp]: "fst (issue cs x) = cs @ fst x" "snd (issue cs x) = snd x"
  by (simp_all add: issue_def split: prod.split)

lemma idle_rounds_obey: "obeys True (fst (idle_rounds lib refresh deadline rs st))"
proof (induction lib refresh deadline rs st rule: idle_rounds.induct)
  case (2 lib refresh deadline r rs st)
  then show ?case by (simp add: Let_def split: sum.split prod.split option.split)
qed simp

lemma idle_loop_obeys:
  "obeys False (fst (idle_loop lib start entered rounds st))"
  "snd (snd (idle_loop lib start entered rounds st)) \<noteq> Waiting \<Longrightarrow> \<not> idle_after False (fst (idle_loop lib start entered rounds st))"
  using idle_rounds_obey [of lib "of_int (im_idle_refresh (ii_settings st))" "start + of_int (im_idle_refresh (ii_settings st))" rounds st]
  by (auto simp: idle_loop_def Let_def split: sum.splits prod.splits session_end.splits)

lemma poll_rounds_obey:
  "obeys False (fst (poll_rounds lib rs st)) \<and> \<not> idle_after False (fst (poll_rounds lib rs st))"
proof (induction lib rs st rule: poll_rounds.induct)
  case (2 lib r rs st)
  then show ?case by (simp add: Let_def split: sum.split prod.split option.split)
qed simp

lemma watch_rounds_obey:
  "obeys False (fst (watch_rounds lib w st))"
  "snd (snd (watch_rounds lib w st)) \<noteq> Waiting \<Longrightarrow> \<not> idle_after False (fst (watch_rounds lib w st))"
  using idle_loop_obeys poll_rounds_obey by (auto simp: watch_rounds_def split: watching.split)

lemma close_obeys:
  assumes "obeys False (fst x)" "snd (snd x) \<noteq> Waiting \<Longrightarrow> \<not> idle_after False (fst x)"
  shows "obeys False (fst (close_session closing x))"
  using assms by (auto simp: close_session_def close_commands_def split: prod.splits sum.split)

lemma close_session_end: "snd (close_session closing x) = snd x"
  by (simp add: close_session_def split: prod.split)

text \<open>
  C24. However a connection goes, through IDLE or by polling and whatever raises, the mailbox is searched and
  fetched only while IDLE is suspended, IDLE is checked only while it is on, the folder is
  selected read-only, and a connection that was made and has ended was hung up, last.
\<close>

theorem reader_keeps_protocol:
  "obeys False (fst (watch_session lib first w closing st)) \<and>
   (sv_connect (snd first) = Inr () \<and> snd (snd (watch_session lib first w closing st)) \<noteq> Waiting \<longrightarrow>
     (\<exists>cs. fst (watch_session lib first w closing st) = cs @ close_commands closing))"
proof (cases "sv_connect (snd first)")
  case (Inr u)
  define body where "body = issue (select_commands (snd first) st)
      (case select_folder (snd first) st of
         Inl e \<Rightarrow> ([], st, Raised e)
       | Inr st1 \<Rightarrow> issue (pass_commands (snd first) st1)
           (case process_new lib (fst first) (snd first) st1 of
              (st2, Some e) \<Rightarrow> ([], st2, Raised e)
            | (st2, None) \<Rightarrow> watch_rounds lib w st2))"
  have eq: "watch_session lib first w closing st = issue [Login] (close_session closing body)"
    by (simp add: watch_session_def Inr body_def)
  have "obeys False (fst body)" "snd (snd body) \<noteq> Waiting \<Longrightarrow> \<not> idle_after False (fst body)"
    using watch_rounds_obey [of lib w] by (auto simp: body_def split: sum.splits prod.splits option.splits)
  then have "obeys False (fst (close_session closing body))" by (rule close_obeys)
  then show ?thesis by (auto simp: eq close_session_def split: prod.splits)
qed (simp add: watch_session_def)

section \<open>Which looks a connection takes\<close>

text \<open>
  A connection under way or ended has looked at the mailbox at some of its turns, and its state is
  that of as many passes.
\<close>

definition taken :: "mail_library \<Rightarrow> (time \<times> server) list \<Rightarrow> (time \<times> server) list \<Rightarrow> (time \<times> server) list \<Rightarrow>
    imap_input \<Rightarrow> session \<Rightarrow> bool" where
  "taken lib looks offered answered st x \<longleftrightarrow>
     (case x of (cs, st', e) \<Rightarrow> subseq looks offered \<and> (e = Waiting \<longrightarrow> looks = answered) \<and>
       (\<exists>r. passes lib looks st = (st', r) \<and> (\<forall>err. r = Some err \<longrightarrow> e = Raised err)))"

lemma taken_none: "e \<noteq> Waiting \<Longrightarrow> taken lib [] offered answered st (cs, st, e)"
  by (simp add: taken_def)

lemma taken_skip: "taken lib looks offered answered st x \<Longrightarrow> taken lib looks (l # offered) answered st (issue cs x)"
  by (auto simp: taken_def issue_def split: prod.splits)

lemma taken_raise:
  "process_new lib now sv st = (st', Some e) \<Longrightarrow> taken lib [(now, sv)] ((now, sv) # offered) answered st (cs, st', Raised e)"
  by (simp add: taken_def)

lemma taken_last:
  "process_new lib now sv st = (st', None) \<Longrightarrow> e \<noteq> Waiting \<Longrightarrow> taken lib [(now, sv)] ((now, sv) # offered) answered st (cs, st', e)"
  by (simp add: taken_def)

lemma taken_look:
  "process_new lib now sv st = (st', None) \<Longrightarrow> taken lib looks offered answered st' x \<Longrightarrow>
     taken lib ((now, sv) # looks) ((now, sv) # offered) ((now, sv) # answered) st (issue cs x)"
  by (auto simp: taken_def issue_def split: prod.splits)

text \<open>The looks that are due: a turn of IDLE with responses, or any turn of polling.\<close>

definition idle_answers :: "idle_round list \<Rightarrow> (time \<times> server) list" where
  "idle_answers rs = map ir_look (filter (\<lambda>r. ir_check r = Inr True) rs)"

lemma idle_rounds_taken:
  "\<exists>looks. taken lib looks (map ir_look rs) (idle_answers rs) st (idle_rounds lib refresh deadline rs st)"
proof (induction rs arbitrary: deadline st)
  case Nil
  then show ?case by (simp add: taken_def idle_answers_def)
next
  case (Cons r rs)
  obtain now sv where l: "ir_look r = (now, sv)" by (cases "ir_look r")
  consider "ir_stopped r" | e where "\<not> ir_stopped r" "ir_check r = Inl e"
    | "\<not> ir_stopped r" "ir_check r = Inr False" "ir_clock r \<ge> deadline"
    | "\<not> ir_stopped r" "ir_check r = Inr False" "\<not> ir_clock r \<ge> deadline"
    | e where "\<not> ir_stopped r" "ir_check r = Inr True" "ir_done r = Inl e"
    | "\<not> ir_stopped r" "ir_check r = Inr True" "ir_done r = Inr ()"
    by (metis (full_types) old.unit.exhaust sum.exhaust)
  then show ?case
  proof cases
    case 4
    then obtain looks where "taken lib looks (map ir_look rs) (idle_answers rs) st (idle_rounds lib refresh deadline rs st)"
      using Cons.IH by blast
    from taken_skip [OF this, of "ir_look r" "[IdleCheck]"] show ?thesis using 4 by (auto simp: idle_answers_def)
  next
    case 6
    obtain st' x where p: "process_new lib now sv st = (st', x)" by fastforce
    show ?thesis
    proof (cases x)
      case (Some e)
      with p show ?thesis using 6 l taken_raise [of lib now sv st st' e] by (auto simp: Let_def)
    next
      case None
      show ?thesis
      proof (cases "ir_idle r")
        case (Inl e)
        then show ?thesis using 6 l None p taken_last [of lib now sv st st' "Raised e"] by (auto simp: Let_def)
      next
        case (Inr u)
        obtain looks where "taken lib looks (map ir_look rs) (idle_answers rs) st'
            (idle_rounds lib refresh (ir_clock r + refresh) rs st')"
          using Cons.IH by blast
        from taken_look [OF p [unfolded None] this] show ?thesis
          using 6 l None p Inr by (auto simp: Let_def idle_answers_def)
      qed
    qed
  qed (auto intro: exI [of _ "[]"] taken_none)
qed

lemma poll_rounds_taken:
  "\<exists>looks. taken lib looks (map pl_look rs) (map pl_look rs) st (poll_rounds lib rs st)"
proof (induction rs arbitrary: st)
  case Nil
  then show ?case by (simp add: taken_def)
next
  case (Cons r rs)
  obtain now sv where l: "pl_look r = (now, sv)" by (cases "pl_look r")
  obtain st' x where p: "process_new lib now sv st = (st', x)" by fastforce
  consider "pl_stopped r" | e where "\<not> pl_stopped r" "pl_noop r = Inl e"
    | e where "\<not> pl_stopped r" "pl_noop r = Inr ()" "x = Some e" | "\<not> pl_stopped r" "pl_noop r = Inr ()" "x = None"
    by (metis old.unit.exhaust sum.exhaust option.exhaust)
  then show ?case
  proof cases
    case 3
    with p have "process_new lib now sv st = (st', Some e)" by simp
    from taken_raise [OF this, of "map pl_look rs" "map pl_look (r # rs)" "Noop # pass_commands sv st"]
    show ?thesis using 3 l p by (auto simp: Let_def)
  next
    case 4
    obtain looks where "taken lib looks (map pl_look rs) (map pl_look rs) st' (poll_rounds lib rs st')"
      using Cons.IH by blast
    from taken_look [OF p [unfolded 4] this] show ?thesis using 4 l p by (auto simp: Let_def)
  qed (auto intro: exI [of _ "[]"] taken_none)
qed

definition offered_looks :: "watching \<Rightarrow> (time \<times> server) list" where
  "offered_looks w = (case w of Through_Idle start entered rounds \<Rightarrow> map ir_look rounds | By_Polling rounds \<Rightarrow> map pl_look rounds)"

definition due_looks :: "watching \<Rightarrow> (time \<times> server) list" where
  "due_looks w = (case w of Through_Idle start entered rounds \<Rightarrow> idle_answers rounds | By_Polling rounds \<Rightarrow> map pl_look rounds)"

definition is_idle :: "watching \<Rightarrow> bool" where
  "is_idle w = (case w of Through_Idle start entered rounds \<Rightarrow> True | By_Polling rounds \<Rightarrow> False)"

lemma taken_fields:
  "taken lib looks offered answered st x \<Longrightarrow> snd y = snd x \<Longrightarrow> taken lib looks offered answered st y"
  by (auto simp: taken_def split: prod.splits)

lemma idle_loop_taken:
  "\<exists>looks. taken lib looks (map ir_look rounds) (idle_answers rounds) st (idle_loop lib start entered rounds st)"
proof (cases entered)
  case (Inl e)
  then show ?thesis by (auto simp: idle_loop_def Let_def intro: exI [of _ "[]"] taken_none)
next
  case (Inr u)
  let ?r = "of_int (im_idle_refresh (ii_settings st))"
  obtain looks where "taken lib looks (map ir_look rounds) (idle_answers rounds) st (idle_rounds lib ?r (start + ?r) rounds st)"
    using idle_rounds_taken by blast
  moreover have "snd (idle_loop lib start entered rounds st) = snd (idle_rounds lib ?r (start + ?r) rounds st)"
    by (auto simp: idle_loop_def Let_def Inr split: prod.split session_end.split)
  ultimately show ?thesis using taken_fields by blast
qed

lemma watch_rounds_taken:
  "\<exists>looks. taken lib looks (offered_looks w) (due_looks w) (supports_idle (is_idle w) st) (watch_rounds lib w st)"
proof (cases w)
  case (Through_Idle start entered rounds)
  then show ?thesis using idle_loop_taken by (simp add: watch_rounds_def offered_looks_def due_looks_def is_idle_def supports_idle_def)
next
  case (By_Polling rounds)
  then show ?thesis using poll_rounds_taken by (simp add: watch_rounds_def offered_looks_def due_looks_def is_idle_def)
qed

text \<open>
  C23. The connection turn by turn refines the connection look by look: it leaves the reader in the state a list
  of looks leaves it in, which are some of those its turns offered, in their order; an
  exception of a look ends it; and as long as it is watching, no turn that answered with
  responses has gone without its look.
\<close>

theorem session_refines_looks:
  "\<exists>looks r. subseq looks (offered_looks w) \<and>
     watch_once lib (is_idle w) first looks st = (fst (snd (watch_session lib first w closing st)), r) \<and>
     (\<forall>err. r = Some err \<longrightarrow> snd (snd (watch_session lib first w closing st)) = Raised err) \<and>
     (snd (snd (watch_session lib first w closing st)) = Waiting \<longrightarrow> looks = due_looks w)"
proof -
  have same: "snd (watch_session lib first w closing st) =
      (case sv_connect (snd first) of Inl e \<Rightarrow> (st, Raised e)
       | Inr _ \<Rightarrow> (case select_folder (snd first) st of Inl e \<Rightarrow> (st, Raised e)
       | Inr st1 \<Rightarrow> (case process_new lib (fst first) (snd first) st1 of
           (st2, Some e) \<Rightarrow> (st2, Raised e) | (st2, None) \<Rightarrow> snd (watch_rounds lib w st2))))"
    by (simp add: watch_session_def close_session_end split: sum.split prod.split option.split)
  show ?thesis
  proof (cases "\<exists>st1 st2. sv_connect (snd first) = Inr () \<and> select_folder (snd first) st = Inr st1 \<and>
      process_new lib (fst first) (snd first) st1 = (st2, None)")
    case True
    then obtain st1 st2 where g: "sv_connect (snd first) = Inr ()" "select_folder (snd first) st = Inr st1"
      "process_new lib (fst first) (snd first) st1 = (st2, None)" by blast
    obtain looks where l: "taken lib looks (offered_looks w) (due_looks w) (supports_idle (is_idle w) st2) (watch_rounds lib w st2)"
      using watch_rounds_taken by blast
    obtain cs st3 e where w: "watch_rounds lib w st2 = (cs, st3, e)" by (cases "watch_rounds lib w st2") auto
    then have e: "snd (watch_session lib first w closing st) = (st3, e)" by (simp add: same g)
    from l w obtain r where "subseq looks (offered_looks w)" "e = Waiting \<longrightarrow> looks = due_looks w"
      "passes lib looks (supports_idle (is_idle w) st2) = (st3, r)" "\<forall>err. r = Some err \<longrightarrow> e = Raised err"
      by (auto simp: taken_def)
    then show ?thesis unfolding e by (intro exI [of _ looks] exI [of _ r]) (simp add: watch_once_def g)
  next
    case False
    define r where "r = snd (watch_once lib (is_idle w) first [] st)"
    have "watch_once lib (is_idle w) first [] st = (fst (snd (watch_session lib first w closing st)), r) \<and>
        (\<exists>e. r = Some e \<and> snd (snd (watch_session lib first w closing st)) = Raised e)"
    proof (cases "sv_connect (snd first)")
      case (Inl e)
      then show ?thesis by (simp add: r_def same watch_once_def)
    next
      case con: (Inr u)
      show ?thesis
      proof (cases "select_folder (snd first) st")
        case (Inl e)
        then show ?thesis by (simp add: r_def same watch_once_def con)
      next
        case sel: (Inr st1)
        obtain st2 x where p: "process_new lib (fst first) (snd first) st1 = (st2, x)" by fastforce
        with False con sel obtain e where "x = Some e" by (cases x) simp_all
        with p con sel show ?thesis by (simp add: r_def same watch_once_def)
      qed
    qed
    then show ?thesis by (intro exI [of _ "[]"] exI [of _ r]) auto
  qed
qed

section \<open>Renewing IDLE\<close>

text \<open>Without responses a turn keeps the deadline, and the first turn past it ends the loop, for a fresh connection.\<close>

lemma silent_idle_ends_at_deadline:
  assumes "\<forall>r \<in> set rs. \<not> ir_stopped r \<and> ir_check r = Inr False"
  shows "snd (snd (idle_rounds lib refresh deadline rs st)) = (if \<exists>r \<in> set rs. deadline \<le> ir_clock r then Ended else Waiting)"
  using assms
proof (induction rs)
  case (Cons r rs)
  have r: "\<not> ir_stopped r" "ir_check r = Inr False" using Cons.prems by simp_all
  show ?case
  proof (cases "deadline \<le> ir_clock r")
    case False
    have "\<forall>r \<in> set rs. \<not> ir_stopped r \<and> ir_check r = Inr False"
      by (rule ballI, rule bspec [OF Cons.prems]) (rule list.set_intros(2))
    from Cons.IH [OF this] show ?thesis using False by (simp only: idle_rounds.simps r fst_issue sum.case if_False list.set bex_simps simp_thms)
  qed (simp add: r)
qed simp

section \<open>Witnesses\<close>

definition ex_round :: "bool \<Rightarrow> bool \<Rightarrow> seconds \<Rightarrow> idle_round" where
  "ex_round stop responses clock = \<lparr>ir_stopped = stop, ir_check = Inr responses, ir_done = Inr (), ir_look = (10, ex_server 1),
     ir_idle = Inr (), ir_clock = clock\<rparr>"

theorem reader_keeps_protocol_witness:
  "\<exists>cs. fst (watch_session ex_mail_library (9, ex_server 1)
     (Through_Idle 0 (Inr ()) [ex_round False True 30, ex_round True False 60]) (Inr ()) ex_reader) = cs @ [Logout]"
proof -
  let ?w = "Through_Idle 0 (Inr ()) [ex_round False True 30, ex_round True False 60]"
  have "snd (snd (watch_session ex_mail_library (9, ex_server 1) ?w (Inr ()) ex_reader)) = Ended" by code_simp
  moreover have "sv_connect (snd (9 :: int, ex_server 1)) = Inr ()" by (simp add: ex_server_def)
  ultimately show ?thesis
    using reader_keeps_protocol [of ex_mail_library "(9, ex_server 1)" ?w "Inr ()" ex_reader] by (simp add: close_commands_def)
qed

theorem session_refines_looks_witness:
  "\<exists>r. watch_once ex_mail_library True (9, ex_server 1) [(10, ex_server 1)] ex_reader =
     (fst (snd (watch_session ex_mail_library (9, ex_server 1)
        (Through_Idle 0 (Inr ()) [ex_round False False 5, ex_round False True 30]) (Inr ()) ex_reader)), r)"
proof -
  let ?w = "Through_Idle 0 (Inr ()) [ex_round False False 5, ex_round False True 30]"
  have "snd (snd (watch_session ex_mail_library (9, ex_server 1) ?w (Inr ()) ex_reader)) = Waiting" by code_simp
  moreover have "due_looks ?w = [(10, ex_server 1)]" "is_idle ?w"
    by (simp_all add: due_looks_def idle_answers_def ex_round_def is_idle_def)
  ultimately show ?thesis
    using session_refines_looks [of ?w ex_mail_library "(9, ex_server 1)" ex_reader "Inr ()"] by auto
qed

end
