(* ===== verification/Imap_Race.thy ===== *)
theory Imap_Race
  imports Imap_Input
begin

text \<open>
  The IMAP reader with its two threads. \<open>Daemon.start\<close> starts the thread of every input before the
  core reconciles, and reconciling (and every later retry) calls \<open>catch_up\<close> on the core's thread:
  so \<open>_process_new\<close> and \<open>catch_up\<close> run at the same time on one cursor. Each is cut between its
  search, its fetch and its storing of the cursor, and the steps of the two interleave. A step
  that raises ends its thread's pass and is left out here.
\<close>

section \<open>Steps\<close>

datatype pass_at = At_Search | At_Fetch "int list" | At_Store "int list" | At_End

record race =
  rc_reader :: imap_input
  rc_live :: pass_at
  rc_catch_up :: pass_at
  rc_returned :: "imap_emission list"

definition after_search :: "int list \<Rightarrow> pass_at" where
  "after_search uids = (if uids = [] then At_End else At_Fetch uids)"

definition limited :: "imap_input \<Rightarrow> int list \<Rightarrow> int list" where
  "limited st found =
     (let limit = nat (im_catch_up_limit (ii_settings st)) in if length found > limit then last_n limit found else found)"

inductive race_step :: "mail_library \<Rightarrow> race \<Rightarrow> race \<Rightarrow> bool" for lib where
  live_search: "rc_live c = At_Search \<Longrightarrow> new_uids sv (rc_reader c) = Inr uids \<Longrightarrow>
    race_step lib c (c\<lparr>rc_live := after_search uids\<rparr>)"
| live_fetch: "rc_live c = At_Fetch uids \<Longrightarrow> sv_fetch (sv :: server) uids = Inr d \<Longrightarrow>
    evaluate_all lib now (ii_settings (rc_reader c)) (sorted_entries d) = (evs, None) \<Longrightarrow>
    race_step lib c (c\<lparr>rc_reader := emit_all evs (rc_reader c), rc_live := At_Store uids\<rparr>)"
| live_store: "rc_live c = At_Store uids \<Longrightarrow>
    race_step lib c (c\<lparr>rc_reader := advance_cursor (Max (set uids)) (rc_reader c), rc_live := At_End\<rparr>)"
| catch_up_search: "rc_catch_up c = At_Search \<Longrightarrow> new_uids sv (rc_reader c) = Inr found \<Longrightarrow>
    race_step lib c (c\<lparr>rc_catch_up := after_search (limited (rc_reader c) found)\<rparr>)"
| catch_up_fetch: "rc_catch_up c = At_Fetch uids \<Longrightarrow> sv_fetch (sv :: server) uids = Inr d \<Longrightarrow>
    evaluate_all lib now (ii_settings (rc_reader c)) (sorted_entries d) = (evs, None) \<Longrightarrow>
    race_step lib c (c\<lparr>rc_catch_up := At_Store uids, rc_returned := evs\<rparr>)"
| catch_up_store: "rc_catch_up c = At_Store uids \<Longrightarrow>
    race_step lib c (c\<lparr>rc_reader := advance_cursor (Max (set uids)) (rc_reader c), rc_catch_up := At_End\<rparr>)"


lemma race_trans: "(race_step lib)\<^sup>*\<^sup>* a b \<Longrightarrow> race_step lib b c \<Longrightarrow> (race_step lib)\<^sup>*\<^sup>* a c"
  by (rule rtranclp.rtrancl_into_rtrancl)

section \<open>One thread alone\<close>

text \<open>Uninterrupted, the steps of a thread are the pass as \<open>Imap_Input\<close> has it.\<close>

lemma live_alone:
  assumes p: "process_new lib now sv (rc_reader c) = (st', None)" and at_search: "rc_live c = At_Search"
  shows "(race_step lib)\<^sup>*\<^sup>* c (c\<lparr>rc_reader := st', rc_live := At_End\<rparr>)"
proof -
  obtain uids where n: "new_uids sv (rc_reader c) = Inr uids" using p by (auto simp: process_new_def split: sum.splits)
  note one = live_search [where lib = lib, OF at_search n]
  show ?thesis
  proof (cases "uids = []")
    case True
    then have "st' = rc_reader c" using p n by (simp add: process_new_def)
    then have "c\<lparr>rc_reader := st', rc_live := At_End\<rparr> = c\<lparr>rc_live := after_search uids\<rparr>"
      using True by (cases c) (simp add: after_search_def)
    then show ?thesis using one by (simp only: r_into_rtranclp)
  next
    case False
    then obtain d evs where d: "sv_fetch sv uids = Inr d"
      "evaluate_all lib now (ii_settings (rc_reader c)) (sorted_entries d) = (evs, None)"
      "st' = advance_cursor (Max (set uids)) (emit_all evs (rc_reader c))"
      using p n by (auto simp: process_new_def split: sum.splits prod.splits option.splits list.splits)
    let ?c1 = "c\<lparr>rc_live := At_Fetch uids\<rparr>" and ?c2 = "c\<lparr>rc_reader := emit_all evs (rc_reader c), rc_live := At_Store uids\<rparr>"
    have "race_step lib c ?c1" using one False by (simp add: after_search_def)
    moreover have "race_step lib ?c1 ?c2" using live_fetch [of ?c1 uids sv d lib now evs] d(1,2) by simp
    moreover have "race_step lib ?c2 (c\<lparr>rc_reader := st', rc_live := At_End\<rparr>)"
      using live_store [of ?c2 uids lib] by (simp add: d(3))
    ultimately show ?thesis by (meson converse_rtranclp_into_rtranclp rtranclp.rtrancl_refl)
  qed
qed

lemma limited_empty: "limited st found = [] \<longleftrightarrow> found = []"
  by (auto simp: limited_def Let_def last_n_def)

lemma catch_up_alone:
  assumes p: "imap_catch_up lib now sv st = (st', Inr evs)" and s: "select_folder sv st = Inr (rc_reader c)"
    and c: "rc_catch_up c = At_Search" "rc_returned c = []"
  shows "(race_step lib)\<^sup>*\<^sup>* c (c\<lparr>rc_reader := st', rc_catch_up := At_End, rc_returned := evs\<rparr>)"
proof -
  obtain found where n: "new_uids sv (rc_reader c) = Inr found"
    using p s by (auto simp: imap_catch_up_def split: sum.splits)
  define uids where "uids = limited (rc_reader c) found"
  note one = catch_up_search [where lib = lib, OF c(1) n, folded uids_def]
  show ?thesis
  proof (cases "found = []")
    case True
    then have "st' = rc_reader c" "evs = []" using p s n by (auto simp: imap_catch_up_def split: sum.splits)
    then have "c\<lparr>rc_reader := st', rc_catch_up := At_End, rc_returned := evs\<rparr> = c\<lparr>rc_catch_up := after_search uids\<rparr>"
      using True c(2) limited_empty [of "rc_reader c" found] by (cases c) (simp add: after_search_def uids_def)
    then show ?thesis using one by (simp only: r_into_rtranclp)
  next
    case False
    then have ne: "uids \<noteq> []" by (simp add: uids_def limited_empty)
    obtain d where d: "sv_fetch sv uids = Inr d"
      "evaluate_all lib now (ii_settings (rc_reader c)) (sorted_entries d) = (evs, None)"
      "st' = advance_cursor (Max (set uids)) (rc_reader c)"
      using p s n False unfolding uids_def limited_def
      by (cases found) (auto simp: imap_catch_up_def Let_def split: sum.splits prod.splits option.splits)
    let ?c1 = "c\<lparr>rc_catch_up := At_Fetch uids\<rparr>" and ?c2 = "c\<lparr>rc_catch_up := At_Store uids, rc_returned := evs\<rparr>"
    have "race_step lib c ?c1" using one ne by (simp add: after_search_def)
    moreover have "race_step lib ?c1 ?c2" using catch_up_fetch [of ?c1 uids sv d lib now evs] d(1,2) by simp
    moreover have "race_step lib ?c2 (c\<lparr>rc_reader := st', rc_catch_up := At_End, rc_returned := evs\<rparr>)"
      using catch_up_store [of ?c2 uids lib] by (cases c) (simp add: d(3))
    ultimately show ?thesis by (meson converse_rtranclp_into_rtranclp rtranclp.rtrancl_refl)
  qed
qed

section \<open>Both at once\<close>






end
