(* ===== verification/Pagerduty_Output.thy ===== *)
theory Pagerduty_Output
  imports Plugin_Settings Clock
begin

text \<open>
  \<open>plugins/pagerduty_output\<close>: settings, the event an update becomes, and the reverse direction,
  reading incidents and asking for an unlatch. What \<open>urlopen\<close> does with a request, the JSON parser,
  URL encoding and \<open>datetime.fromisoformat\<close> are arguments.
\<close>

section \<open>Settings\<close>

definition valid_severities :: "string list" where
  "valid_severities = [''critical'', ''error'', ''warning'', ''info'']"

definition open_statuses :: "string list" where
  "open_statuses = [''triggered'', ''acknowledged'']"

definition pagerduty_keys :: "string list" where
  "pagerduty_keys = [''routing_key'', ''api_token'', ''dedup_key'', ''severity'', ''summary'', ''source'',
     ''component'', ''group'', ''class'', ''poll_seconds'', ''events_url'', ''api_url'']"

definition required_text :: "settings \<Rightarrow> string \<Rightarrow> string \<Rightarrow> string list" where
  "required_text s key missing =
     (case dict_get s key of None \<Rightarrow> [missing]
      | Some j \<Rightarrow> if nonempty_string j then [] else [''\"'' @ key @ ''\" must be a non-empty string''])"

definition validate_pagerduty_settings :: "settings \<Rightarrow> string list" where
  "validate_pagerduty_settings s =
     unknown_settings pagerduty_keys s @
     required_text s ''routing_key''
       (''\"routing_key\" is required. This is the Events API v2 integration key from the PagerDuty '' @
        ''service's Integrations tab, and it is not the same credential as \"api_token\". It is what writes incidents.'') @
     required_text s ''api_token''
       (''\"api_token\" is required. This is a REST API token from PagerDuty's API Access page, and it is not '' @
        ''the same credential as \"routing_key\". It is what reads incident status, which is how an unlatch gets back here.'') @
     (case setting s ''severity'' of None \<Rightarrow> []
      | Some j \<Rightarrow> if j \<in> set (map JStr valid_severities) then []
          else [''\"severity\" must be one of: '' @ join '', '' valid_severities]) @
     concat (map (setting_problem s nonempty_string ''a non-empty string'')
       [''dedup_key'', ''summary'', ''source'', ''component'', ''group'', ''class'']) @
     setting_problem s (int_at_least 5) ''an integer of at least 5'' ''poll_seconds''"

section \<open>State\<close>

record pagerduty_output =
  pd_instance :: string
  pd_routing_key :: string
  pd_api_token :: string
  pd_dedup_key :: string
  pd_severity :: string
  pd_summary :: string
  pd_source :: string
  pd_component :: "string option"
  pd_group :: "string option"
  pd_class :: "string option"
  pd_poll_seconds :: int
  pd_events_url :: string
  pd_api_url :: string
  pd_status :: health_status
  pd_detail :: string

definition optional_str :: "(rat \<Rightarrow> string) \<Rightarrow> settings \<Rightarrow> string \<Rightarrow> string option" where
  "optional_str fl s key = map_option (json_str fl) (setting s key)"

definition rstrip_slash :: "string \<Rightarrow> string" where
  "rstrip_slash s = rev (dropWhile (\<lambda>c. c = CHR ''/'') (rev s))"

definition init_pagerduty :: "(rat \<Rightarrow> string) \<Rightarrow> string \<Rightarrow> settings \<Rightarrow> pagerduty_output option" where
  "init_pagerduty fl name s =
     map_option (\<lambda>poll.
       \<lparr>pd_instance = name, pd_routing_key = str_setting fl s ''routing_key'' [], pd_api_token = str_setting fl s ''api_token'' [],
        pd_dedup_key = str_setting fl s ''dedup_key'' (''noti-mapper/'' @ name),
        pd_severity = str_setting fl s ''severity'' ''warning'',
        pd_summary = str_setting fl s ''summary'' (''noti-mapper: '' @ name),
        pd_source = str_setting fl s ''source'' name,
        pd_component = optional_str fl s ''component'', pd_group = optional_str fl s ''group'',
        pd_class = optional_str fl s ''class'', pd_poll_seconds = poll,
        pd_events_url = str_setting fl s ''events_url'' ''https://events.pagerduty.com/v2/enqueue'',
        pd_api_url = rstrip_slash (str_setting fl s ''api_url'' ''https://api.pagerduty.com''),
        pd_status = HsStarting, pd_detail = ''not yet polled''\<rparr>)
     (int_setting s ''poll_seconds'' 45)"

definition set_pagerduty_health :: "health_status \<Rightarrow> string \<Rightarrow> pagerduty_output \<Rightarrow> pagerduty_output" where
  "set_pagerduty_health h d p = p\<lparr>pd_status := h, pd_detail := d\<rparr>"

definition pagerduty_health :: "pagerduty_output \<Rightarrow> plugin_health" where
  "pagerduty_health p = \<lparr>ph_status = pd_status p, ph_detail = pd_detail p\<rparr>"

section \<open>HTTP\<close>

text \<open>
  A request as handed to \<open>urlopen\<close>, and what it does: the bytes of a response, an \<open>HTTPError\<close> with
  its code and body, an \<open>OSError\<close> (as which \<open>URLError\<close> and \<open>TimeoutError\<close> count) with its text, or any other
  exception, such as \<open>http.client.IncompleteRead\<close>, which nothing here catches.
\<close>

datatype http_method = GET | POST

record web_request =
  wr_url :: string
  wr_method :: http_method
  wr_headers :: "(string, string) dict"
  wr_data :: "json option"

datatype web_answer = WebBody string | WebStatus nat string | WebFailure string | WebOther string

datatype web_error = PluginError string | OtherError string

text \<open>\<open>json.loads\<close> of a decoded body, with the text of its \<open>ValueError\<close>.\<close>

type_synonym json_loader = "string \<Rightarrow> string + json"

definition method_text :: "http_method \<Rightarrow> string" where
  "method_text m = (case m of GET \<Rightarrow> ''GET'' | POST \<Rightarrow> ''POST'')"

definition send_request ::
  "json_loader \<Rightarrow> (web_request \<Rightarrow> web_answer) \<Rightarrow> web_request \<Rightarrow> web_error + (string, json) dict" where
  "send_request loads web rq =
     (case web rq of
        WebStatus code body \<Rightarrow> Inl (PluginError (''PagerDuty returned '' @ string_of_nat code @ '' for '' @
            method_text (wr_method rq) @ '' '' @ wr_url rq @ '': '' @ take 500 body))
      | WebFailure err \<Rightarrow> Inl (PluginError (''PagerDuty is unreachable: '' @ err))
      | WebOther e \<Rightarrow> Inl (OtherError e)
      | WebBody raw \<Rightarrow>
          if raw = [] then Inr []
          else case loads raw of
            Inl err \<Rightarrow> Inl (PluginError (''PagerDuty returned a body that is not JSON: '' @ err))
          | Inr j \<Rightarrow> Inr (case j of JObj kvs \<Rightarrow> kvs | _ \<Rightarrow> []))"

definition post_request :: "string \<Rightarrow> json \<Rightarrow> web_request" where
  "post_request url payload = \<lparr>wr_url = url, wr_method = POST,
     wr_headers = [(''Content-Type'', ''application/json''), (''Accept'', ''application/json'')], wr_data = Some payload\<rparr>"

definition get_request :: "string \<Rightarrow> pagerduty_output \<Rightarrow> web_request" where
  "get_request url p = \<lparr>wr_url = url, wr_method = GET,
     wr_headers = [(''Accept'', ''application/vnd.pagerduty+json;version=2''),
       (''Authorization'', ''Token token='' @ pd_api_token p)], wr_data = None\<rparr>"

section \<open>The write direction\<close>

definition optional_entry :: "string \<Rightarrow> string option \<Rightarrow> (string \<times> json) list" where
  "optional_entry key v = (case v of None \<Rightarrow> [] | Some t \<Rightarrow> [(key, JStr t)])"

definition event_payload :: "pagerduty_output \<Rightarrow> output_update \<Rightarrow> json" where
  "event_payload p u =
     (let details = [(''instance'', JStr (pd_instance p)), (''rules'', JStr (join '', '' (ou_rules u))),
            (''trigger_count'', JInt (ou_trigger_count u))] @
          (if ou_cause u \<noteq> [] then [(''caused_by'', JStr (ou_cause u))] else []) @
          (if ou_detail u \<noteq> [] then [(''event'', JStr (ou_detail u))] else []) @
          optional_entry ''latched_since'' (map_option isoformat (ou_since u)) in
      JObj ([(''summary'', JStr (take 1024 (pd_summary p @ '': '' @ update_summary u))),
          (''severity'', JStr (pd_severity p)), (''source'', JStr (pd_source p)), (''custom_details'', JObj details)] @
        optional_entry ''timestamp'' (map_option isoformat (ou_since u)) @
        optional_entry ''component'' (pd_component p) @ optional_entry ''group'' (pd_group p) @
        optional_entry ''class'' (pd_class p)))"

definition apply_payload :: "pagerduty_output \<Rightarrow> output_update \<Rightarrow> json" where
  "apply_payload p u =
     JObj ([(''routing_key'', JStr (pd_routing_key p)),
       (''event_action'', JStr (if ou_state u then ''trigger'' else ''resolve'')), (''dedup_key'', JStr (pd_dedup_key p))] @
       (if ou_state u then [(''payload'', event_payload p u)] else []))"

definition apply_update ::
  "json_loader \<Rightarrow> (web_request \<Rightarrow> web_answer) \<Rightarrow> pagerduty_output \<Rightarrow> output_update \<Rightarrow> web_error + (string, json) dict" where
  "apply_update loads web p u = send_request loads web (post_request (pd_events_url p) (apply_payload p u))"

section \<open>The reverse direction\<close>

type_synonym incident = "(string, json) dict"

definition fetch_incidents ::
  "(string \<Rightarrow> string) \<Rightarrow> json_loader \<Rightarrow> (web_request \<Rightarrow> web_answer) \<Rightarrow> pagerduty_output \<Rightarrow> web_error + incident list" where
  "fetch_incidents quote loads web p =
     (let url = pd_api_url p @ ''/incidents?incident_key='' @ quote (pd_dedup_key p) @ ''&limit=10&sort_by=created_at%3Adesc'' in
      case send_request loads web (get_request url p) of
        Inl e \<Rightarrow> Inl e
      | Inr body \<Rightarrow> Inr (case dict_get body ''incidents'' of
            Some (JList items) \<Rightarrow> List.map_filter (\<lambda>j. case j of JObj kvs \<Rightarrow> Some kvs | _ \<Rightarrow> None) items
          | _ \<Rightarrow> []))"

text \<open>
  \<open>_parse_time\<close>: \<open>parse_iso\<close> is \<open>fromisoformat\<close> as a moment in UTC, a naive text being read as UTC; it
  answers \<open>None\<close> for a \<open>ValueError\<close>.
\<close>

definition replace_z :: "string \<Rightarrow> string" where
  "replace_z t = concat (map (\<lambda>c. if c = CHR ''Z'' then ''+00:00'' else [c]) t)"

definition parse_time :: "(string \<Rightarrow> time option) \<Rightarrow> json option \<Rightarrow> time option" where
  "parse_time parse_iso v = (case v of Some (JStr t) \<Rightarrow> if t = [] then None else parse_iso (replace_z t) | _ \<Rightarrow> None)"

definition incident_status :: "(rat \<Rightarrow> string) \<Rightarrow> incident \<Rightarrow> string" where
  "incident_status fl i = (case dict_get i ''status'' of None \<Rightarrow> [] | Some j \<Rightarrow> json_str fl j)"

definition incident_moment :: "(string \<Rightarrow> time option) \<Rightarrow> incident \<Rightarrow> time option" where
  "incident_moment parse_iso i =
     (case parse_time parse_iso (dict_get i ''resolved_at'') of Some t \<Rightarrow> Some t
      | None \<Rightarrow> parse_time parse_iso (dict_get i ''last_status_change_at''))"

fun scan_incidents ::
  "(rat \<Rightarrow> string) \<Rightarrow> (string \<Rightarrow> time option) \<Rightarrow> incident list \<Rightarrow> time option \<Rightarrow> remote_state" where
  "scan_incidents fl parse_iso [] resolved_at = \<lparr>belief = Cleared, rs_cleared_at = resolved_at\<rparr>"
| "scan_incidents fl parse_iso (i # is) resolved_at =
     (if incident_status fl i \<in> set open_statuses then \<lparr>belief = Active, rs_cleared_at = None\<rparr>
      else scan_incidents fl parse_iso is
        (case (incident_moment parse_iso i, resolved_at) of
           (None, _) \<Rightarrow> resolved_at
         | (Some m, None) \<Rightarrow> Some m
         | (Some m, Some r) \<Rightarrow> if m > r then Some m else resolved_at))"

record pagerduty_world =
  pw_quote :: "string \<Rightarrow> string"
  pw_loads :: json_loader
  pw_float :: "rat \<Rightarrow> string"
  pw_iso :: "string \<Rightarrow> time option"

definition pagerduty_query :: "pagerduty_world \<Rightarrow> (web_request \<Rightarrow> web_answer) \<Rightarrow> pagerduty_output \<Rightarrow> pagerduty_output \<times> (string + remote_state)" where
  "pagerduty_query w web p =
     (case fetch_incidents (pw_quote w) (pw_loads w) web p of
        Inl (PluginError err) \<Rightarrow> (set_pagerduty_health HsDegraded err p, Inr \<lparr>belief = Unknown, rs_cleared_at = None\<rparr>)
      | Inl (OtherError e) \<Rightarrow> (p, Inl e)
      | Inr is \<Rightarrow> (set_pagerduty_health HsOk (''polling every '' @ string_of_int (pd_poll_seconds p) @ ''s'') p,
          Inr (if is = [] then \<lparr>belief = Unknown, rs_cleared_at = None\<rparr> else scan_incidents (pw_float w) (pw_iso w) is None)))"

text \<open>One pass: the plugin after it, and the exception or the reasons of the unlatch requests it made.\<close>

definition pagerduty_poll_once :: "pagerduty_world \<Rightarrow> (web_request \<Rightarrow> web_answer) \<Rightarrow> pagerduty_output \<Rightarrow> pagerduty_output \<times> (string + string list)" where
  "pagerduty_poll_once w web p =
     (case pagerduty_query w web p of
        (p', Inl e) \<Rightarrow> (p', Inl e)
      | (p', Inr rs) \<Rightarrow> (p', Inr (if belief rs = Cleared then [''PagerDuty incident resolved''] else [])))"

text \<open>\<open>_poll_loop\<close> over the answers of successive passes until it is stopped; an exception ends the thread.\<close>

fun poll_loop ::
  "pagerduty_world \<Rightarrow> (web_request \<Rightarrow> web_answer) list \<Rightarrow> pagerduty_output \<Rightarrow> pagerduty_output \<times> string list \<times> string option" where
  "poll_loop w [] p = (p, [], None)"
| "poll_loop w (web # webs) p =
     (case pagerduty_poll_once w web p of
        (p', Inl e) \<Rightarrow> (p', [], Some e)
      | (p', Inr reasons) \<Rightarrow> (case poll_loop w webs p' of (q, rs, e) \<Rightarrow> (q, reasons @ rs, e)))"

section \<open>What a query answers\<close>

definition is_open :: "pagerduty_world \<Rightarrow> incident \<Rightarrow> bool" where
  "is_open w i \<longleftrightarrow> incident_status (pw_float w) i \<in> set open_statuses"

definition moments :: "pagerduty_world \<Rightarrow> incident list \<Rightarrow> time set" where
  "moments w is = {m. \<exists>i \<in> set is. incident_moment (pw_iso w) i = Some m}"

lemma moments_Cons:
  "moments w (i # is) = (case incident_moment (pw_iso w) i of None \<Rightarrow> moments w is | Some m \<Rightarrow> insert m (moments w is))"
  by (auto simp: moments_def split: option.split)

lemma finite_moments [simp]: "finite (moments w is)"
  by (induction "is") (auto simp: moments_Cons, simp add: moments_def, simp split: option.split)

text \<open>The latest moment so far and those still to come.\<close>

definition latest :: "time option \<Rightarrow> time set \<Rightarrow> time option" where
  "latest r ms = (if r = None \<and> ms = {} then None else Some (Max (set_option r \<union> ms)))"

lemma latest_insert:
  assumes "finite ms"
  shows "latest r (insert m ms) = latest (case r of None \<Rightarrow> Some m | Some t \<Rightarrow> if m > t then Some m else r) ms"
proof (cases r)
  case (Some t)
  have "Max (insert t (insert m ms)) = Max (insert (max t m) ms)"
    using assms by (cases "ms = {}") (simp_all add: max.assoc)
  then show ?thesis using Some by (auto simp: latest_def max_def not_less insert_commute [of m t])
qed (simp add: latest_def)

lemma scan_incidents_result:
  "scan_incidents (pw_float w) (pw_iso w) is r =
     (if \<exists>i \<in> set is. is_open w i then \<lparr>belief = Active, rs_cleared_at = None\<rparr>
      else \<lparr>belief = Cleared, rs_cleared_at = latest r (moments w is)\<rparr>)"
proof (induction "is" arbitrary: r)
  case Nil
  then show ?case by (cases r) (simp_all add: moments_def latest_def)
next
  case (Cons i "is")
  have r: "r = (case r of None \<Rightarrow> None | Some t \<Rightarrow> Some t)" by (cases r) simp_all
  show ?case
  proof (cases "is_open w i")
    case False
    then show ?thesis
      using Cons.IH by (cases "incident_moment (pw_iso w) i"; cases r) (simp_all add: is_open_def moments_Cons latest_insert)
  qed (simp add: is_open_def)
qed

text \<open>
  C36. A query believes what the incidents say, whatever their order: outstanding when any is open,
  otherwise cleared at the latest moment any of them gives, and nothing when there is none or when
  PagerDuty cannot be read; the health tells which.
\<close>

theorem query_decision:
  "pagerduty_query w web p =
     (case fetch_incidents (pw_quote w) (pw_loads w) web p of
        Inl (OtherError e) \<Rightarrow> (p, Inl e)
      | Inl (PluginError err) \<Rightarrow> (set_pagerduty_health HsDegraded err p, Inr \<lparr>belief = Unknown, rs_cleared_at = None\<rparr>)
      | Inr is \<Rightarrow> (set_pagerduty_health HsOk (''polling every '' @ string_of_int (pd_poll_seconds p) @ ''s'') p,
          Inr (if is = [] then \<lparr>belief = Unknown, rs_cleared_at = None\<rparr>
            else if \<exists>i \<in> set is. is_open w i then \<lparr>belief = Active, rs_cleared_at = None\<rparr>
            else \<lparr>belief = Cleared, rs_cleared_at = (if moments w is = {} then None else Some (Max (moments w is)))\<rparr>)))"
  by (auto simp: pagerduty_query_def scan_incidents_result latest_def split: sum.split web_error.split)

section \<open>The polling thread\<close>

text \<open>What a pass depends on stays as it is: a pass writes the health only.\<close>

definition all_resolved :: "pagerduty_world \<Rightarrow> (web_request \<Rightarrow> web_answer) \<Rightarrow> pagerduty_output \<Rightarrow> bool" where
  "all_resolved w web p = (case fetch_incidents (pw_quote w) (pw_loads w) web p of
     Inl _ \<Rightarrow> False | Inr is \<Rightarrow> is \<noteq> [] \<and> (\<forall>i \<in> set is. \<not> is_open w i))"

lemma fetch_incidents_health [simp]:
  "fetch_incidents quote loads web (set_pagerduty_health h d p) = fetch_incidents quote loads web p"
  by (simp add: fetch_incidents_def set_pagerduty_health_def get_request_def)

lemma all_resolved_health [simp]: "all_resolved w web (set_pagerduty_health h d p) = all_resolved w web p"
  by (simp add: all_resolved_def)

lemma poll_once_cases:
  obtains (failed) e where "fetch_incidents (pw_quote w) (pw_loads w) web p = Inl (OtherError e)" "pagerduty_poll_once w web p = (p, Inl e)"
  | (passed) h d where "\<nexists>e. fetch_incidents (pw_quote w) (pw_loads w) web p = Inl (OtherError e)"
      "pagerduty_poll_once w web p = (set_pagerduty_health h d p, Inr (if all_resolved w web p then [''PagerDuty incident resolved''] else []))"
proof (cases "fetch_incidents (pw_quote w) (pw_loads w) web p")
  case (Inl err)
  then show thesis by (cases err) (auto simp: pagerduty_poll_once_def pagerduty_query_def all_resolved_def intro: failed passed)
next
  case (Inr "is")
  then show thesis
    by (intro passed [of HsOk "''polling every '' @ string_of_int (pd_poll_seconds p) @ ''s''"])
      (auto simp: pagerduty_poll_once_def pagerduty_query_def all_resolved_def scan_incidents_result)
qed

text \<open>
  The polling thread asks for an unlatch on every pass that finds incidents and all of them
  resolved, however long ago that was and whatever it asked before, until the first exception other
  than those \<open>_send\<close> translates; that one ends the thread, polls no more, and leaves the health
  as the pass before left it.
\<close>

theorem poll_loop_requests:
  "case poll_loop w webs p of (q, reasons, ended) \<Rightarrow>
     (let failing = (\<lambda>web. \<exists>e. fetch_incidents (pw_quote w) (pw_loads w) web p = Inl (OtherError e));
          done = takeWhile (\<lambda>web. \<not> failing web) webs in
      reasons = replicate (length (filter (\<lambda>web. all_resolved w web p) done)) ''PagerDuty incident resolved'' \<and>
      (ended = None \<longleftrightarrow> \<not> (\<exists>web \<in> set webs. failing web)) \<and>
      poll_loop w done p = (q, reasons, None))"
proof (induction webs arbitrary: p)
  case (Cons web webs)
  show ?case
  proof (cases rule: poll_once_cases [of w web p])
    case (failed e)
    then show ?thesis by simp
  next
    case (passed h d)
    obtain q rs e where l: "poll_loop w webs (set_pagerduty_health h d p) = (q, rs, e)" by (metis prod_cases3)
    show ?thesis using Cons.IH [of "set_pagerduty_health h d p"] passed l by (auto simp: Let_def)
  qed
qed simp

end
