(* ===== verification/Homekit_Pairing.thy ===== *)
theory Homekit_Pairing
  imports Plugin_Settings Clock
begin

unbundle bit_operations_syntax

text \<open>
  \<open>plugins/homekit_output/pairing.py\<close>: base 36, the setup URI as the bit field it encodes, the
  text of the setup code file, and the file as it is opened, given its mode and written.
\<close>

section \<open>Base 36\<close>

definition base36_digits :: string where
  "base36_digits = ''0123456789ABCDEFGHIJKLMNOPQRSTUVWXYZ''"

text \<open>The loop collects the digits from the least significant one on; the text is their reverse.\<close>

fun base36_loop :: "nat \<Rightarrow> string" where
  "base36_loop v = (if v = 0 then [] else base36_digits ! (v mod 36) # base36_loop (v div 36))"

declare base36_loop.simps [simp del]

definition base36_encode :: "nat \<Rightarrow> string" where
  "base36_encode v = (if v = 0 then [base36_digits ! 0] else rev (base36_loop v))"

definition rjust :: "nat \<Rightarrow> char \<Rightarrow> string \<Rightarrow> string" where
  "rjust n c s = replicate (n - length s) c @ s"

section \<open>The setup URI\<close>

definition setup_payload :: "int \<Rightarrow> int \<Rightarrow> int" where
  "setup_payload code category =
     (let payload = 0;
          payload = payload OR (0 AND 0x7);
          payload = push_bit 4 payload;
          payload = payload OR (0 AND 0xF);
          payload = push_bit 8 payload;
          payload = payload OR (category AND 0xFF);
          payload = push_bit 4 payload;
          payload = payload OR (2 AND 0xF);
          payload = push_bit 27 payload
      in payload OR (code AND 0x7FFFFFFF))"

definition category_switch :: int where
  "category_switch = 8"

text \<open>No result is the \<open>ValueError\<close> of \<open>int\<close>.\<close>

definition setup_uri :: "string \<Rightarrow> string \<Rightarrow> int \<Rightarrow> string option" where
  "setup_uri setup_code setup_id category =
     map_option (\<lambda>code. ''X-HM://'' @
         rjust 9 (CHR ''0'') (base36_encode (nat (setup_payload code category))) @ setup_id)
       (parse_int (filter (\<lambda>c. c \<noteq> CHR ''-'') setup_code))"

section \<open>The setup code file\<close>

definition setup_code_text :: "string \<Rightarrow> string \<Rightarrow> string \<Rightarrow> string \<Rightarrow> bool \<Rightarrow> time \<Rightarrow> string" where
  "setup_code_text instance_name display_name setup_code uri paired written_at =
     (let nl = [CHR 0x0A];
          standing = (if paired
            then ''Paired as of '' @ isoformat written_at @ ''. You need this code again only if '' @
              ''you remove the accessory from the Home app and add it back.''
            else ''Not paired as of '' @ isoformat written_at @ ''. Add the accessory in the Home '' @
              ''app -- Add Accessory, then More options -- or scan the setup URI above as '' @
              ''a QR code. This adds one accessory to your existing home; nothing you already own is affected.'') in
      ''noti-mapper HomeKit setup code for instance '' @ py_repr instance_name @ nl @
      ''accessory name: '' @ display_name @ nl @ nl @
      ''setup code: '' @ setup_code @ nl @
      ''setup URI:  '' @ uri @ nl @ nl @ standing @ nl @ nl @
      ''Anyone who can reach this accessory on the network and knows this code'' @ nl @
      ''can pair with it. This file is rewritten every time the daemon starts.'' @ nl)"

record code_file =
  f_mode :: int
  f_contents :: string

text \<open>
  The file after each system call: \<open>open\<close> creates it with the mode less the umask or truncates
  the one there, whose mode it keeps; \<open>fchmod\<close> sets the mode; \<open>write\<close> fills it.
\<close>

definition write_setup_code_file :: "int \<Rightarrow> code_file option \<Rightarrow> string \<Rightarrow> code_file list" where
  "write_setup_code_file umask old t =
     (let opened = (case old of None \<Rightarrow> \<lparr>f_mode = 384 AND NOT umask, f_contents = []\<rparr>
                     | Some f \<Rightarrow> f\<lparr>f_contents := []\<rparr>);
          moded = opened\<lparr>f_mode := 384\<rparr>
      in [opened, moded, moded\<lparr>f_contents := t\<rparr>])"

section \<open>Reading base 36 back\<close>

definition base36_digit :: "char \<Rightarrow> nat option" where
  "base36_digit c = (let n = (of_char c :: nat) in
     if 48 \<le> n \<and> n \<le> 57 then Some (n - 48) else if 65 \<le> n \<and> n \<le> 90 then Some (n - 55) else None)"

fun base36_decode :: "nat \<Rightarrow> string \<Rightarrow> nat option" where
  "base36_decode acc [] = Some acc"
| "base36_decode acc (c # cs) = (case base36_digit c of None \<Rightarrow> None | Some d \<Rightarrow> base36_decode (36 * acc + d) cs)"

lemma base36_digit_inverse: "d < 36 \<Longrightarrow> base36_digit (base36_digits ! d) = Some d"
proof -
  have "list_all (\<lambda>d. base36_digit (base36_digits ! d) = Some d) [0..<36]" by code_simp
  then show "d < 36 \<Longrightarrow> ?thesis" by (simp add: list_all_iff)
qed

lemma base36_decode_append:
  "base36_decode acc (xs @ ys) = (case base36_decode acc xs of None \<Rightarrow> None | Some a \<Rightarrow> base36_decode a ys)"
  by (induction xs arbitrary: acc) (auto split: option.split)

lemma base36_decode_loop: "base36_decode 0 (rev (base36_loop v)) = Some v"
proof (induction v rule: base36_loop.induct)
  case (1 v)
  show ?case
  proof (cases "v = 0")
    case False
    then show ?thesis
      using 1 by (subst base36_loop.simps) (simp add: base36_decode_append base36_digit_inverse)
  qed (simp add: base36_loop.simps)
qed

lemma base36_decode_encode: "base36_decode 0 (base36_encode v) = Some v"
  using base36_decode_loop [of v] base36_digit_inverse [of 0] by (simp add: base36_encode_def)

lemma base36_decode_zeros: "base36_decode 0 (replicate n (CHR ''0'') @ s) = base36_decode 0 s"
  by (induction n) (simp_all add: base36_digit_def)

lemma length_base36_loop: "v < 36 ^ n \<Longrightarrow> length (base36_loop v) \<le> n"
proof (induction n arbitrary: v)
  case (Suc n)
  have "v div 36 < 36 ^ n" using Suc.prems by (simp add: less_mult_imp_div_less mult.commute)
  then show ?case using Suc.IH [of "v div 36"] by (subst base36_loop.simps) simp
qed (simp add: base36_loop.simps)

section \<open>The bit field\<close>

lemma mask_8_27_31: "(0xFF :: int) = mask 8" "(0x7FFFFFFF :: int) = mask 31"
  by (simp_all add: mask_eq_exp_minus_1)

lemma setup_payload_value:
  assumes "0 \<le> code" "code < 2 ^ 27"
  shows "setup_payload code category = take_bit 8 category * 2 ^ 31 + 2 * 2 ^ 27 + code"
proof -
  have c: "take_bit 31 code = code" "take_bit 27 code = code"
    using assms by (simp_all add: take_bit_int_eq_self)
  have "push_bit 4 (take_bit 8 category) OR 2 = concat_bit 4 2 (take_bit 8 category)"
    by (simp add: concat_bit_def or.commute)
  also have "\<dots> = take_bit 8 category * 2 ^ 4 + 2" by (simp add: concat_bit_eq push_bit_eq_mult)
  finally have h: "push_bit 4 (take_bit 8 category) OR 2 = take_bit 8 category * 2 ^ 4 + 2" .
  have "setup_payload code category = push_bit 27 (take_bit 8 category * 2 ^ 4 + 2) OR code"
    unfolding h [symmetric] by (subst c(1) [symmetric]) (simp only: setup_payload_def Let_def take_bit_eq_mask mask_8_27_31 [symmetric], simp)
  also have "\<dots> = concat_bit 27 code (take_bit 8 category * 2 ^ 4 + 2)" by (simp add: concat_bit_def c or.commute)
  also have "\<dots> = code + (take_bit 8 category * 2 ^ 4 + 2) * 2 ^ 27" by (simp add: concat_bit_eq push_bit_eq_mult c)
  finally show ?thesis by simp
qed

section \<open>Eight digits\<close>

text \<open>What HAP calls a setup code: eight digits, grouped by dashes.\<close>

definition setup_code_ok :: "string \<Rightarrow> bool" where
  "setup_code_ok sc \<longleftrightarrow> (\<forall>c \<in> set sc. is_digit c \<or> c = CHR ''-'') \<and> length (filter is_digit sc) = 8"

definition code_digits :: "string \<Rightarrow> int" where
  "code_digits sc = fold (\<lambda>c acc. acc * 10 + digit_value c) (filter is_digit sc) 0"

lemma fold_digits_bounds:
  "\<forall>c \<in> set ds. is_digit c \<Longrightarrow> 0 \<le> a \<Longrightarrow> a < 10 ^ k \<Longrightarrow>
     0 \<le> fold (\<lambda>c acc. acc * 10 + digit_value c) ds a \<and>
     fold (\<lambda>c acc. acc * 10 + digit_value c) ds a < 10 ^ (k + length ds)"
proof (induction ds arbitrary: a k)
  case (Cons c ds)
  have "0 \<le> digit_value c" "digit_value c \<le> 9" using Cons.prems by (auto intro: digit_facts)
  then show ?case using Cons.IH [of "a * 10 + digit_value c" "Suc k"] Cons.prems by simp
qed simp

lemma parse_setup_code:
  assumes "setup_code_ok sc"
  shows "parse_int (filter (\<lambda>c. c \<noteq> CHR ''-'') sc) = Some (code_digits sc)" "0 \<le> code_digits sc" "code_digits sc < 2 ^ 27"
proof -
  let ?ds = "filter is_digit sc"
  have f: "filter (\<lambda>c. c \<noteq> CHR ''-'') sc = ?ds"
    by (rule filter_cong) (use assms digit_facts(2) in \<open>auto simp: setup_code_ok_def\<close>)
  have all: "\<forall>c \<in> set ?ds. is_digit c" and len: "length ?ds = 8" using assms by (auto simp: setup_code_ok_def)
  then show "parse_int (filter (\<lambda>c. c \<noteq> CHR ''-'') sc) = Some (code_digits sc)"
    unfolding f code_digits_def by (intro parse_int_digits) auto
  show "0 \<le> code_digits sc" "code_digits sc < 2 ^ 27"
    using fold_digits_bounds [OF all, of 0 0] len by (simp_all add: code_digits_def)
qed

text \<open>
  C33. A phone that decodes the setup URI reads back what went into it: nine base 36 digits of a
  number whose low 27 bits are the setup code, the next four the flags for IP and the next
  eight the category, with nothing above, followed by the setup id.
\<close>

theorem setup_uri_decodes:
  assumes "setup_code_ok sc"
  shows "\<exists>enc payload. setup_uri sc setup_id category = Some (''X-HM://'' @ enc @ setup_id) \<and>
    length enc = 9 \<and> base36_decode 0 enc = Some payload \<and>
    payload mod 2 ^ 27 = nat (code_digits sc) \<and> payload div 2 ^ 27 mod 2 ^ 4 = 2 \<and>
    payload div 2 ^ 31 = nat (category mod 256)"
proof -
  let ?p = "nat (setup_payload (code_digits sc) category)" and ?c = "nat (code_digits sc)" and ?k = "nat (category mod 256)"
  let ?enc = "rjust 9 (CHR ''0'') (base36_encode ?p)"
  note c = parse_setup_code [OF assms]
  have k: "0 \<le> category mod 256" "category mod 256 < 256" by simp_all
  have "int ?p = int (?k * 2 ^ 31 + 2 * 2 ^ 27 + ?c)"
    using setup_payload_value [OF c(2,3), of category] c k by (simp add: take_bit_eq_mod)
  then have p: "?p = (?k * 2 ^ 4 + 2) * 2 ^ 27 + ?c" by (simp only: of_nat_eq_iff) simp
  have cb: "?c < 2 ^ 27" and kb: "?k < 256" using c k by simp_all
  have divmod: "(a * m + j) mod m = j \<and> (a * m + j) div m = a" if "j < m" for a j m :: nat using that by simp
  have d: "?p mod 2 ^ 27 = ?c" "?p div 2 ^ 27 = ?k * 2 ^ 4 + 2"
    unfolding p using divmod [OF cb] by blast+
  have "(?k * 2 ^ 4 + 2) div 2 ^ 4 = ?k" by (rule divmod [THEN conjunct2]) simp
  moreover have "?p div 2 ^ 31 = ?p div 2 ^ 27 div 2 ^ 4" by (simp flip: div_mult2_eq)
  ultimately have top: "?p div 2 ^ 31 = ?k" by (simp only: d(2))
  have mid: "?p div 2 ^ 27 mod 2 ^ 4 = 2" unfolding d(2) by (rule divmod [THEN conjunct1]) simp
  have "?p < 36 ^ 9" unfolding p using cb kb by simp
  then have "length (base36_loop ?p) \<le> 9" by (rule length_base36_loop)
  then have "length ?enc = 9" by (simp add: rjust_def base36_encode_def)
  moreover have "base36_decode 0 ?enc = Some ?p" by (simp add: rjust_def base36_decode_zeros base36_decode_encode)
  ultimately show ?thesis using c(1) d(1) mid top by (intro exI [of _ ?enc] exI [of _ ?p]) (simp add: setup_uri_def)
qed

text \<open>
  The setup code is never in a file others can read: whatever file was there before and whatever
  the umask, from the moment the file holds anything its mode is 0600, and a new file
  grants nobody else anything even while it is empty.
\<close>

theorem setup_code_file_private:
  "last (write_setup_code_file umask old t) = \<lparr>f_mode = 384, f_contents = t\<rparr> \<and>
   (\<forall>f \<in> set (write_setup_code_file umask old t). f_contents f = [] \<or> f_mode f = 384) \<and>
   (old = None \<longrightarrow> (\<forall>f \<in> set (write_setup_code_file umask old t). f_mode f AND 63 = 0))"
proof -
  have "384 AND NOT umask AND 63 = (384 AND 63) AND NOT umask" by (simp only: ac_simps)
  then have "(384 AND NOT umask) AND 63 = (0 :: int)" by (simp add: and.assoc)
  then show ?thesis by (cases old) (auto simp: write_setup_code_file_def Let_def)
qed

lemma setup_uri_decodes_witness:
  "\<exists>enc. setup_uri ''031-45-154'' ''ABCD'' category_switch = Some (''X-HM://'' @ enc @ ''ABCD'') \<and> length enc = 9"
proof -
  have "setup_code_ok ''031-45-154''" by code_simp
  from setup_uri_decodes [OF this, of "''ABCD''" category_switch] show ?thesis by blast
qed

lemma setup_code_file_private_witness:
  "\<forall>f \<in> set (write_setup_code_file 0 None ''code''). f_mode f AND 63 = 0"
  using setup_code_file_private [of 0 None "''code''"] by blast

end
