(* ===== verification/Homekit_Output.thy ===== *)
theory Homekit_Output
  imports Homekit_Pairing
begin

text \<open>
  \<open>plugins/homekit_output\<close>: one switch per output. HAP-python is not part of the repository: what
  constructing its driver gives is an argument, the driver is known by what the plugin
  reads of it, and of the switch only the values the plugin pushes to it are kept.
\<close>

section \<open>Settings\<close>

definition homekit_keys :: "string list" where
  "homekit_keys = [''display_name'', ''port'', ''address'', ''manufacturer'', ''model'']"

definition is_port :: "json \<Rightarrow> bool" where
  "is_port j = (case j of JInt i \<Rightarrow> 0 \<le> i \<and> i \<le> 65535 | _ \<Rightarrow> False)"

definition validate_homekit_settings :: "settings \<Rightarrow> string list" where
  "validate_homekit_settings s =
     unknown_settings homekit_keys s @
     concat (map (setting_problem s nonempty_string ''a non-empty string'') [''display_name'', ''address'', ''manufacturer'', ''model'']) @
     setting_problem s is_port ''an integer between 0 and 65535'' ''port''"

section \<open>State\<close>

text \<open>Of the driver: the setup code it was given, the setup id it drew, and whether a controller has paired.\<close>

record hap_driver =
  hd_pincode :: string
  hd_setup_id :: string
  hd_paired :: bool

record homekit_output =
  hk_instance :: string
  hk_display_name :: string
  hk_port :: int
  hk_address :: "string option"
  hk_manufacturer :: string
  hk_model :: string
  hk_driver :: "hap_driver option"
  hk_status :: health_status
  hk_detail :: string
  hk_desired :: bool
  hk_storage :: "(string, string) dict"
  hk_file :: "string option"
  hk_shown :: "bool list"
  hk_unlatches :: "string list"

definition init_homekit :: "(rat \<Rightarrow> string) \<Rightarrow> string \<Rightarrow> (string, string) dict \<Rightarrow> settings \<Rightarrow> homekit_output option" where
  "init_homekit fl name store s =
     map_option (\<lambda>port.
       \<lparr>hk_instance = name, hk_display_name = str_setting fl s ''display_name'' name, hk_port = port,
        hk_address = map_option (json_str fl) (setting s ''address''),
        hk_manufacturer = str_setting fl s ''manufacturer'' ''noti-mapper'', hk_model = str_setting fl s ''model'' ''Latch Switch'',
        hk_driver = None, hk_status = HsStarting, hk_detail = ''not yet started'', hk_desired = False,
        hk_storage = store, hk_file = None, hk_shown = [], hk_unlatches = []\<rparr>)
     (int_setting s ''port'' 51826)"

definition set_homekit_health :: "health_status \<Rightarrow> string \<Rightarrow> homekit_output \<Rightarrow> homekit_output" where
  "set_homekit_health h d k = k\<lparr>hk_status := h, hk_detail := d\<rparr>"

section \<open>Lifecycle\<close>

text \<open>\<open>_pincode\<close>: the stored setup code, or the one generated now, which is stored.\<close>

definition pincode :: "string \<Rightarrow> homekit_output \<Rightarrow> string \<times> homekit_output" where
  "pincode generated k =
     (case dict_get (hk_storage k) ''pincode'' of
        Some stored \<Rightarrow> (stored, k)
      | None \<Rightarrow> (generated, k\<lparr>hk_storage := dict_put (hk_storage k) ''pincode'' generated\<rparr>))"

text \<open>
  \<open>build_accessory\<close>, given the generated code and what the driver's constructor answers to its port,
  address and setup code: an exception as its type name and text, or a driver.
\<close>

type_synonym make_driver = "int \<Rightarrow> string option \<Rightarrow> string \<Rightarrow> (string \<times> string) + hap_driver"

definition build_accessory :: "string \<Rightarrow> make_driver \<Rightarrow> homekit_output \<Rightarrow> homekit_output \<times> (string \<times> string) option" where
  "build_accessory generated driver_of k =
     (let (code, k1) = pincode generated k in
      case driver_of (hk_port k1) (hk_address k1) code of
        Inl e \<Rightarrow> (k1, Some e)
      | Inr d \<Rightarrow> (k1\<lparr>hk_driver := Some d\<rparr>, None))"

definition paired :: "homekit_output \<Rightarrow> bool" where
  "paired k = (case hk_driver k of None \<Rightarrow> False | Some d \<Rightarrow> hd_paired d)"

definition setup_code :: "homekit_output \<Rightarrow> string" where
  "setup_code k = (case hk_driver k of None \<Rightarrow> [] | Some d \<Rightarrow> hd_pincode d)"

definition accessory_uri :: "homekit_output \<Rightarrow> string option" where
  "accessory_uri k = (case hk_driver k of None \<Rightarrow> Some []
     | Some d \<Rightarrow> setup_uri (setup_code k) (hd_setup_id d) category_switch)"

text \<open>
  \<open>record_setup_code\<close>, when the file can be written or not (an \<open>OSError\<close> is swallowed): the text it
  holds from then on, or the \<open>ValueError\<close> of a setup code that is not a number.
\<close>

definition record_setup_code :: "time \<Rightarrow> bool \<Rightarrow> homekit_output \<Rightarrow> homekit_output \<times> string option" where
  "record_setup_code now writable k =
     (case (hk_driver k, accessory_uri k) of
        (None, _) \<Rightarrow> (k, None)
      | (Some d, None) \<Rightarrow> (k, Some ''ValueError'')
      | (Some d, Some uri) \<Rightarrow>
          if writable
          then (k\<lparr>hk_file := Some (setup_code_text (hk_instance k) (hk_display_name k) (setup_code k) uri (paired k) now)\<rparr>, None)
          else (k, None))"

definition start_homekit :: "string \<Rightarrow> make_driver \<Rightarrow> time \<Rightarrow> bool \<Rightarrow> homekit_output \<Rightarrow> homekit_output \<times> string option" where
  "start_homekit generated driver_of now writable k =
     (case build_accessory generated driver_of k of
        (k1, Some (ty, err)) \<Rightarrow> (set_homekit_health HsFailed (ty @ '': '' @ err) k1, None)
      | (k1, None) \<Rightarrow> record_setup_code now writable (set_homekit_health HsOk
          (''accessory '' @ py_repr (hk_display_name k1) @ '' on port '' @ string_of_int (hk_port k1)) k1))"

definition stop_homekit :: "homekit_output \<Rightarrow> homekit_output" where
  "stop_homekit k = (case hk_driver k of None \<Rightarrow> k
     | Some d \<Rightarrow> set_homekit_health HsStopped ''not running'' (k\<lparr>hk_driver := None\<rparr>))"

definition homekit_health :: "homekit_output \<Rightarrow> plugin_health" where
  "homekit_health k =
     (if hk_status k \<noteq> HsOk then \<lparr>ph_status = hk_status k, ph_detail = hk_detail k\<rparr>
      else if paired k then \<lparr>ph_status = hk_status k, ph_detail = hk_detail k @ ''; paired''\<rparr>
      else \<lparr>ph_status = HsDegraded, ph_detail = hk_detail k @ ''; not paired -- setup code '' @ setup_code k\<rparr>)"

section \<open>The switch\<close>

definition show_state :: "bool \<Rightarrow> homekit_output \<Rightarrow> homekit_output" where
  "show_state b k = k\<lparr>hk_shown := hk_shown k @ [b]\<rparr>"

definition apply_homekit :: "output_update \<Rightarrow> homekit_output \<Rightarrow> string + homekit_output" where
  "apply_homekit u k =
     (if hk_driver k = None then Inl ''the HomeKit accessory is not running''
      else Inr (show_state (ou_state u) (k\<lparr>hk_desired := ou_state u\<rparr>)))"

definition characteristic_written :: "bool \<Rightarrow> homekit_output \<Rightarrow> homekit_output" where
  "characteristic_written v k =
     (if \<not> v then k\<lparr>hk_unlatches := hk_unlatches k @ [''HomeKit switch written false'']\<rparr>
      else if hk_driver k \<noteq> None then show_state (hk_desired k) k else k)"

definition homekit_query :: "homekit_output \<Rightarrow> remote_state" where
  "homekit_query k = \<lparr>belief = Unknown, rs_cleared_at = None\<rparr>"

text \<open>Anything that happens to a running plugin.\<close>

datatype homekit_op =
    Start string make_driver time bool
  | Stop
  | Apply output_update
  | Written bool
  | Pair bool

definition homekit_step :: "homekit_op \<Rightarrow> homekit_output \<Rightarrow> homekit_output" where
  "homekit_step h k =
     (case h of
        Start generated driver_of now writable \<Rightarrow> fst (start_homekit generated driver_of now writable k)
      | Stop \<Rightarrow> stop_homekit k
      | Apply u \<Rightarrow> (case apply_homekit u k of Inl _ \<Rightarrow> k | Inr k' \<Rightarrow> k')
      | Written v \<Rightarrow> characteristic_written v k
      | Pair b \<Rightarrow> k\<lparr>hk_driver := map_option (\<lambda>d. d\<lparr>hd_paired := b\<rparr>) (hk_driver k)\<rparr>)"

section \<open>The switch follows the latch\<close>

text \<open>Pushing a value keeps the record of what the switch shows in step with the value wanted.\<close>

definition shows_desired :: "homekit_output \<Rightarrow> bool" where
  "shows_desired k \<longleftrightarrow> hk_shown k = [] \<or> last (hk_shown k) = hk_desired k"

definition false_writes :: "homekit_op list \<Rightarrow> nat" where
  "false_writes hs = length (filter (\<lambda>h. case h of Written v \<Rightarrow> \<not> v | _ \<Rightarrow> False) hs)"

text \<open>What a start, a stop or a pairing leaves alone.\<close>

lemma start_homekit_fields:
  "hk_shown (fst (start_homekit g dr now wr k)) = hk_shown k"
  "hk_desired (fst (start_homekit g dr now wr k)) = hk_desired k"
  "hk_unlatches (fst (start_homekit g dr now wr k)) = hk_unlatches k"
  "hk_storage (fst (start_homekit g dr now wr k)) = hk_storage (snd (pincode g k))"
  "hk_driver (fst (start_homekit g dr now wr k)) =
     (case dr (hk_port k) (hk_address k) (fst (pincode g k)) of Inl _ \<Rightarrow> hk_driver k | Inr d \<Rightarrow> Some d)"
  by (auto simp: start_homekit_def build_accessory_def pincode_def record_setup_code_def set_homekit_health_def
      split: option.split sum.split prod.split)

lemma homekit_step_shows:
  "shows_desired k \<Longrightarrow> shows_desired (homekit_step h k)"
  "hk_unlatches (homekit_step h k) = hk_unlatches k @ replicate (false_writes [h]) ''HomeKit switch written false''"
  by (cases h; auto simp: homekit_step_def shows_desired_def false_writes_def start_homekit_fields stop_homekit_def
      apply_homekit_def characteristic_written_def show_state_def set_homekit_health_def split: option.split)+

text \<open>
  Whatever the daemon and the controllers do, the value last pushed to the switch is the one the core
  last asked for, and the unlatches requested are exactly the writes of false: a write of true
  asks for nothing and is answered with that value.
\<close>

theorem switch_follows_latch:
  assumes "shows_desired k"
  shows "shows_desired (fold homekit_step hs k) \<and>
    hk_unlatches (fold homekit_step hs k) =
      hk_unlatches k @ replicate (false_writes hs) ''HomeKit switch written false'' \<and>
    (hk_driver k \<noteq> None \<longrightarrow> hk_shown (homekit_step (Written True) k) = hk_shown k @ [hk_desired k])"
proof -
  have "shows_desired (fold homekit_step hs k) \<and> hk_unlatches (fold homekit_step hs k) =
      hk_unlatches k @ replicate (false_writes hs) ''HomeKit switch written false''"
    using assms
  proof (induction hs arbitrary: k)
    case (Cons h hs)
    have "false_writes (h # hs) = false_writes [h] + false_writes hs" by (simp add: false_writes_def)
    then show ?case using Cons homekit_step_shows [where k = k and h = h] by (simp add: replicate_add)
  qed (simp add: false_writes_def)
  then show ?thesis by (simp add: homekit_step_def characteristic_written_def show_state_def)
qed

section \<open>The setup code is kept\<close>

text \<open>What the plugin relies on of the driver: it serves the setup code it was constructed with.\<close>

definition keeps_pincode :: "make_driver \<Rightarrow> bool" where
  "keeps_pincode dr \<longleftrightarrow> (\<forall>port addr code d. dr port addr code = Inr d \<longrightarrow> hd_pincode d = code)"

definition code_kept :: "string \<Rightarrow> homekit_output \<Rightarrow> bool" where
  "code_kept c k \<longleftrightarrow> dict_get (hk_storage k) ''pincode'' = Some c \<and>
     (case hk_driver k of None \<Rightarrow> True | Some d \<Rightarrow> hd_pincode d = c)"

lemma start_keeps_code:
  assumes "code_kept c k" "keeps_pincode dr"
  shows "code_kept c (fst (start_homekit g dr now wr k))"
proof -
  have p: "pincode g k = (c, k)" using assms(1) by (simp add: pincode_def code_kept_def)
  show ?thesis using assms
    by (auto simp: keeps_pincode_def code_kept_def start_homekit_fields p split: sum.splits)
qed

text \<open>
  The setup code is generated once: after a first start, however often the plugin is stopped and
  started, whatever codes are generated then and whatever is applied, written or paired in
  between, the code stored and the one any running accessory serves are the first.
\<close>

theorem setup_code_generated_once:
  assumes "hk_driver k = None" "dict_get (hk_storage k) ''pincode'' = None"
    and "\<forall>h \<in> set (Start g dr now wr # hs). case h of Start _ dr' _ _ \<Rightarrow> keeps_pincode dr' | _ \<Rightarrow> True"
    and "k' = fold homekit_step (Start g dr now wr # hs) k"
  shows "dict_get (hk_storage k') ''pincode'' = Some g \<and> (hk_driver k' \<noteq> None \<longrightarrow> setup_code k' = g)"
proof -
  let ?k1 = "homekit_step (Start g dr now wr) k"
  have step: "code_kept g (homekit_step h k)"
    if "code_kept g k" "case h of Start _ dr' _ _ \<Rightarrow> keeps_pincode dr' | _ \<Rightarrow> True" for h k
    using that start_keeps_code
    by (cases h) (auto simp: homekit_step_def code_kept_def stop_homekit_def apply_homekit_def characteristic_written_def
        show_state_def set_homekit_health_def split: option.splits)
  have p: "pincode g k = (g, k\<lparr>hk_storage := dict_put (hk_storage k) ''pincode'' g\<rparr>)" using assms(2) by (simp add: pincode_def)
  have "keeps_pincode dr" using assms(3) by simp
  then have "code_kept g ?k1"
    using assms(1)
    by (auto simp: code_kept_def homekit_step_def start_homekit_fields p keeps_pincode_def split: sum.split)
  moreover have "code_kept g (fold homekit_step hs k1)" if "code_kept g k1" for k1
    using that assms(3) by (induction hs arbitrary: k1) (auto intro: step)
  ultimately have "code_kept g k'" by (simp add: assms(4))
  then show ?thesis by (auto simp: code_kept_def setup_code_def split: option.splits)
qed

section \<open>Witnesses\<close>

definition ex_switch :: homekit_output where
  "ex_switch = the (init_homekit (\<lambda>q. []) ''lamp'' [] [])"

definition ex_driver :: make_driver where
  "ex_driver port addr code = Inr \<lparr>hd_pincode = code, hd_setup_id = ''ABCD'', hd_paired = False\<rparr>"

lemma switch_follows_latch_witness:
  "hk_unlatches (fold homekit_step [Start ''031-45-154'' ex_driver 0 True, Written True, Written False] ex_switch) =
     [''HomeKit switch written false'']"
proof -
  have "shows_desired ex_switch" "hk_unlatches ex_switch = []" by (simp_all add: shows_desired_def ex_switch_def init_homekit_def int_setting_def)
  then show ?thesis
    using switch_follows_latch [of ex_switch "[Start ''031-45-154'' ex_driver 0 True, Written True, Written False]"]
    by (simp add: false_writes_def)
qed

lemma setup_code_generated_once_witness:
  "setup_code (fold homekit_step [Start ''031-45-154'' ex_driver 0 True, Stop, Start ''999-99-999'' ex_driver 1 False] ex_switch) = ''031-45-154''"
proof -
  let ?hs = "[Stop, Start ''999-99-999'' ex_driver 1 False]"
  let ?k = "fold homekit_step (Start ''031-45-154'' ex_driver 0 True # ?hs) ex_switch"
  have i: "hk_driver ex_switch = None" "dict_get (hk_storage ex_switch) ''pincode'' = None"
    by (simp_all add: ex_switch_def init_homekit_def int_setting_def)
  have k: "\<forall>h \<in> set (Start ''031-45-154'' ex_driver 0 True # ?hs). case h of Start _ dr' _ _ \<Rightarrow> keeps_pincode dr' | _ \<Rightarrow> True"
    by (simp add: keeps_pincode_def ex_driver_def)
  have "hk_driver ?k \<noteq> None" by (simp add: homekit_step_def start_homekit_fields ex_driver_def)
  then show ?thesis using setup_code_generated_once [OF i k refl] by blast
qed

end
