(* ===== verification/End_To_End.thy ===== *)
theory End_To_End
  imports Engine_Properties Delivery Webhook_Input Pagerduty_Output
begin

text \<open>
  From one end of the daemon to the other: a request at a webhook becomes a push to the
  outputs its rules drive, and an acknowledgement PagerDuty reports becomes the push that
  turns the output off. The plugins, the core and the dispatcher are composed as the daemon
  composes them, through the callables a plugin is constructed with, the core's queue and
  the dispatcher's.
\<close>

section \<open>An undisturbed iteration\<close>

text \<open>The core is waiting: nothing is queued, it is not stopping and no timer is due.\<close>

definition waiting :: "env \<Rightarrow> engine \<Rightarrow> bool" where
  "waiting env s \<longleftrightarrow> e_queue s = [] \<and> \<not> e_stopping s \<and> (\<forall>x \<in> set (e_timers s). env_now env < fst x)"

text \<open>An output is idle: live, nothing in flight, and nothing pending.\<close>

definition idle :: "engine \<Rightarrow> name \<Rightarrow> bool" where
  "idle s i \<longleftrightarrow> i \<in> set (ps_outputs (e_plugins s)) \<and> i \<notin> e_in_flight s \<and> pending_push_of (e_db s) i = None"

lemma tick_quiet:
  assumes "\<forall>x \<in> set (e_timers u). env_now env < fst x"
  shows "tick env u = Inr (maybe_write_last_seen (env_now env)
    (dispatch_due_pushes (env_now env) (u\<lparr>e_heartbeat := Some (env_now env)\<rparr>)))"
proof -
  have "filter (\<lambda>x. fst x \<le> env_now env) (e_timers u) = []" using assms by (auto simp: filter_empty_conv not_le)
  moreover have "filter (\<lambda>x. \<not> fst x \<le> env_now env) (e_timers u) = e_timers u" using assms by (auto simp: filter_id_conv not_le)
  ultimately show ?thesis by (cases u) (simp add: tick_def fire_due_timers_def Let_def)
qed

lemma due_push_sent:
  fixes now :: time
  assumes ok: "engine_ok u" and p: "pending_push_of (e_db u) i = Some p" "pp_next_attempt_at p \<le> now"
    and live: "i \<in> set (ps_outputs (e_plugins u))" "i \<notin> e_in_flight u"
  shows "(i, v_update (e_graph u) (latch_rec u) i) \<in>
      set (drop (length (e_dispatched u)) (e_dispatched (dispatch_due_pushes now u))) \<and>
    latch_rec (dispatch_due_pushes now u) = latch_rec u"
proof -
  obtain d l where eq: "dispatch_due_pushes now u = u\<lparr>e_db := d, e_latches := l,
      e_in_flight := e_in_flight u \<union> set (to_dispatch u (due_names u now)),
      e_dispatched := e_dispatched u @ map (\<lambda>i. (i, v_update (e_graph u) (latch_rec u) i)) (to_dispatch u (due_names u now))\<rparr>"
    and view: "view (dispatch_due_pushes now u) = v_dispatch (e_graph u) (e_in_flight u) (set (ps_outputs (e_plugins u)))
      (set (due_names u now)) (view u)"
    using dispatch_due_pushes_facts [OF ok, of now] by blast
  have key: "pp_instance p = i" using engine_okD(1) [OF ok] p(1) unfolding db_ok_def by blast
  have "p \<in> set (pending_pushes_due (e_db u) now)"
    using p unfolding pending_pushes_due_set [OF engine_okD(1) [OF ok]] key by simp
  then have "i \<in> set (to_dispatch u (due_names u now))" using live key by (auto simp: to_dispatch_def due_names_def)
  moreover have "latch_rec (dispatch_due_pushes now u) = latch_rec u"
    using arg_cong [OF view, of v_latch] by (simp add: v_dispatch_def)
  ultimately show ?thesis by (simp add: eq)
qed

lemma last_seen_latches [simp]:
  "latch_rec (maybe_write_last_seen now s) = latch_rec s" "e_dispatched (maybe_write_last_seen now s) = e_dispatched s"
  by (simp_all add: maybe_write_last_seen_def latch_rec_def fun_eq_iff)

text \<open>
  One message of a waiting core whose handler moves the latches of some rules: the iteration goes
  through, the latches are moved, and an idle output whose last applied value they no longer
  call for is sent the value they do.
\<close>

lemma moved_latches_reach_output:
  assumes ok: "engine_ok s" and w: "waiting env s"
    and h: "handle env m s = Inr u" "data_step s u" "engine_ok u" "view u = v_move (e_graph s) (env_now env) ns f (view s)"
    and i: "idle s i" "i \<in> set (outputs_affected_by (e_graph s) ns)"
    and off: "last_applied (e_db s) i \<noteq> Some (v_desired (e_graph s) (latch_rec u) i)"
  shows "\<exists>t update. loop_step env (submit m s) = Inr t \<and> latch_rec t = latch_rec u \<and>
    (i, update) \<in> set (drop (length (e_dispatched s)) (e_dispatched t)) \<and>
    ou_state update = v_desired (e_graph s) (latch_rec u) i"
proof -
  let ?now = "env_now env"
  let ?u = "u\<lparr>e_heartbeat := Some ?now\<rparr>"
  note f = data_step_fields [OF h(2)]
  have rec: "latch_rec ?u = latch_rec u" by (simp add: latch_rec_def fun_eq_iff)
  have okh: "engine_ok ?u" using h(3) by (simp add: engine_ok_def rec)
  have d: "latch_rec u = v_latch (v_move (e_graph s) ?now ns f (view s))" using arg_cong [OF h(4), of v_latch] by simp
  have pend: "pending_push_of (e_db u) i = Some (new_push i (v_desired (e_graph s) (latch_rec u) i) ?now)"
    using arg_cong [OF h(4), of v_pending] i off d
    by (simp add: v_move_def v_synced_def synced_def idle_def)
  have queue: "submit m s = s\<lparr>e_queue := m # e_queue s\<rparr>" using w by (simp add: submit_def waiting_def)
  have same: "s\<lparr>e_queue := []\<rparr> = s" using w by (cases s) (simp add: waiting_def)
  have t: "loop_step env (submit m s) = Inr (maybe_write_last_seen ?now (dispatch_due_pushes ?now ?u))"
    using w h(1) tick_quiet [of u env] f by (simp add: loop_step_def queue waiting_def same)
  have "(i, v_update (e_graph ?u) (latch_rec ?u) i) \<in>
      set (drop (length (e_dispatched ?u)) (e_dispatched (dispatch_due_pushes ?now ?u))) \<and>
    latch_rec (dispatch_due_pushes ?now ?u) = latch_rec ?u"
  proof (rule due_push_sent [OF okh])
    show "pending_push_of (e_db ?u) i = Some (new_push i (v_desired (e_graph s) (latch_rec u) i) ?now)" using pend by simp
    show "pp_next_attempt_at (new_push i (v_desired (e_graph s) (latch_rec u) i) ?now) \<le> ?now" by (simp add: new_push_def)
    show "i \<in> set (ps_outputs (e_plugins ?u))" "i \<notin> e_in_flight ?u" using i(1) f(2,6) by (simp_all add: idle_def)
  qed
  moreover have "ou_state (v_update (e_graph u) (latch_rec u) i) = v_desired (e_graph u) (latch_rec u) i"
    by (rule v_update_state [OF engine_okD(3) [OF h(3)]])
  ultimately show ?thesis using t f(1,9) by (auto simp: rec)
qed

text \<open>What the core sends is a request in the dispatcher's queue.\<close>

lemma fold_dispatch_queue: "po_queue (fold dispatch rs p) = po_queue p @ map Some rs"
  by (induction rs arbitrary: p) (simp_all add: dispatch_def)

lemma sent_is_queued:
  "(i, u) \<in> set (drop (length (e_dispatched s)) (e_dispatched t)) \<Longrightarrow>
     Some \<lparr>pr_instance = i, pr_update = u\<rparr> \<in> set (po_queue (hand_over s t p))"
  by (auto simp: hand_over_def fold_dispatch_queue request_of_def intro!: image_eqI [of _ _ "(i, u)"])

section \<open>From a webhook to an output\<close>

lemma handle_event: "handle env (InputEventMessage i e) = handle_input_event env i e"
  by (rule ext) (simp add: handle_def)

lemma handle_unlatch_message: "handle env (UnlatchRequestMessage i cause) = handle_unlatch env i cause"
  by (rule ext) (simp add: handle_def)

lemma desired_driven: "drives s r j \<Longrightarrow> lr_state (L r) \<Longrightarrow> v_desired (e_graph s) L j"
  by (auto simp: drives_def v_desired_def)

text \<open>
  C6. A request that is answered with 204 presented the secret, and once the waiting core has taken the
  event it caused, the latches of the rules its input feeds are set with the time of the
  request, and an idle output of such a rule that is not on has a push in the dispatcher's
  queue that turns it on.
\<close>

theorem request_reaches_output:
  assumes ok: "engine_ok s" and w: "waiting env s"
    and rq: "hd_response (handle_request lib now rq receiver) = Inr answer" "rs_status answer = 204"
    and path: "fed_by s i r" "drives s r j" and j: "idle s j" "last_applied (e_db s) j \<noteq> Some True"
  defines "events \<equiv> drop (length (wh_emitted receiver)) (wh_emitted (hd_plugin (handle_request lib now rq receiver)))"
  shows "presents_secret receiver rq \<and>
    (\<exists>t update. loop_step env (fold (emit_for i) events s) = Inr t \<and>
       lr_state (latch_rec t r) \<and> lr_set_at (latch_rec t r) = Some now \<and> ou_state update \<and>
       Some \<lparr>pr_instance = j, pr_update = update\<rparr> \<in> set (po_queue (hand_over s t p)))"
proof (cases rule: handle_request_cases [of lib now rq receiver])
  case (admitted n e)
  have events: "events = [e]" by (simp add: events_def admitted(6))
  obtain u where u: "handle_input_event env i e s = Inr u" "data_step s u" "engine_ok u"
    "view u = v_move (e_graph s) (env_now env) (input_names_of s i) (\<lambda>_. triggered (occurred_at e) i (event_summary e)) (view s)"
    using handle_input_event_refines [OF ok] by blast
  have r: "r \<in> set (input_names_of s i)" using path(1) input_names_fed [OF ok] by blast
  then have latch: "latch_rec u r = triggered now i (event_summary e) (latch_rec s r)"
    using arg_cong [OF u(4), of v_latch] admitted(4) by simp
  then have des: "v_desired (e_graph s) (latch_rec u) j"
    by (intro desired_driven [OF path(2)]) (simp add: triggered_def)
  have aff: "j \<in> set (outputs_affected_by (e_graph s) (input_names_of s i))"
    using affected_drives [OF ok] r path(2) by blast
  obtain t update where t: "loop_step env (submit (InputEventMessage i e) s) = Inr t" "latch_rec t = latch_rec u"
    "(j, update) \<in> set (drop (length (e_dispatched s)) (e_dispatched t))" "ou_state update"
    using moved_latches_reach_output [OF ok w _ u(2-4) j(1) aff, of "InputEventMessage i e"] u(1) j(2) des
    by (auto simp: handle_event)
  have "loop_step env (fold (emit_for i) events s) = Inr t" using t(1) by (simp add: events emit_for_def)
  moreover have "lr_state (latch_rec t r) \<and> lr_set_at (latch_rec t r) = Some now" by (simp add: t(2) latch triggered_def)
  ultimately show ?thesis using t(4) sent_is_queued [OF t(3)] admitted(1) by blast
qed (use rq in \<open>auto simp: refuse_def respond_def\<close>)

section \<open>From an acknowledgement to an output\<close>

lemma poll_reasons: "pagerduty_poll_once pw web q = (q', Inr reasons) \<Longrightarrow>
    reasons = (if all_resolved pw web q then [''PagerDuty incident resolved''] else [])"
  by (rule poll_once_cases [of pw web q]) auto

text \<open>
  C19. A pass of PagerDuty's polling thread that finds incidents, all of them resolved, clears every latch
  that drives the output once the waiting core has taken the request, and an idle output that is
  not off has a push in the dispatcher's queue that turns it off. The times of the incidents
  play no part in it: this is so of a latch that was set after the last of them was resolved too.
\<close>

theorem resolved_incidents_clear_latches:
  assumes ok: "engine_ok s" and w: "waiting env s"
    and poll: "all_resolved pw web q" "pagerduty_poll_once pw web q = (q', Inr reasons)"
    and r: "drives s r i" "lr_state (latch_rec s r)" and i: "idle s i" "last_applied (e_db s) i \<noteq> Some False"
  shows "\<exists>t update. loop_step env (fold (unlatch_for i) reasons s) = Inr t \<and>
    (\<forall>r'. drives s r' i \<longrightarrow> \<not> lr_state (latch_rec t r')) \<and> lr_cleared_at (latch_rec t r) = Some (env_now env) \<and>
    \<not> ou_state update \<and> Some \<lparr>pr_instance = i, pr_update = update\<rparr> \<in> set (po_queue (hand_over s t p))"
proof -
  let ?cause = "''PagerDuty incident resolved''" and ?ns = "map rule_name (rules_for_output (e_graph s) i)"
  have reasons: "reasons = [?cause]" using poll_reasons [OF poll(2)] poll(1) by simp
  obtain u where u: "handle_unlatch env i ?cause s = Inr u" "data_step s u" "engine_ok u"
    "view u = v_unlatch (e_graph s) (env_now env) i (view s)"
    using handle_unlatch_refines [OF ok] by blast
  have mem: "r' \<in> set ?ns \<longleftrightarrow> drives s r' i" for r' by (rule output_names_drive [OF ok])
  have "list_ex (\<lambda>r. lr_state (latch_rec s r)) ?ns" using r mem by (auto simp only: list_ex_iff)
  then have move: "view u = v_move (e_graph s) (env_now env) ?ns (clear_if_set (env_now env) i) (view s)"
    using u(4) by (simp add: v_unlatch_def Let_def)
  have latch: "latch_rec u r' = (if drives s r' i then clear_if_set (env_now env) i r' (latch_rec s r') else latch_rec s r')" for r'
    using arg_cong [OF move, of v_latch] mem [of r'] by simp
  have clear: "\<not> lr_state (latch_rec u r')" if "drives s r' i" for r'
    using that by (simp add: latch clear_if_set_def cleared_def)
  then have des: "\<not> v_desired (e_graph s) (latch_rec u) i" by (auto simp: v_desired_def drives_def)
  have aff: "i \<in> set (outputs_affected_by (e_graph s) ?ns)" using affected_drives [OF ok] mem r(1) by blast
  obtain t update where t: "loop_step env (submit (UnlatchRequestMessage i ?cause) s) = Inr t" "latch_rec t = latch_rec u"
    "(i, update) \<in> set (drop (length (e_dispatched s)) (e_dispatched t))" "\<not> ou_state update"
    using moved_latches_reach_output [OF ok w _ u(2,3) move i(1) aff, of "UnlatchRequestMessage i ?cause"] u(1) i(2) des
    by (auto simp: handle_unlatch_message)
  have "loop_step env (fold (unlatch_for i) reasons s) = Inr t" using t(1) by (simp add: reasons unlatch_for_def)
  moreover have "lr_cleared_at (latch_rec t r) = Some (env_now env)"
    using r by (simp add: t(2) latch clear_if_set_def cleared_def)
  ultimately show ?thesis using t(2,4) clear sent_is_queued [OF t(3)] by auto
qed

section \<open>Witnesses\<close>

lemma ex_db_idle: "db_pending ex_db = []" "db_output_state ex_db = []"
  by code_simp+

lemma ex_engine_fields:
  "e_db ex_engine = ex_db" "e_queue ex_engine = []" "\<not> e_stopping ex_engine" "e_in_flight ex_engine = {}"
  "e_timers ex_engine = [(0, PollHealthMessage)]" "e_plugins ex_engine = ex_plugins"
  by (simp_all add: ex_engine_def init_engine_def schedule_def reload_latches_def timedelta_us_def round_half_even_def)

lemma ex_engine_idle: "idle ex_engine ''pager''" "idle ex_engine ''lamp''" "last_applied (e_db ex_engine) i = None"
  "waiting (ex_env (- 1)) ex_engine"
  by (simp_all add: idle_def waiting_def ex_engine_fields ex_plugins_def ex_env_def pending_push_of_def last_applied_def
      output_state_def ex_db_idle)

theorem request_reaches_output_witness:
  "\<exists>t update. loop_step (ex_env (- 1)) (emit_for ''web'' (hd (wh_emitted (hd_plugin
       (handle_request ex_library 7 (ex_post ''0123456789abcdef'') ex_receiver)))) ex_engine) = Inr t \<and>
     lr_state (latch_rec t ''visitor'') \<and>
     Some \<lparr>pr_instance = ''lamp'', pr_update = update\<rparr> \<in> set (po_queue (hand_over ex_engine t (init_pool [''lamp''] 2)))"
proof -
  let ?h = "handle_request ex_library 7 (ex_post ''0123456789abcdef'') ex_receiver"
  have r: "has_status (\<lambda>c. c = 204) (hd_response ?h)" by code_simp
  then obtain answer where a: "hd_response ?h = Inr answer" "rs_status answer = 204" by (cases "hd_response ?h") auto
  have e: "length (drop (length (wh_emitted ex_receiver)) (wh_emitted (hd_plugin ?h))) = 1" "wh_emitted ex_receiver = []"
    by code_simp+
  then obtain x where x: "drop (length (wh_emitted ex_receiver)) (wh_emitted (hd_plugin ?h)) = [x]" "hd (wh_emitted (hd_plugin ?h)) = x"
    by (cases "wh_emitted (hd_plugin ?h)") auto
  have "fed_by ex_engine ''web'' ''visitor''" "drives ex_engine ''visitor'' ''lamp''"
    by (simp_all add: fed_by_def drives_def ex_graph)
  from request_reaches_output [OF ex_engine_ok ex_engine_idle(4) a this ex_engine_idle(2), of "init_pool [''lamp''] 2"]
  show ?thesis using ex_engine_idle(3) x by auto
qed

definition ex_pd_world :: pagerduty_world where
  "ex_pd_world = \<lparr>pw_quote = (\<lambda>t. t),
     pw_loads = (\<lambda>t. Inr (JObj [(''incidents'', JList [JObj [(''status'', JStr ''resolved'')]])])),
     pw_float = (\<lambda>q. []), pw_iso = (\<lambda>t. None)\<rparr>"

definition ex_pd :: pagerduty_output where
  "ex_pd = the (init_pagerduty (\<lambda>q. []) ''pager'' [])"

definition ex_latched :: engine where
  "ex_latched = put_latch ((fresh_latch ''outage'')\<lparr>lr_state := True, lr_set_at := Some (- 2)\<rparr>) ex_engine"

theorem resolved_incidents_clear_latches_witness:
  "\<exists>t update. loop_step (ex_env (- 1)) (unlatch_for ''pager'' ''PagerDuty incident resolved'' ex_latched) = Inr t \<and>
     \<not> lr_state (latch_rec t ''outage'') \<and> \<not> ou_state update \<and>
     Some \<lparr>pr_instance = ''pager'', pr_update = update\<rparr> \<in> set (po_queue (hand_over ex_latched t (init_pool [''pager''] 2)))"
proof -
  let ?l = "(fresh_latch ''outage'')\<lparr>lr_state := True, lr_set_at := Some (- 2)\<rparr>"
  have rule: "lr_rule ?l = ''outage''" by (simp add: fresh_latch_def)
  have mem: "\<lparr>rule_name = ''outage'', rule_inputs = [''mail'', ''web''], rule_outputs = [''pager'']\<rparr> \<in> graph_members (e_graph ex_engine)"
    by (simp add: ex_graph)
  have "dict_get (db_rules (e_db ex_engine)) ''outage'' \<noteq> None"
    using engine_okD(4) [OF ex_engine_ok mem] by simp
  then have ok: "engine_ok ex_latched" unfolding ex_latched_def by (intro engine_ok_put_latch ex_engine_ok) (simp add: rule)
  note ds = put_latch_facts(1) [of ex_engine ?l, folded ex_latched_def]
  note f = data_step_fields [OF ds]
  have v: "view ex_latched = (view ex_engine)\<lparr>v_latch := (latch_rec ex_engine)(''outage'' := ?l)\<rparr>"
    using put_latch_facts(3) [of ?l ex_engine] by (simp only: rule ex_latched_def)
  have on: "lr_state (latch_rec ex_latched ''outage'')" using arg_cong [OF v, of v_latch] by simp
  have "pending_push_of (e_db ex_latched) = pending_push_of (e_db ex_engine)" "last_applied (e_db ex_latched) = last_applied (e_db ex_engine)"
    using arg_cong [OF v, of v_pending] arg_cong [OF v, of v_applied] by simp_all
  with f have "idle ex_latched ''pager''" "last_applied (e_db ex_latched) ''pager'' \<noteq> Some False" "waiting (ex_env (- 1)) ex_latched"
    using ex_engine_idle by (simp_all add: idle_def waiting_def)
  moreover have "drives ex_latched ''outage'' ''pager''" by (simp add: drives_def f(1) ex_graph)
  moreover have "all_resolved ex_pd_world (\<lambda>rq. WebBody ''x'') ex_pd" by code_simp
  moreover have "snd (pagerduty_poll_once ex_pd_world (\<lambda>rq. WebBody ''x'') ex_pd) = Inr [''PagerDuty incident resolved'']" by code_simp
  then obtain q where "pagerduty_poll_once ex_pd_world (\<lambda>rq. WebBody ''x'') ex_pd = (q, Inr [''PagerDuty incident resolved''])"
    by (cases "pagerduty_poll_once ex_pd_world (\<lambda>rq. WebBody ''x'') ex_pd") auto
  ultimately obtain t update where "loop_step (ex_env (- 1)) (fold (unlatch_for ''pager'') [''PagerDuty incident resolved''] ex_latched) = Inr t"
    "\<forall>r. drives ex_latched r ''pager'' \<longrightarrow> \<not> lr_state (latch_rec t r)" "\<not> ou_state update"
    "Some \<lparr>pr_instance = ''pager'', pr_update = update\<rparr> \<in> set (po_queue (hand_over ex_latched t (init_pool [''pager''] 2)))"
    using resolved_incidents_clear_latches [OF ok _ _ _ _ on, of "ex_env (- 1)" ex_pd_world "\<lambda>rq. WebBody ''x''" ex_pd q
        "[''PagerDuty incident resolved'']" "''pager''" "init_pool [''pager''] 2"] by blast
  then show ?thesis using \<open>drives ex_latched _ _\<close> by auto
qed

end
