(* ===== verification/Reload_Race.thy ===== *)
theory Reload_Race
  imports Engine_Properties
begin

text \<open>
  \<open>Engine.reload_latches\<close> on the reload thread. Elsewhere it is one step; here it is the two it
  consists of, the reading of the latches and the assignment of the cache, with what the
  core does in between. No lock is held over the two.
\<close>

text \<open>The engine, and what the reload thread has read and not yet assigned.\<close>

type_synonym caching = "engine \<times> latch_record list option"

definition assign_cache :: "latch_record list \<Rightarrow> engine \<Rightarrow> engine" where
  "assign_cache records s = s\<lparr>e_latches := map (\<lambda>r. (lr_rule r, r)) records\<rparr>"

inductive caching_step :: "caching \<Rightarrow> caching \<Rightarrow> bool" where
  read_latches: "caching_step (s, None) (s, Some (latches (e_db s)))"
| assigned: "caching_step (s, Some records) (assign_cache records s, None)"
| core: "handle env m s = Inr t \<Longrightarrow> caching_step (s, c) (t, c)"

text \<open>Undisturbed, the two steps are the one.\<close>

lemma undisturbed_reload: "caching_step\<^sup>*\<^sup>* (s, None) (reload_latches s, None)"
proof -
  have "caching_step (s, None) (s, Some (latches (e_db s)))" by (rule read_latches)
  moreover have "caching_step (s, Some (latches (e_db s))) (assign_cache (latches (e_db s)) s, None)" by (rule assigned)
  moreover have "assign_cache (latches (e_db s)) s = reload_latches s" by (simp add: assign_cache_def reload_latches_def)
  ultimately show ?thesis by (metis converse_rtranclp_into_rtranclp rtranclp.rtrancl_refl)
qed

lemma assigned_latches: "db_ok (e_db (s :: engine)) \<Longrightarrow> latch_rec (assign_cache (latches (e_db s)) t) = db_latch (e_db s)"
  using reload_latches_rec [of s]
  by (simp add: assign_cache_def reload_latches_def latch_rec_def fun_eq_iff)

text \<open>An unlatch request looks at the cache alone: with nothing set there it is ignored.\<close>

lemma fold_ensure_latch_db: "e_db (fold (ensure_latch \<circ> f) rs s) = e_db s" "e_graph (fold (ensure_latch \<circ> f) rs s) = e_graph s"
  by (induction rs arbitrary: s) (simp_all add: ensure_latch_def split: option.split)

lemma unlatch_ignored:
  assumes "\<forall>r \<in> set (rules_for_output (e_graph s) j). \<not> lr_state (latch_rec s (rule_name r))"
  shows "\<exists>t. handle_unlatch env j cause s = Inr t \<and> latch (e_db t) = latch (e_db s) \<and> e_graph t = e_graph s \<and>
    (db_ok (e_db s) \<longrightarrow> db_ok (e_db t))"
proof -
  have "filter (\<lambda>r. lr_state (latch_rec s (rule_name r))) (rules_for_output (e_graph s) j) = []"
    using assms by (simp add: filter_empty_conv)
  then show ?thesis
    by (simp add: handle_unlatch_def Let_def transaction_def append_event_e_def fold_ensure_latch_db)
qed

text \<open>
  C17. An acknowledgement can be lost over a reload. When the reload thread has read the latches, an event sets the latch of a
  rule on disk and in the cache; then the thread assigns what it read, and the cache no
  longer shows the latch. An unlatch request of the rule's output is ignored now, and the latch on
  disk stays set: whenever the cache is read again, the output is called for as if
  nobody had acknowledged it.
\<close>

theorem reload_race_loses_acknowledgement:
  fixes s :: engine and env env' :: env and e :: observed_event
  assumes ok: "engine_ok s" and path: "fed_by s i r" "drives s r j"
    and clear: "\<forall>q. drives s q j \<longrightarrow> \<not> lr_state (latch_rec s q)"
  shows "\<exists>t u v. handle env (InputEventMessage i e) s = Inr t \<and> caching_step\<^sup>*\<^sup>* (s, None) (u, None) \<and> lr_state (db_latch (e_db u) r) \<and> \<not> lr_state (latch_rec u r) \<and>
    handle_unlatch env' j cause u = Inr v \<and> lr_state (db_latch (e_db v) r) \<and>
    desired_state (reload_latches v) j"
proof -
  obtain t where t: "handle_input_event env i e s = Inr t" "data_step s t" "engine_ok t"
    "view t = v_move (e_graph s) (env_now env) (input_names_of s i) (\<lambda>_. triggered (occurred_at e) i (event_summary e)) (view s)"
    using handle_input_event_refines [OF ok] by blast
  define u where "u = assign_cache (latches (e_db s)) t"
  have h: "handle env (InputEventMessage i e) s = Inr t" using t(1) by (simp add: handle_def)
  have "caching_step (s, None) (s, Some (latches (e_db s)))" by (rule read_latches)
  moreover have "caching_step (s, Some (latches (e_db s))) (t, Some (latches (e_db s)))" using h by (rule core)
  moreover have "caching_step (t, Some (latches (e_db s))) (u, None)" unfolding u_def by (rule assigned)
  ultimately have run: "caching_step\<^sup>*\<^sup>* (s, None) (u, None)"
    by (meson converse_rtranclp_into_rtranclp rtranclp.rtrancl_refl)
  have cache: "latch_rec u = latch_rec s"
    unfolding u_def assigned_latches [OF engine_okD(1) [OF ok]] engine_okD(2) [OF ok] ..
  have g: "e_graph u = e_graph s" "e_db u = e_db t"
    using data_step_fields(1) [OF t(2)] by (simp_all add: u_def assign_cache_def)
  have "r \<in> set (input_names_of s i)" using path(1) input_names_fed [OF ok] by blast
  then have "lr_state (latch_rec t r)" using arg_cong [OF t(4), of v_latch] by (simp add: triggered_def)
  then have set_t: "lr_state (db_latch (e_db t) r)" unfolding engine_okD(2) [OF t(3)] .
  have "\<forall>R \<in> set (rules_for_output (e_graph u) j). \<not> lr_state (latch_rec u (rule_name R))"
    using clear output_names_drive [OF ok, of _ j] by (auto simp: g cache)
  from unlatch_ignored [OF this, of env' cause] obtain v where v: "handle_unlatch env' j cause u = Inr v"
    "latch (e_db v) = latch (e_db t)" "e_graph v = e_graph s" "db_ok (e_db v)"
    using g engine_okD(1) [OF t(3)] by auto
  have set_v: "lr_state (db_latch (e_db v) r)" using set_t v(2) by (simp add: db_latch_def)
  then have "lr_state (latch_rec (reload_latches v) r)" using reload_latches_rec [OF v(4)] by simp
  moreover have "e_graph (reload_latches v) = e_graph s" using v(3) by (simp add: reload_latches_def)
  moreover obtain R where "R \<in> graph_members (e_graph s)" "rule_name R = r" "j \<in> set (rule_outputs R)"
    using path(2) by (auto simp: drives_def)
  ultimately have "desired_state (reload_latches v) j"
    using desired_state_view [of "reload_latches v" j] engine_okD(3) [OF ok] by (auto simp: v_desired_def)
  moreover have "\<not> lr_state (latch_rec u r)" using clear path(2) by (simp add: cache)
  moreover have "lr_state (db_latch (e_db u) r)" using set_t by (simp only: g)
  ultimately show ?thesis using h run v(1) set_v by blast
qed

lemma ex_engine_clear: "\<not> lr_state (latch_rec ex_engine q)"
proof -
  have all: "\<forall>p \<in> set (db_latches ex_db). \<not> lr_state (snd p)" by code_simp
  have e: "latch_rec ex_engine = db_latch ex_db"
    unfolding engine_okD(2) [OF ex_engine_ok] by (simp add: ex_engine_def init_engine_def schedule_def reload_latches_def)
  show ?thesis
  proof (cases "dict_get (db_latches ex_db) q")
    case None
    then show ?thesis by (simp add: e db_latch_def latch_def fresh_latch_def)
  next
    case (Some l)
    then show ?thesis using bspec [OF all map_of_SomeD [OF Some]] by (simp add: e db_latch_def latch_def)
  qed
qed

theorem reload_race_loses_acknowledgement_witness:
  "\<exists>u v. caching_step\<^sup>*\<^sup>* (ex_engine, None) (u, None) \<and> lr_state (db_latch (e_db u) ''visitor'') \<and>
     handle_unlatch (ex_env 6) ''lamp'' ''button'' u = Inr v \<and> desired_state (reload_latches v) ''lamp''"
proof -
  have "fed_by ex_engine ''web'' ''visitor''" "drives ex_engine ''visitor'' ''lamp''"
    by (simp_all add: fed_by_def drives_def ex_graph)
  moreover have "\<forall>q. drives ex_engine q ''lamp'' \<longrightarrow> \<not> lr_state (latch_rec ex_engine q)"
    by (simp add: ex_engine_clear)
  ultimately show ?thesis
    using reload_race_loses_acknowledgement [OF ex_engine_ok, of "''web''" "''visitor''" "''lamp''" "ex_env 5"
      "\<lparr>occurred_at = 3, metadata = []\<rparr>" "ex_env 6" "''button''"] by blast
qed

end
