(* ===== verification/Plugin_Context.thy ===== *)
theory Plugin_Context
  imports Names Plugin_Api Config_Data Storage_Mirror
begin

text \<open>
  What a plugin instance is given at construction (\<open>PluginContext\<close> of \<open>plugin.py\<close>): its
  settings, its part of the key/value table, and the directory its files go to. Paths are
  \<open>pathlib\<close>'s: joining leaves out empty parts and single periods and keeps double periods,
  which only the file system takes as the way up.
\<close>

section \<open>Paths\<close>

text \<open>An absolute path by its parts.\<close>

type_synonym path = "string list"

fun split_slash :: "string \<Rightarrow> string \<Rightarrow> string list" where
  "split_slash [] part = [part]"
| "split_slash (c # cs) part =
     (if c = CHR ''/'' then part # split_slash cs [] else split_slash cs (part @ [c]))"

definition path_parts :: "string \<Rightarrow> path" where
  "path_parts text = filter (\<lambda>p. p \<noteq> '''' \<and> p \<noteq> ''.'') (split_slash text [])"

text \<open>\<open>directory / text\<close>: an absolute text replaces what is before it.\<close>

definition join_path :: "path \<Rightarrow> string \<Rightarrow> path" where
  "join_path p text = (if take 1 text = ''/'' then path_parts text else p @ path_parts text)"

text \<open>Where a path leads on disk, in a tree without links; above the root is the root.\<close>

definition on_disk :: "path \<Rightarrow> path" where
  "on_disk p = fold (\<lambda>part here. if part = ''..'' then butlast here else here @ [part]) p []"

section \<open>The context\<close>

record plugin_store =
  ks_instance :: name

record plugin_context =
  pc_instance_name :: name
  pc_settings :: settings
  pc_storage :: plugin_store
  pc_state_directory :: path

definition context_get :: "plugin_context \<Rightarrow> db \<Rightarrow> string \<Rightarrow> string option" where
  "context_get c d key = kv_get d (ks_instance (pc_storage c)) key"

definition context_set :: "plugin_context \<Rightarrow> db \<Rightarrow> string \<Rightarrow> string \<Rightarrow> db" where
  "context_set c d key v = kv_set d (ks_instance (pc_storage c)) key v"

text \<open>\<open>database_path\<close> and \<open>state_path\<close>; what creating the directory does is an argument.\<close>

definition database_path :: "path \<Rightarrow> path" where
  "database_path state_directory = join_path state_directory ''state.db''"

definition instance_directory :: "plugin_context \<Rightarrow> path" where
  "instance_directory c = join_path (join_path (pc_state_directory c) ''plugins'') (pc_instance_name c)"

definition state_path :: "(path \<Rightarrow> 'x + unit) \<Rightarrow> plugin_context \<Rightarrow> string \<Rightarrow> 'x + path" where
  "state_path mkdir c filename =
     (case mkdir (instance_directory c) of
        Inl x \<Rightarrow> Inl x
      | Inr _ \<Rightarrow> Inr (join_path (instance_directory c) filename))"

text \<open>The validator of a plugin that has none of its own.\<close>

definition default_validate_settings :: "settings \<Rightarrow> string list" where
  "default_validate_settings s = []"

section \<open>Where the files of an instance are\<close>

definition plain :: "string \<Rightarrow> bool" where
  "plain f \<longleftrightarrow> f \<noteq> '''' \<and> f \<noteq> ''.'' \<and> f \<noteq> ''..'' \<and> CHR ''/'' \<notin> set f"

lemma split_slash_single: "CHR ''/'' \<notin> set s \<Longrightarrow> split_slash s part = [part @ s]"
  by (induction s part rule: split_slash.induct) auto

lemma join_path_single:
  assumes "CHR ''/'' \<notin> set s"
  shows "join_path p s = p @ (if s = '''' \<or> s = ''.'' then [] else [s])"
proof -
  have "take 1 s \<noteq> ''/''" using assms by (cases s) auto
  then show ?thesis using assms by (simp add: join_path_def path_parts_def split_slash_single)
qed

lemma on_disk_plain: "''..'' \<notin> set p \<Longrightarrow> on_disk p = p"
proof -
  have "''..'' \<notin> set p \<Longrightarrow> fold (\<lambda>part here. if part = ''..'' then butlast here else here @ [part]) p acc = acc @ p" for acc
    by (induction p arbitrary: acc) auto
  then show "''..'' \<notin> set p \<Longrightarrow> on_disk p = p" by (simp add: on_disk_def)
qed

lemma on_disk_append:
  "on_disk (p @ q) = fold (\<lambda>part here. if part = ''..'' then butlast here else here @ [part]) q (on_disk p)"
  by (simp add: on_disk_def)

lemma valid_name_no_slash: "validate_name raw = Inr n \<Longrightarrow> CHR ''/'' \<notin> set n \<and> n \<noteq> ''''"
  using forbidden_characters(1) by (auto simp: validate_name_Inr no_name_problems_iff)

text \<open>
  The path on disk of each file of an instance, whatever its name: the instance's own
  directory, unless the name is one of the two that stand for a directory.
\<close>

definition file_on_disk :: "path \<Rightarrow> name \<Rightarrow> string \<Rightarrow> path" where
  "file_on_disk sd n f =
     (if n = ''..'' then sd @ [f] else if n = ''.'' then sd @ [''plugins'', f] else sd @ [''plugins'', n, f])"

lemma state_path_on_disk:
  assumes "validate_name raw = Inr (pc_instance_name c)" "''..'' \<notin> set (pc_state_directory c)" "plain f"
    and "state_path mkdir c f = Inr p"
  shows "on_disk p = file_on_disk (pc_state_directory c) (pc_instance_name c) f"
proof -
  have n: "CHR ''/'' \<notin> set (pc_instance_name c)" "pc_instance_name c \<noteq> ''''"
    using valid_name_no_slash [OF assms(1)] by auto
  have "join_path (pc_state_directory c) ''plugins'' = pc_state_directory c @ [''plugins'']"
    by (subst join_path_single) auto
  moreover have "join_path q f = q @ [f]" for q using assms(3) by (subst join_path_single) (auto simp: plain_def)
  ultimately have "p = pc_state_directory c @ [''plugins''] @ (if pc_instance_name c = ''.'' then [] else [pc_instance_name c]) @ [f]"
    using assms(4) n by (auto simp: state_path_def instance_directory_def join_path_single split: sum.splits)
  then show ?thesis
    using assms(3) by (auto simp: on_disk_append on_disk_plain [OF assms(2)] file_on_disk_def plain_def)
qed

lemma file_on_disk_eq: "file_on_disk sd n f = file_on_disk sd m g \<longleftrightarrow> n = m \<and> f = g"
  by (auto simp: file_on_disk_def)

text \<open>
  C32. The files of the instances do not meet: two instances of a valid name get the same path
  only for the same name and the same file. A file is in the directory of its instance
  unless the instance is named with one or two periods; the second of these is put beside the
  database, and meets it if the file has its name.
\<close>

theorem instance_files_apart:
  assumes names: "validate_name raw = Inr (pc_instance_name c)" "validate_name raw' = Inr (pc_instance_name c')"
    and sd: "pc_state_directory c' = pc_state_directory c" "''..'' \<notin> set (pc_state_directory c)"
    and files: "plain f" "plain g"
    and paths: "state_path mkdir c f = Inr p" "state_path mkdir' c' g = Inr q"
  shows "(on_disk p = on_disk q \<longleftrightarrow> pc_instance_name c = pc_instance_name c' \<and> f = g) \<and>
    (on_disk p = pc_state_directory c @ [''plugins'', pc_instance_name c, f] \<longleftrightarrow> pc_instance_name c \<notin> {''.'', ''..''}) \<and>
    (on_disk p = on_disk (database_path (pc_state_directory c)) \<longleftrightarrow> pc_instance_name c = ''..'' \<and> f = ''state.db'')"
proof -
  have p: "on_disk p = file_on_disk (pc_state_directory c) (pc_instance_name c) f"
    by (rule state_path_on_disk [OF names(1) sd(2) files(1) paths(1)])
  have q: "on_disk q = file_on_disk (pc_state_directory c) (pc_instance_name c') g"
    using state_path_on_disk [OF names(2) _ files(2) paths(2)] sd by simp
  have "on_disk (database_path (pc_state_directory c)) = pc_state_directory c @ [''state.db'']"
    using sd(2) by (simp add: database_path_def join_path_single on_disk_append on_disk_plain)
  then show ?thesis unfolding p q file_on_disk_eq by (auto simp: file_on_disk_def)
qed

definition ex_context :: "name \<Rightarrow> plugin_context" where
  "ex_context n = \<lparr>pc_instance_name = n, pc_settings = [], pc_storage = \<lparr>ks_instance = n\<rparr>,
     pc_state_directory = [''var'', ''lib'', ''noti-mapper'']\<rparr>"

theorem instance_files_apart_witness:
  "\<exists>p q. state_path (\<lambda>d. Inr () :: string + unit) (ex_context ''lamp'') ''homekit.state'' = Inr p \<and>
     state_path (\<lambda>d. Inr () :: string + unit) (ex_context ''..'') ''state.db'' = Inr q \<and>
     on_disk p \<noteq> on_disk q \<and> on_disk q = on_disk (database_path [''var'', ''lib'', ''noti-mapper''])"
proof -
  have v: "validate_name ''lamp'' = Inr (pc_instance_name (ex_context ''lamp''))"
    "validate_name ''..'' = Inr (pc_instance_name (ex_context ''..''))" by code_simp+
  have f: "plain ''homekit.state''" "plain ''state.db''" by (simp_all add: plain_def)
  have sd: "pc_state_directory (ex_context n) = [''var'', ''lib'', ''noti-mapper'']" "pc_instance_name (ex_context n) = n" for n
    by (simp_all add: ex_context_def)
  obtain p q where p: "state_path (\<lambda>d. Inr () :: string + unit) (ex_context ''lamp'') ''homekit.state'' = Inr p"
    and q: "state_path (\<lambda>d. Inr () :: string + unit) (ex_context ''..'') ''state.db'' = Inr q" by (simp add: state_path_def)
  show ?thesis
    using instance_files_apart [OF v _ _ f p q] instance_files_apart [OF v(2,1) _ _ f(2,1) q p] p q by (auto simp: sd)
qed

end
