(* ===== verification/Connections.thy ===== *)
theory Connections
  imports Plugin_Context
begin

text \<open>
  \<open>Database\<close> of \<open>storage.py\<close>: a connection to the state file per thread, opened when the
  thread first asks for one and closed by the thread itself. \<open>sqlite3\<close> refuses the use of a
  connection by another thread than the one that opened it, closing included; that is what the
  invariant is about. Threads are numbers, and so are connections, in the order of their opening.
\<close>

type_synonym thread = nat
type_synonym connection = nat

text \<open>
  \<open>db_local\<close> is the \<open>threading.local\<close> with its one attribute; what \<open>sqlite3\<close> knows of
  the connections beside it: who opened which, and the closed ones.
\<close>

record database =
  db_path :: path
  db_local :: "(thread, connection option) dict"
  db_opened_by :: "(connection, thread) dict"
  db_closed :: "connection list"

definition open_database :: "path \<Rightarrow> database" where
  "open_database p = \<lparr>db_path = p, db_local = [], db_opened_by = [], db_closed = []\<rparr>"

text \<open>\<open>getattr(self._local, "connection", None)\<close>.\<close>

definition local_connection :: "database \<Rightarrow> thread \<Rightarrow> connection option" where
  "local_connection b th = (case dict_get (db_local b) th of Some (Some c) \<Rightarrow> Some c | _ \<Rightarrow> None)"

definition open_connection :: "thread \<Rightarrow> database \<Rightarrow> connection \<times> database" where
  "open_connection th b =
     (let c = length (db_opened_by b) in (c, b\<lparr>db_opened_by := dict_put (db_opened_by b) c th\<rparr>))"

definition connection :: "thread \<Rightarrow> database \<Rightarrow> connection \<times> database" where
  "connection th b =
     (case local_connection b th of
        Some existing \<Rightarrow> (existing, b)
      | None \<Rightarrow> let (opened, b1) = open_connection th b in
          (opened, b1\<lparr>db_local := dict_put (db_local b1) th (Some opened)\<rparr>))"

definition close_database :: "thread \<Rightarrow> database \<Rightarrow> database" where
  "close_database th b =
     (case local_connection b th of
        None \<Rightarrow> b
      | Some existing \<Rightarrow> b\<lparr>db_closed := db_closed b @ [existing], db_local := dict_put (db_local b) th None\<rparr>)"

section \<open>Transactions\<close>

text \<open>
  The body of a \<open>with database.transaction()\<close>: statements over what the thread has in hand and
  the database as its transaction sees it, each of which may raise.
\<close>

type_synonym ('l, 'x) statement = "'l \<times> db \<Rightarrow> 'x + 'l \<times> db"
type_synonym ('l, 'x) job = "'l \<times> ('l, 'x) statement list"

record ('l, 'x) open_transaction =
  tx_thread :: thread
  tx_connection :: connection
  tx_job :: "('l, 'x) job"
  tx_rest :: "('l, 'x) statement list"
  tx_state :: "'l \<times> db"

text \<open>
  The state file with what is committed and the one transaction that holds the write lock, which
  \<open>BEGIN IMMEDIATE\<close> takes up front; the log is what was committed or rolled back, in order.
\<close>

record ('l, 'x) state_file =
  sf_database :: database
  sf_committed :: db
  sf_open :: "('l, 'x) open_transaction option"
  sf_log :: "(thread \<times> ('l, 'x) job) list"

definition begin_immediate :: "thread \<Rightarrow> ('l, 'x) job \<Rightarrow> ('l, 'x) state_file \<Rightarrow> ('l, 'x) state_file" where
  "begin_immediate th job f =
     (let (c, b) = connection th (sf_database f) in
      f\<lparr>sf_database := b, sf_open := Some \<lparr>tx_thread = th, tx_connection = c, tx_job = job,
          tx_rest = snd job, tx_state = (fst job, sf_committed f)\<rparr>\<rparr>)"

text \<open>What follows a statement of the body, or its end: \<open>ROLLBACK\<close> or \<open>COMMIT\<close>.\<close>

definition continue_transaction :: "('l, 'x) open_transaction \<Rightarrow> ('l, 'x) state_file \<Rightarrow> ('l, 'x) state_file" where
  "continue_transaction x f =
     (case tx_rest x of
        [] \<Rightarrow> f\<lparr>sf_committed := snd (tx_state x), sf_open := None, sf_log := sf_log f @ [(tx_thread x, tx_job x)]\<rparr>
      | q # qs \<Rightarrow> (case q (tx_state x) of
            Inl _ \<Rightarrow> f\<lparr>sf_open := None, sf_log := sf_log f @ [(tx_thread x, tx_job x)]\<rparr>
          | Inr v \<Rightarrow> f\<lparr>sf_open := Some (x\<lparr>tx_rest := qs, tx_state := v\<rparr>)\<rparr>))"

text \<open>
  What the threads do, in any order. Nothing but the transaction itself writes while it is open;
  a single statement outside one is its own transaction. A read goes on the last commit, and a thread
  closes its connection outside a transaction.
\<close>

inductive file_step :: "('l, 'x) state_file \<Rightarrow> ('l, 'x) state_file \<Rightarrow> bool" where
  begins: "sf_open f = None \<Longrightarrow> file_step f (begin_immediate th job f)"
| continues: "sf_open f = Some x \<Longrightarrow> file_step f (continue_transaction x f)"
| writes: "sf_open f = None \<Longrightarrow> connection th (sf_database f) = (c, b) \<Longrightarrow> q (l, sf_committed f) = Inr (l', d) \<Longrightarrow>
    file_step f (f\<lparr>sf_database := b, sf_committed := d, sf_log := sf_log f @ [(th, (l, [q]))]\<rparr>)"
| reads: "connection th (sf_database f) = (c, b) \<Longrightarrow> file_step f (f\<lparr>sf_database := b\<rparr>)"
| closes: "\<forall>x. sf_open f = Some x \<longrightarrow> tx_thread x \<noteq> th \<Longrightarrow>
    file_step f (f\<lparr>sf_database := close_database th (sf_database f)\<rparr>)"

definition fresh_file :: "path \<Rightarrow> db \<Rightarrow> ('l, 'x) state_file" where
  "fresh_file p d = \<lparr>sf_database = open_database p, sf_committed = d, sf_open = None, sf_log = []\<rparr>"

text \<open>A job done in one go: all of it, or nothing.\<close>

definition at_once :: "('l, 'x) job \<Rightarrow> db \<Rightarrow> db" where
  "at_once job d = (case run_steps (\<lambda>q. q) (snd job) (fst job, d) of Inl _ \<Rightarrow> d | Inr (_, d') \<Rightarrow> d')"

section \<open>Each connection with its thread\<close>

definition owned :: "database \<Rightarrow> bool" where
  "owned b \<longleftrightarrow> (\<forall>th c. local_connection b th = Some c \<longrightarrow> dict_get (db_opened_by b) c = Some th \<and> c \<notin> set (db_closed b)) \<and>
     (\<forall>c. dict_get (db_opened_by b) c \<noteq> None \<longleftrightarrow> c < length (db_opened_by b)) \<and>
     (\<forall>c \<in> set (db_closed b). c < length (db_opened_by b))"

lemma owned_open: "owned (open_database p)"
  by (simp add: owned_def open_database_def local_connection_def)

lemma length_dict_put: "dict_get d k = None \<Longrightarrow> length (dict_put d k v) = Suc (length d)"
  by (induction d) (auto split: if_splits)

lemma connection_local: "connection th b = (c, b') \<Longrightarrow> local_connection b' th = Some c"
  by (auto simp: connection_def open_connection_def local_connection_def Let_def split: option.splits)

lemma connection_others:
  "connection th b = (c, b') \<Longrightarrow> th' \<noteq> th \<Longrightarrow> local_connection b' th' = local_connection b th'"
  by (auto simp: connection_def open_connection_def local_connection_def Let_def split: option.splits)

lemma connection_kept: "connection th b = (c, b') \<Longrightarrow> local_connection b th' = Some c' \<Longrightarrow> local_connection b' th' = Some c'"
  by (auto simp: connection_def open_connection_def local_connection_def Let_def split: option.splits if_splits)

lemma owned_connection:
  assumes own: "owned b" and c: "connection th b = (c, b')"
  shows "owned b'"
proof (cases "local_connection b th")
  case (Some _)
  then show ?thesis using assms by (simp add: connection_def)
next
  case None
  let ?n = "length (db_opened_by b)"
  have b': "c = ?n" "db_opened_by b' = dict_put (db_opened_by b) ?n th" "db_closed b' = db_closed b"
    using c None by (auto simp: connection_def open_connection_def Let_def)
  have free: "dict_get (db_opened_by b) ?n = None" using own by (auto simp: owned_def)
  then have len: "length (dict_put (db_opened_by b) ?n th) = Suc ?n" by (rule length_dict_put)
  have loc: "local_connection b' t = (if t = th then Some ?n else local_connection b t)" for t
    using connection_local [OF c] connection_others [OF c] b'(1) by simp
  have "c' \<noteq> ?n" if "local_connection b t = Some c'" for t c' using that own free by (auto simp: owned_def)
  then show ?thesis using own unfolding owned_def loc b'(2,3) len by (auto simp: less_Suc_eq)
qed

lemma close_local: "local_connection (close_database th b) t = (if t = th then None else local_connection b t)"
  by (auto simp: close_database_def local_connection_def split: option.splits)

lemma owned_close:
  assumes "owned b"
  shows "owned (close_database th b)"
proof (cases "local_connection b th")
  case None
  then show ?thesis using assms by (simp add: close_database_def)
next
  case (Some c)
  then have c: "db_opened_by (close_database th b) = db_opened_by b" "db_closed (close_database th b) = db_closed b @ [c]"
    by (simp_all add: close_database_def)
  have "dict_get (db_opened_by b) c = Some th" using assms Some by (simp add: owned_def)
  then show ?thesis using assms unfolding owned_def c close_local by (auto split: if_splits)
qed

section \<open>Transactions one after the other\<close>

definition one_after_the_other :: "(thread \<times> ('l, 'x) job) list \<Rightarrow> db \<Rightarrow> db" where
  "one_after_the_other jobs d = fold (\<lambda>(th, job). at_once job) jobs d"

lemma one_after_snoc:
  "one_after_the_other (jobs @ [(th, job)]) d = at_once job (one_after_the_other jobs d)"
  by (simp add: one_after_the_other_def)

definition under_way :: "('l, 'x) state_file \<Rightarrow> ('l, 'x) open_transaction \<Rightarrow> bool" where
  "under_way f x \<longleftrightarrow> local_connection (sf_database f) (tx_thread x) = Some (tx_connection x) \<and>
     (\<exists>past. snd (tx_job x) = past @ tx_rest x \<and>
        run_steps (\<lambda>q. q) past (fst (tx_job x), sf_committed f) = Inr (tx_state x))"

definition serial :: "db \<Rightarrow> ('l, 'x) state_file \<Rightarrow> bool" where
  "serial d f \<longleftrightarrow> owned (sf_database f) \<and> sf_committed f = one_after_the_other (sf_log f) d \<and>
     (\<forall>x. sf_open f = Some x \<longrightarrow> under_way f x)"

lemma serial_begin:
  assumes "serial d f"
  shows "serial d (begin_immediate th job f)"
proof -
  obtain c b where c: "connection th (sf_database f) = (c, b)" by (cases "connection th (sf_database f)")
  then have "owned b" "local_connection b th = Some c"
    using assms by (auto simp: serial_def intro: owned_connection connection_local)
  then show ?thesis using assms by (simp add: serial_def begin_immediate_def c under_way_def)
qed

lemma serial_continue:
  assumes ser: "serial d f" and x: "sf_open f = Some x"
  shows "serial d (continue_transaction x f)"
proof -
  obtain past where past: "snd (tx_job x) = past @ tx_rest x"
      "run_steps (\<lambda>q. q) past (fst (tx_job x), sf_committed f) = Inr (tx_state x)"
    and own: "local_connection (sf_database f) (tx_thread x) = Some (tx_connection x)"
    using assms by (auto simp: serial_def under_way_def)
  have jobs: "sf_committed f = one_after_the_other (sf_log f) d" "owned (sf_database f)"
    using ser by (simp_all add: serial_def)
  show ?thesis
  proof (cases "tx_rest x")
    case Nil
    then have "at_once (tx_job x) (sf_committed f) = snd (tx_state x)"
      using past by (simp add: at_once_def case_prod_beta)
    then show ?thesis using Nil jobs by (simp add: serial_def continue_transaction_def one_after_snoc)
  next
    case (Cons q qs)
    show ?thesis
    proof (cases "q (tx_state x)")
      case (Inl e)
      then have "at_once (tx_job x) (sf_committed f) = sf_committed f"
        using past Cons by (simp add: at_once_def run_steps_append)
      then show ?thesis using Inl Cons jobs by (simp add: serial_def continue_transaction_def one_after_snoc)
    next
      case (Inr v)
      have "run_steps (\<lambda>q. q) (past @ [q]) (fst (tx_job x), sf_committed f) = Inr v"
        using past(2) Inr by (simp add: run_steps_append)
      moreover have "snd (tx_job x) = (past @ [q]) @ qs" using past(1) Cons by simp
      ultimately show ?thesis
        using Inr Cons jobs own by (fastforce simp: serial_def continue_transaction_def under_way_def)
    qed
  qed
qed

lemma under_way_kept:
  assumes "under_way f x" and "local_connection b (tx_thread x) = local_connection (sf_database f) (tx_thread x)"
  shows "under_way (f\<lparr>sf_database := b\<rparr>) x"
  using assms by (simp add: under_way_def)

lemma serial_step: "file_step f g \<Longrightarrow> serial d f \<Longrightarrow> serial d g"
proof (induction rule: file_step.induct)
  case (begins f th job)
  then show ?case by (simp add: serial_begin)
next
  case (continues f x)
  then show ?case by (simp add: serial_continue)
next
  case (writes f th c b q l l' d')
  then have "at_once (l, [q]) (sf_committed f) = d'" by (simp add: at_once_def)
  then show ?case using writes owned_connection [OF _ writes(2)] by (simp add: serial_def one_after_snoc)
next
  case (reads th f c b)
  have "under_way (f\<lparr>sf_database := b\<rparr>) x" if "sf_open f = Some x" for x
    using that reads by (auto simp: serial_def under_way_def intro: connection_kept)
  then show ?case using reads owned_connection [OF _ reads(1)] by (simp add: serial_def)
next
  case (closes f th)
  have "under_way (f\<lparr>sf_database := close_database th (sf_database f)\<rparr>) x" if "sf_open f = Some x" for x
    using that closes by (intro under_way_kept) (auto simp: serial_def close_local)
  then show ?case using closes by (simp add: serial_def owned_close)
qed

lemma serial_run: "file_step\<^sup>*\<^sup>* f g \<Longrightarrow> serial d f \<Longrightarrow> serial d g"
  by (induction rule: rtranclp_induct) (simp_all add: serial_step)

lemma serial_fresh: "serial d (fresh_file p d)"
  by (simp add: serial_def fresh_file_def owned_open one_after_the_other_def)

text \<open>
  C10. However the threads of the daemon interleave, what is committed is what the transactions
  leave when each is done in one go, one after the other in the order in which they ended; one whose body
  raises leaves nothing. An open transaction runs on its own thread's connection, and no thread has a connection
  another one opened or one that is closed.
\<close>

theorem transactions_serialize:
  fixes f :: "('l, 'x) state_file"
  assumes "file_step\<^sup>*\<^sup>* (fresh_file p d) f"
  shows "sf_committed f = one_after_the_other (sf_log f) d \<and>
    (\<forall>th c. local_connection (sf_database f) th = Some c \<longrightarrow>
       dict_get (db_opened_by (sf_database f)) c = Some th \<and> c \<notin> set (db_closed (sf_database f))) \<and>
    (\<forall>x. sf_open f = Some x \<longrightarrow> local_connection (sf_database f) (tx_thread x) = Some (tx_connection x))"
  using serial_run [OF assms serial_fresh] by (auto simp: serial_def owned_def under_way_def)

text \<open>Two threads: one raises half way through while the other waits with a write of its own.\<close>

definition ex_jobs :: "(unit, string) job list" where
  "ex_jobs = [((), [\<lambda>(l, d). Inr (l, kv_set d ''mail'' ''last_uid'' ''4''), \<lambda>_. Inl ''disk full'']),
     ((), [\<lambda>(l, d). Inr (l, kv_set d ''mail'' ''last_uid'' ''3'')])]"

definition ex_next :: "(unit, string) state_file \<Rightarrow> (unit, string) state_file" where
  "ex_next f = (case sf_open f of Some x \<Rightarrow> continue_transaction x f | None \<Rightarrow> f)"

definition ex_files :: "(unit, string) state_file list" where
  "ex_files = (let f = fresh_file [''var'', ''state.db''] empty_db;
     rolled_back = ex_next (ex_next (begin_immediate 0 (ex_jobs ! 0) f)) in
     [rolled_back, ex_next (ex_next (begin_immediate 1 (ex_jobs ! 1) rolled_back))])"

lemma ex_next_run: "sf_open f = None \<Longrightarrow> file_step\<^sup>*\<^sup>* f (ex_next (ex_next (begin_immediate th job f)))"
proof -
  have n: "file_step\<^sup>*\<^sup>* g (ex_next g)" for g by (cases "sf_open g") (auto simp: ex_next_def intro: continues)
  assume "sf_open f = None"
  then have "file_step\<^sup>*\<^sup>* f (begin_immediate th job f)" by (blast intro: begins)
  then show ?thesis using n by (meson rtranclp_trans)
qed

theorem transactions_serialize_witness:
  "file_step\<^sup>*\<^sup>* (fresh_file [''var'', ''state.db''] empty_db) (ex_files ! 1) \<and>
     map fst (sf_log (ex_files ! 1)) = [0, 1] \<and>
     kv_get (sf_committed (ex_files ! 1)) ''mail'' ''last_uid'' = Some ''3''"
proof -
  have "sf_open (ex_files ! 0) = None" "sf_open (fresh_file [''var'', ''state.db''] empty_db) = None"
    by code_simp+
  from ex_next_run [OF this(2), of 0 "ex_jobs ! 0"] ex_next_run [OF this(1), of 1 "ex_jobs ! 1"]
  have run: "file_step\<^sup>*\<^sup>* (fresh_file [''var'', ''state.db''] empty_db) (ex_files ! 1)"
    unfolding ex_files_def Let_def by simp
  have log: "sf_log (ex_files ! 1) = [(0, ex_jobs ! 0), (1, ex_jobs ! 1)]"
    by (simp add: ex_files_def ex_next_def begin_immediate_def continue_transaction_def fresh_file_def ex_jobs_def
        connection_def open_connection_def local_connection_def open_database_def Let_def)
  have "kv_get (one_after_the_other [(0, ex_jobs ! 0), (1, ex_jobs ! 1)] empty_db) ''mail'' ''last_uid'' = Some ''3''"
    by (simp add: one_after_the_other_def at_once_def ex_jobs_def kv_get_def kv_set_def empty_db_def)
  then show ?thesis using run log transactions_serialize [OF run] by simp
qed

end
